(* ===== verification/Kenjutsu_Prelude.thy ===== *)
theory Kenjutsu_Prelude
  imports Main "HOL-Library.Monad_Syntax" "HOL-Library.Sublist"
begin

text \<open>
  Shared material of the development: Python strings and the string methods the program
  calls, Python's exceptions as values, the error type, and generic lemmas.

  A Python \<open>str\<close> is a list of Unicode code points (\<open>pystr\<close>), so that emoji, Unicode
  white space and the line boundaries of \<open>str.splitlines\<close> are the language's own; a
  literal of the source is written \<open>u ''...''\<close>.  The tables (white space, line
  boundaries, decimal digits) are those of Unicode 15.0, which the pinned Python 3.12 has.
\<close>

named_theorems string_defs \<open>definitions of the modelled string methods\<close>
named_theorems frame \<open>which parts of the state an operation leaves alone\<close>
named_theorems keeps \<open>operations that keep an invariant\<close>

section \<open>Exceptions\<close>

datatype py_error =
    ValueError | KeyError | IndexError | ZeroDivisionError | AttributeError
  | TypeError | RuntimeError | RateLimitedError | RateLimitExceededError | NetworkError
  | HTTPStatusError nat | HTTPException nat | JSONDecodeError | IntegrityError
  | MirrorAlreadyExistsError | MirrorNotFoundError | MirrorCloneError "nat list"
  | MirrorFetchError "nat list" | MirrorReadError "nat list" | OtherError

type_synonym 'a result = "py_error + 'a"

text \<open>Sequencing of computations that may raise: the first exception is the result.\<close>

definition and_then :: "'e + 'a \<Rightarrow> ('a \<Rightarrow> 'e + 'b) \<Rightarrow> 'e + 'b" where
  "and_then m f = (case m of Inl e \<Rightarrow> Inl e | Inr x \<Rightarrow> f x)"

lemma and_then_simps [simp]:
  "and_then (Inl e) f = Inl e"
  "and_then (Inr x) f = f x"
  by (simp_all add: and_then_def)

lemma and_then_eq_Inr [simp]:
  "and_then m f = Inr y \<longleftrightarrow> (\<exists>x. m = Inr x \<and> f x = Inr y)"
  by (cases m) auto

lemma and_then_eq_Inl:
  "and_then m f = Inl e \<longleftrightarrow> m = Inl e \<or> (\<exists>x. m = Inr x \<and> f x = Inl e)"
  by (cases m) auto

lemma and_then_cong [fundef_cong]:
  "m = m' \<Longrightarrow> (\<And>x. m' = Inr x \<Longrightarrow> f x = g x) \<Longrightarrow> and_then m f = and_then m' g"
  by (cases m') simp_all

lemma and_then_assoc: "and_then (and_then m f) g = and_then m (\<lambda>x. and_then (f x) g)"
  by (cases m) auto

text \<open>A loop that appends the result of each turn, where a turn may raise.\<close>

fun map_result :: "('a \<Rightarrow> 'e + 'b) \<Rightarrow> 'a list \<Rightarrow> 'e + 'b list" where
  "map_result f [] = Inr []"
| "map_result f (x # xs) = and_then (f x) (\<lambda>y. and_then (map_result f xs) (\<lambda>ys. Inr (y # ys)))"

lemma map_result_length: "map_result f xs = Inr ys \<Longrightarrow> length ys = length xs"
  by (induction xs arbitrary: ys) auto

lemma map_result_all:
  "map_result f xs = Inr ys \<Longrightarrow> (\<And>x y. f x = Inr y \<Longrightarrow> P y) \<Longrightarrow> \<forall>y \<in> set ys. P y"
  by (induction xs arbitrary: ys) auto

lemma map_result_total: "\<forall>x \<in> set xs. \<exists>y. f x = Inr y \<Longrightarrow> \<exists>ys. map_result f xs = Inr ys"
  by (induction xs) auto

lemma map_result_Inl: "map_result f xs = Inl e \<Longrightarrow> \<exists>x \<in> set xs. f x = Inl e"
  by (induction xs) (auto simp: and_then_eq_Inl)

lemma upt_0_Suc: "[0..<Suc n] = 0 # map Suc [0..<n]"
  by (simp only: map_Suc_upt upt_conv_Cons zero_less_Suc)

section \<open>Strings\<close>

type_synonym pychar = nat
type_synonym pystr = "pychar list"
type_synonym pybytes = "nat list"

definition u :: "string \<Rightarrow> pystr" where
  "u s = map of_char s"

lemma u_Nil [simp]: "u '''' = []"
  and u_Cons [simp]: "u (c # s) = of_char c # u s"
  by (simp_all add: u_def)

lemma length_u: "length (u s) = length s"
  by (simp add: u_def)

lemma u_eq_Nil [simp]: "u s = [] \<longleftrightarrow> s = []"
  by (simp add: u_def)

lemma u_eq_iff [simp]: "u s = u t \<longleftrightarrow> s = t"
proof
  assume "u s = u t"
  moreover have "inj (of_char :: char \<Rightarrow> nat)"
    by (rule inj_of_char)
  ultimately show "s = t"
    by (simp add: u_def inj_map_eq_map)
qed simp

subsection \<open>Character classes\<close>

definition py_isspace :: "pychar \<Rightarrow> bool" where
  "py_isspace c \<longleftrightarrow>
     (9 \<le> c \<and> c \<le> 13) \<or> (28 \<le> c \<and> c \<le> 32) \<or> c = 0x85 \<or> c = 0xA0 \<or> c = 0x1680
     \<or> (0x2000 \<le> c \<and> c \<le> 0x200A) \<or> c = 0x2028 \<or> c = 0x2029 \<or> c = 0x202F
     \<or> c = 0x205F \<or> c = 0x3000"

definition py_linebreak :: "pychar \<Rightarrow> bool" where
  "py_linebreak c \<longleftrightarrow>
     (10 \<le> c \<and> c \<le> 13) \<or> (28 \<le> c \<and> c \<le> 30) \<or> c = 0x85 \<or> c = 0x2028 \<or> c = 0x2029"

lemma linebreak_isspace: "py_linebreak c \<Longrightarrow> py_isspace c"
  by (auto simp: py_linebreak_def py_isspace_def)

text \<open>The code points of the zeros of Unicode's decimal digits (category Nd).\<close>

definition nd_zeros :: "pychar list" where
  "nd_zeros = [0x30, 0x660, 0x6F0, 0x7C0, 0x966, 0x9E6, 0xA66, 0xAE6, 0xB66, 0xBE6, 0xC66,
     0xCE6, 0xD66, 0xDE6, 0xE50, 0xED0, 0xF20, 0x1040, 0x1090, 0x17E0, 0x1810, 0x1946,
     0x19D0, 0x1A80, 0x1A90, 0x1B50, 0x1BB0, 0x1C40, 0x1C50, 0xA620, 0xA8D0, 0xA900,
     0xA9D0, 0xA9F0, 0xAA50, 0xABF0, 0xFF10, 0x104A0, 0x10D30, 0x11066, 0x110F0, 0x11136,
     0x111D0, 0x112F0, 0x11450, 0x114D0, 0x11650, 0x116C0, 0x11730, 0x118E0, 0x11950,
     0x11C50, 0x11D50, 0x11DA0, 0x11F50, 0x16A60, 0x16AC0, 0x16B50, 0x1D7CE, 0x1D7D8,
     0x1D7E2, 0x1D7EC, 0x1D7F6, 0x1E140, 0x1E2F0, 0x1E4F0, 0x1E950, 0x1FBF0]"

definition digit_val :: "pychar \<Rightarrow> nat option" where
  "digit_val c = map_option (\<lambda>z. c - z) (find (\<lambda>z. z \<le> c \<and> c < z + 10) nd_zeros)"

definition is_digit :: "pychar \<Rightarrow> bool" where
  "is_digit c \<longleftrightarrow> digit_val c \<noteq> None"

lemma digit_val_less: "digit_val c = Some d \<Longrightarrow> d < 10"
  by (auto simp: digit_val_def dest!: find_Some_iff[THEN iffD1])

lemma find_Some_ex: "find P xs \<noteq> None \<longleftrightarrow> (\<exists>x \<in> set xs. P x)"
  unfolding find_None_iff by blast

lemma find_append:
  "find P (xs @ ys) = (case find P xs of None \<Rightarrow> find P ys | Some x \<Rightarrow> Some x)"
  by (induction xs) simp_all

lemma find_rev_last:
  "n < m \<Longrightarrow> P n \<Longrightarrow> (\<And>i. n < i \<Longrightarrow> i < m \<Longrightarrow> \<not> P i) \<Longrightarrow> find P (rev [0..<m]) = Some n"
proof (induction m)
  case (Suc m)
  then show ?case by (cases "n = m") auto
qed simp

lemma is_digit_iff: "is_digit c \<longleftrightarrow> (\<exists>z \<in> set nd_zeros. z \<le> c \<and> c < z + 10)"
  unfolding is_digit_def digit_val_def by (simp only: map_option_is_None find_Some_ex)

lemma ascii_digit: "d < 10 \<Longrightarrow> digit_val (48 + d) = Some d"
  by (simp add: digit_val_def nd_zeros_def)

lemma ascii_is_digit: "d < 10 \<Longrightarrow> is_digit (48 + d)"
  by (simp add: is_digit_def ascii_digit)

lemma digit_ge_48: "is_digit c \<Longrightarrow> 48 \<le> c"
  by (auto simp: is_digit_iff nd_zeros_def)

lemma digit_ascii_range: "is_digit c \<Longrightarrow> c \<le> 57 \<or> 0x660 \<le> c"
  by (auto simp: is_digit_iff nd_zeros_def)

text \<open>The classes of ASCII characters, for evaluation.\<close>

lemma ascii_eval:
  "c < 128 \<Longrightarrow> is_digit c \<longleftrightarrow> 48 \<le> c \<and> c \<le> 57"
  "48 \<le> c \<Longrightarrow> c \<le> 57 \<Longrightarrow> digit_val c = Some (c - 48)"
  "c < 128 \<Longrightarrow> py_isspace c \<longleftrightarrow> (9 \<le> c \<and> c \<le> 13) \<or> (28 \<le> c \<and> c \<le> 32)"
  "c < 128 \<Longrightarrow> py_linebreak c \<longleftrightarrow> (10 \<le> c \<and> c \<le> 13) \<or> (28 \<le> c \<and> c \<le> 30)"
proof -
  show "is_digit c \<longleftrightarrow> 48 \<le> c \<and> c \<le> 57" if "c < 128"
    using that digit_ge_48 [of c] digit_ascii_range [of c] ascii_is_digit [of "c - 48"] by auto
  show "digit_val c = Some (c - 48)" if "48 \<le> c" "c \<le> 57"
    using that ascii_digit [of "c - 48"] by auto
qed (auto simp: py_isspace_def py_linebreak_def)

subsection \<open>\<open>str.startswith\<close>, \<open>str.strip\<close>, \<open>str.splitlines\<close>, \<open>str.split\<close>\<close>

definition starts_with :: "pystr \<Rightarrow> pystr \<Rightarrow> bool" where
  "starts_with s p \<longleftrightarrow> take (length p) s = p"

lemma starts_with_iff: "starts_with s p \<longleftrightarrow> (\<exists>t. s = p @ t)"
  unfolding starts_with_def by (metis append_eq_conv_conj append_take_drop_id)

lemma starts_with_append [simp]: "starts_with (p @ t) p"
  by (simp add: starts_with_def)

lemma starts_with_Nil [simp]: "starts_with s []"
  by (simp add: starts_with_def)

lemma starts_with_Cons [simp]:
  "starts_with (c # s) (d # p) \<longleftrightarrow> c = d \<and> starts_with s p"
  "\<not> starts_with [] (d # p)"
  by (auto simp: starts_with_def)

lemma starts_with_self [simp]: "starts_with s s"
  by (simp add: starts_with_def)

definition lstrip :: "pystr \<Rightarrow> pystr" where
  "lstrip s = dropWhile py_isspace s"

definition rstrip :: "pystr \<Rightarrow> pystr" where
  "rstrip s = rev (dropWhile py_isspace (rev s))"

definition strip :: "pystr \<Rightarrow> pystr" where
  "strip s = rstrip (lstrip s)"

fun splitlines :: "pystr \<Rightarrow> pystr list" where
  "splitlines [] = []"
| "splitlines (c # s) =
     (if c = 13 \<and> s \<noteq> [] \<and> hd s = 10 then [] # splitlines (tl s)
      else if py_linebreak c then [] # splitlines s
      else (case splitlines s of [] \<Rightarrow> [[c]] | l # ls \<Rightarrow> (c # l) # ls))"

definition join :: "pystr \<Rightarrow> pystr list \<Rightarrow> pystr" where
  "join sep ss = (case ss of [] \<Rightarrow> [] | s # ss' \<Rightarrow> s @ concat (map (\<lambda>t. sep @ t) ss'))"

lemma dropWhile_word_shorter:
  assumes "dropWhile P s \<noteq> []"
  shows "length (dropWhile (\<lambda>c. \<not> P c) (dropWhile P s)) < length s"
proof -
  obtain c t where ct: "dropWhile P s = c # t"
    using assms by (meson list.exhaust)
  have "\<not> P c"
    using hd_dropWhile [OF assms] by (simp add: ct)
  then have "length (dropWhile (\<lambda>c. \<not> P c) (dropWhile P s)) \<le> length t"
    by (simp add: ct length_dropWhile_le)
  also have "\<dots> < length s"
    using length_dropWhile_le [of P s] by (simp add: ct)
  finally show ?thesis .
qed

text \<open>\<open>s.split()\<close>: the maximal runs of characters that are not white space.\<close>

function split_ws :: "pystr \<Rightarrow> pystr list" where
  "split_ws s =
     (let t = dropWhile py_isspace s in
      if t = [] then []
      else takeWhile (\<lambda>c. \<not> py_isspace c) t # split_ws (dropWhile (\<lambda>c. \<not> py_isspace c) t))"
  by pat_completeness auto
termination
  by (relation "measure length")
    (auto simp del: dropWhile_eq_Nil_conv intro: dropWhile_word_shorter)

declare split_ws.simps [simp del]

text \<open>\<open>s.split(c)\<close> for a one-character separator.\<close>

primrec split_on :: "pychar \<Rightarrow> pystr \<Rightarrow> pystr list" where
  "split_on c [] = [[]]"
| "split_on c (d # s) =
     (if d = c then [] # split_on c s
      else case split_on c s of [] \<Rightarrow> [[d]] | w # ws \<Rightarrow> (d # w) # ws)"

lemmas [string_defs] = starts_with_def lstrip_def rstrip_def strip_def join_def

definition no_linebreak :: "pystr \<Rightarrow> bool" where
  "no_linebreak s \<longleftrightarrow> (\<forall>c \<in> set s. \<not> py_linebreak c)"

lemma no_linebreak_simps [simp]:
  "no_linebreak []"
  "no_linebreak (c # s) \<longleftrightarrow> \<not> py_linebreak c \<and> no_linebreak s"
  "no_linebreak (s @ t) \<longleftrightarrow> no_linebreak s \<and> no_linebreak t"
  by (auto simp: no_linebreak_def)

lemma splitlines_no_linebreak: "\<forall>l \<in> set (splitlines s). no_linebreak l"
  by (induction s rule: splitlines.induct) (auto split: list.splits)

lemma splitlines_subset: "l \<in> set (splitlines s) \<Longrightarrow> set l \<subseteq> set s"
proof (induction s arbitrary: l rule: splitlines.induct)
  case (2 c s)
  note IH = "2.IH" and l = "2.prems"
  show ?case
  proof (cases "c = 13 \<and> s \<noteq> [] \<and> hd s = 10")
    case True
    moreover from this have "set (tl s) \<subseteq> set s" by (cases s) auto
    ultimately show ?thesis using IH(1) [OF True] l by auto
  next
    case outer: False
    show ?thesis
    proof (cases "py_linebreak c")
      case True
      with outer l have "l = [] \<or> l \<in> set (splitlines s)" by auto
      with IH(2) [OF outer True] show ?thesis by fastforce
    next
      case False
      have "\<forall>m \<in> set (splitlines s). set m \<subseteq> set s"
        using IH(3) [OF outer False] by blast
      moreover have "l = [c] \<or> (\<exists>m ms. splitlines s = m # ms \<and> (l = c # m \<or> l \<in> set ms))"
        using outer False l by (cases "splitlines s") auto
      ultimately show ?thesis by fastforce
    qed
  qed
qed simp

lemma linebreak_newline: "py_linebreak 10"
  and linebreak_return: "py_linebreak 13"
  by (simp_all add: py_linebreak_def)

text \<open>Text ending each of its lines in a newline is split back into these lines.\<close>

lemma splitlines_line: "no_linebreak l \<Longrightarrow> splitlines (l @ 10 # s) = l # splitlines s"
  by (induction l) (auto simp: py_linebreak_def)

definition unlines :: "pystr list \<Rightarrow> pystr" where
  "unlines ls = concat (map (\<lambda>l. l @ [10]) ls)"

lemma unlines_simps [simp]:
  "unlines [] = []"
  "unlines (l # ls) = l @ 10 # unlines ls"
  "unlines (ls @ ms) = unlines ls @ unlines ms"
  by (simp_all add: unlines_def)

lemma splitlines_unlines:
  "\<forall>l \<in> set ls. no_linebreak l \<Longrightarrow> splitlines (unlines ls) = ls"
  by (induction ls) (simp_all add: splitlines_line)

lemma rstrip_snoc [simp]:
  "rstrip [] = []"
  "rstrip (s @ [c]) = (if py_isspace c then rstrip s else s @ [c])"
  by (simp_all add: rstrip_def)

lemma strip_Nil [simp]: "strip [] = []"
  by (simp add: strip_def lstrip_def)

lemma rstrip_prefix: "\<exists>w. s = rstrip s @ w"
proof -
  have "s = rstrip s @ rev (takeWhile py_isspace (rev s))"
    by (simp add: rstrip_def flip: rev_append)
  then show ?thesis ..
qed

lemma rstrip_last: "rstrip s \<noteq> [] \<Longrightarrow> \<not> py_isspace (last (rstrip s))"
  using hd_dropWhile [of py_isspace "rev s"]
  by (simp add: rstrip_def last_rev del: dropWhile_eq_Nil_conv)

lemma lstrip_hd: "lstrip s \<noteq> [] \<Longrightarrow> \<not> py_isspace (hd (lstrip s))"
  using hd_dropWhile [of py_isspace s] by (simp add: lstrip_def del: dropWhile_eq_Nil_conv)

lemma strip_id: "s = [] \<or> (\<not> py_isspace (hd s) \<and> \<not> py_isspace (last s)) \<Longrightarrow> strip s = s"
proof (cases s rule: rev_cases)
  case (snoc s' c)
  moreover assume "s = [] \<or> (\<not> py_isspace (hd s) \<and> \<not> py_isspace (last s))"
  ultimately have "lstrip s = s" "\<not> py_isspace c"
    by (auto simp: lstrip_def dropWhile_eq_self_iff)
  with snoc show ?thesis by (simp add: strip_def)
qed (simp add: strip_def lstrip_def)

lemma strip_strip [simp]: "strip (strip s) = strip s"
proof (cases "strip s = []")
  case False
  obtain w where w: "lstrip s = strip s @ w"
    using rstrip_prefix [of "lstrip s"] by (auto simp: strip_def)
  with False have "hd (strip s) = hd (lstrip s)" "lstrip s \<noteq> []" by auto
  then have "\<not> py_isspace (hd (strip s))" using lstrip_hd by simp
  moreover have "\<not> py_isspace (last (strip s))"
    using False rstrip_last by (simp add: strip_def)
  ultimately show ?thesis by (simp add: strip_id)
qed (simp add: strip_def lstrip_def)

lemma strip_Nil_iff: "strip s = [] \<longleftrightarrow> (\<forall>c \<in> set s. py_isspace c)"
proof
  assume "strip s = []"
  then have "\<forall>c \<in> set (lstrip s). py_isspace c"
    by (simp add: strip_def rstrip_def)
  then have "lstrip s = []"
    unfolding lstrip_def by (metis hd_dropWhile hd_in_set)
  then show "\<forall>c \<in> set s. py_isspace c" by (simp add: lstrip_def)
next
  assume "\<forall>c \<in> set s. py_isspace c"
  then have "lstrip s = []" by (simp add: lstrip_def)
  then show "strip s = []" by (simp add: strip_def)
qed

lemma takeWhile_stop: "\<forall>c \<in> set d. P c \<Longrightarrow> r = [] \<or> \<not> P (hd r) \<Longrightarrow> takeWhile P (d @ r) = d"
  by (cases r) auto

lemma dropWhile_stop: "\<forall>c \<in> set d. P c \<Longrightarrow> r = [] \<or> \<not> P (hd r) \<Longrightarrow> dropWhile P (d @ r) = r"
  by (cases r) auto

subsection \<open>Integers as text\<close>

text \<open>
  \<open>int(s)\<close> on a run of decimal digits.  Since Python 3.11 the conversion refuses more than
  4300 digits with \<open>ValueError\<close>.
\<close>

definition digits_value :: "pystr \<Rightarrow> nat" where
  "digits_value ds = foldl (\<lambda>n c. 10 * n + (case digit_val c of Some d \<Rightarrow> d | None \<Rightarrow> 0)) 0 ds"

definition int_max_str_digits :: nat where
  "int_max_str_digits = 4300"

definition int_of_digits :: "pystr \<Rightarrow> int result" where
  "int_of_digits ds = (if length ds > int_max_str_digits then Inl ValueError else Inr (int (digits_value ds)))"

text \<open>\<open>str(n)\<close> for a natural number, and for an integer.\<close>

fun nat_str :: "nat \<Rightarrow> pystr" where
  "nat_str n = (if n < 10 then [48 + n] else nat_str (n div 10) @ [48 + n mod 10])"

declare nat_str.simps [simp del]

definition int_str :: "int \<Rightarrow> pystr" where
  "int_str i = (if i < 0 then 45 # nat_str (nat (- i)) else nat_str (nat i))"

lemma nat_str_not_Nil [simp]: "nat_str n \<noteq> []"
  by (subst nat_str.simps) simp

lemma nat_str_ascii: "\<forall>c \<in> set (nat_str n). 48 \<le> c \<and> c \<le> 57"
proof (induction n rule: nat_str.induct)
  case (1 n)
  have "n mod 10 \<le> 9" using mod_less_divisor [of 10 n] by linarith
  with 1 show ?case by (subst nat_str.simps) (cases "n < 10"; auto)
qed

lemma nat_str_digits: "\<forall>c \<in> set (nat_str n). is_digit c"
proof
  fix c assume "c \<in> set (nat_str n)"
  then have "48 \<le> c" "c \<le> 57" using nat_str_ascii by auto
  then show "is_digit c" using ascii_is_digit [of "c - 48"] by simp
qed

lemma digits_value_snoc:
  "digits_value (ds @ [48 + d]) = 10 * digits_value ds + d" if "d < 10"
  using ascii_digit [OF that] by (simp add: digits_value_def)

lemma digits_value_nat_str: "digits_value (nat_str n) = n"
proof (induction n rule: nat_str.induct)
  case (1 n)
  show ?case
  proof (cases "n < 10")
    case True
    then show ?thesis
      using digits_value_snoc [of n "[]"] by (subst nat_str.simps) (simp add: digits_value_def)
  next
    case False
    with 1 show ?thesis
      by (subst nat_str.simps) (simp add: digits_value_snoc)
  qed
qed

lemma length_nat_str: "n < 10 ^ k \<Longrightarrow> 0 < k \<Longrightarrow> length (nat_str n) \<le> k"
proof (induction n arbitrary: k rule: nat_str.induct)
  case (1 n)
  show ?case
  proof (cases "n < 10")
    case True
    with 1 show ?thesis by (subst nat_str.simps) simp
  next
    case False
    obtain j where j: "k = Suc j" using "1.prems" by (cases k) auto
    with False "1.prems" have "n div 10 < 10 ^ j" "0 < j"
      by (auto simp: less_mult_imp_div_less mult.commute intro: Nat.gr0I)
    with "1.IH" False j show ?thesis by (subst nat_str.simps) simp
  qed
qed

text \<open>The integers whose decimal text \<open>int\<close> reads back.\<close>

definition readable_int :: "int \<Rightarrow> bool" where
  "readable_int i \<longleftrightarrow> 0 \<le> i \<and> length (nat_str (nat i)) \<le> int_max_str_digits"

lemma readable_intI: "0 \<le> i \<Longrightarrow> i < 10 ^ 9 \<Longrightarrow> readable_int i"
  using length_nat_str [of "nat i" 9]
  by (simp add: readable_int_def int_max_str_digits_def nat_less_iff)

lemma int_of_digits_nat_str:
  "readable_int i \<Longrightarrow> int_of_digits (nat_str (nat i)) = Inr i"
  by (simp add: readable_int_def int_of_digits_def digits_value_nat_str)

end
