(* ===== verification/Diff_Models.thy ===== *)
theory Diff_Models
  imports Kenjutsu_Prelude
begin

text \<open>
  The data of a parsed unified diff (\<^verbatim>\<open>kenjutsu/diff/models.py\<close>): one record per dataclass,
  one definition per property method.  Line numbers and counts are Python integers.
\<close>

datatype change_type = ADD | DELETE | CONTEXT

record hunk_line =
  hl_change_type :: change_type
  hl_content :: pystr
  hl_old_lineno :: "int option"
  hl_new_lineno :: "int option"

record scope_context =
  sc_kind :: pystr
  sc_name :: pystr
  sc_signature :: pystr
  sc_start_line :: int
  sc_end_line :: int
  sc_language :: pystr

record hunk =
  old_start :: int
  old_count :: int
  new_start :: int
  new_count :: int
  hunk_lines :: "hunk_line list"
  section_header :: pystr
  enclosing_scope :: "scope_context option"

record patch_file =
  old_path :: "pystr option"
  new_path :: "pystr option"
  hunks :: "hunk list"
  is_binary :: bool

definition is_deletion_only :: "hunk \<Rightarrow> bool" where
  "is_deletion_only h \<longleftrightarrow> \<not> list_ex (\<lambda>ln. hl_change_type ln = ADD) (hunk_lines h)"

definition new_line_range :: "hunk \<Rightarrow> int \<times> int" where
  "new_line_range h = (new_start h, new_start h + max (new_count h - 1) 0)"

text \<open>\<open>self.new_path or self.old_path or ""\<close>: an empty path counts as absent.\<close>

definition patch_path :: "patch_file \<Rightarrow> pystr" where
  "patch_path p =
     (case new_path p of
        Some (c # cs) \<Rightarrow> c # cs
      | _ \<Rightarrow> (case old_path p of Some s \<Rightarrow> s | None \<Rightarrow> []))"

definition is_new_file :: "patch_file \<Rightarrow> bool" where
  "is_new_file p \<longleftrightarrow> old_path p = None \<and> new_path p \<noteq> None"

definition is_deleted_file :: "patch_file \<Rightarrow> bool" where
  "is_deleted_file p \<longleftrightarrow> old_path p \<noteq> None \<and> new_path p = None"

definition is_deletion :: "patch_file \<Rightarrow> bool" where
  "is_deletion p = is_deleted_file p"

definition is_rename :: "patch_file \<Rightarrow> bool" where
  "is_rename p \<longleftrightarrow> old_path p \<noteq> None \<and> new_path p \<noteq> None \<and> old_path p \<noteq> new_path p"

definition count_changes :: "change_type \<Rightarrow> patch_file \<Rightarrow> nat" where
  "count_changes t p =
     sum_list (map (\<lambda>h. length (filter (\<lambda>l. hl_change_type l = t) (hunk_lines h))) (hunks p))"

definition additions :: "patch_file \<Rightarrow> nat" where
  "additions p = count_changes ADD p"

definition deletions :: "patch_file \<Rightarrow> nat" where
  "deletions p = count_changes DELETE p"

text \<open>The kinds of file change exclude each other.\<close>

lemma change_kinds_disjoint:
  "\<not> (is_new_file p \<and> is_deleted_file p)"
  "\<not> (is_new_file p \<and> is_rename p)"
  "\<not> (is_deleted_file p \<and> is_rename p)"
  by (auto simp: is_new_file_def is_deleted_file_def is_rename_def)

lemma deletion_only_no_additions:
  "list_all is_deletion_only (hunks p) \<longleftrightarrow> additions p = 0"
  by (auto simp: additions_def count_changes_def is_deletion_only_def list_all_iff list_ex_iff
      filter_empty_conv)

end
