(* ===== verification/Diff_Parser.thy ===== *)
theory Diff_Parser
  imports Diff_Models
begin

text \<open>
  The unified diff parser (\<^verbatim>\<open>kenjutsu/diff/parser.py\<close>).  Each \<open>while\<close> loop over an index is a
  recursion over the lines that are left; a \<open>ValueError\<close> of \<open>int\<close> on an overlong line
  number leaves the parser and is the result \<open>Inl ValueError\<close>.
\<close>

section \<open>The regular expressions\<close>

definition match_lit :: "pystr \<Rightarrow> pystr \<Rightarrow> pystr option" where
  "match_lit p s = (if starts_with s p then Some (drop (length p) s) else None)"

text \<open>\<open>(\\d+)(?:,(\\d+))?\<close>: the two groups and the rest of the text.\<close>

definition match_range :: "pystr \<Rightarrow> ((pystr \<times> pystr option) \<times> pystr) option" where
  "match_range s =
     (let d = takeWhile is_digit s; r = dropWhile is_digit s in
      if d = [] then None
      else case r of
        [] \<Rightarrow> Some ((d, None), r)
      | c # r' \<Rightarrow>
          if c = of_char CHR '','' \<and> takeWhile is_digit r' \<noteq> []
          then Some ((d, Some (takeWhile is_digit r')), dropWhile is_digit r')
          else Some ((d, None), r))"

text \<open>\<open>(.*)$\<close>: the group ends before the first newline, which must be the last character.\<close>

definition match_to_eol :: "pystr \<Rightarrow> pystr option" where
  "match_to_eol s =
     (let t = takeWhile (\<lambda>c. c \<noteq> 10) s; r = dropWhile (\<lambda>c. c \<noteq> 10) s in
      if r = [] \<or> r = [10] then Some t else None)"

type_synonym range_groups = "pystr \<times> pystr option"

definition match_hunk_header :: "pystr \<Rightarrow> (range_groups \<times> range_groups \<times> pystr) option" where
  "match_hunk_header line = do {
     s1 \<leftarrow> match_lit (u ''@@ -'') line;
     (g12, s2) \<leftarrow> match_range s1;
     s3 \<leftarrow> match_lit (u '' +'') s2;
     (g34, s4) \<leftarrow> match_range s3;
     s5 \<leftarrow> match_lit (u '' @@'') s4;
     g5 \<leftarrow> match_to_eol s5;
     Some (g12, g34, g5)
   }"

text \<open>\<open>^diff --git a/(.+) b/(.+)$\<close>: the first group is greedy, so the last split wins.\<close>

definition git_split_at :: "pystr \<Rightarrow> nat \<Rightarrow> (pystr \<times> pystr) option" where
  "git_split_at s i =
     (let x = take i s in
      if x = [] \<or> 10 \<in> set x then None
      else case match_lit (u '' b/'') (drop i s) of
        None \<Rightarrow> None
      | Some r \<Rightarrow> (case match_to_eol r of
            None \<Rightarrow> None
          | Some y \<Rightarrow> if y = [] then None else Some (x, y)))"

definition match_git_header :: "pystr \<Rightarrow> (pystr \<times> pystr) option" where
  "match_git_header line =
     (case match_lit (u ''diff --git a/'') line of
        None \<Rightarrow> None
      | Some s \<Rightarrow> (case find (\<lambda>i. git_split_at s i \<noteq> None) (rev [0..<length s]) of
            None \<Rightarrow> None
          | Some i \<Rightarrow> git_split_at s i))"

definition strip_path_prefix :: "pystr \<Rightarrow> pystr option" where
  "strip_path_prefix path =
     (if path = u ''/dev/null'' then None
      else if starts_with path (u ''a/'') \<or> starts_with path (u ''b/'') then Some (drop 2 path)
      else Some path)"

section \<open>Hunks\<close>

text \<open>The inner loop of \<open>_parse_hunks\<close>: the lines of one hunk, and the lines left over.\<close>

fun hunk_body :: "pystr list \<Rightarrow> int \<Rightarrow> int \<Rightarrow> hunk_line list \<times> pystr list" where
  "hunk_body [] ol nl = ([], [])"
| "hunk_body (raw # rest) ol nl =
     (if match_hunk_header raw \<noteq> None then ([], raw # rest)
      else if starts_with raw (u ''diff --git'') then ([], raw # rest)
      else if starts_with raw (u ''+'') then
        map_prod (Cons \<lparr>hl_change_type = ADD, hl_content = drop 1 raw,
            hl_old_lineno = None, hl_new_lineno = Some nl\<rparr>) id
          (hunk_body rest ol (nl + 1))
      else if starts_with raw (u ''-'') then
        map_prod (Cons \<lparr>hl_change_type = DELETE, hl_content = drop 1 raw,
            hl_old_lineno = Some ol, hl_new_lineno = None\<rparr>) id
          (hunk_body rest (ol + 1) nl)
      else if starts_with raw (u '' '') \<or> raw = [] then
        map_prod (Cons \<lparr>hl_change_type = CONTEXT,
            hl_content = (if starts_with raw (u '' '') then drop 1 raw else raw),
            hl_old_lineno = Some ol, hl_new_lineno = Some nl\<rparr>) id
          (hunk_body rest (ol + 1) (nl + 1))
      else hunk_body rest ol nl)"

lemma hunk_body_rest_length [termination_simp]:
  "hunk_body ls ol nl = (hs, rest) \<Longrightarrow> length rest \<le> length ls"
  by (induction ls ol nl arbitrary: hs rest rule: hunk_body.induct)
    (auto split: if_splits prod.splits simp: map_prod_def le_SucI)

text \<open>\<open>int(m.group(k))\<close> where the group took part in the match, 1 where it did not.\<close>

definition group_count :: "pystr option \<Rightarrow> int result" where
  "group_count g = (case g of None \<Rightarrow> Inr 1 | Some ds \<Rightarrow> int_of_digits ds)"

definition header_numbers :: "range_groups \<Rightarrow> (int \<times> int) result" where
  "header_numbers g =
     and_then (int_of_digits (fst g)) (\<lambda>a. and_then (group_count (snd g)) (\<lambda>b. Inr (a, b)))"

text \<open>One turn of the outer loop: the hunk behind a matched header, and the lines left over.\<close>

definition read_hunk ::
  "range_groups \<times> range_groups \<times> pystr \<Rightarrow> pystr list \<Rightarrow> (hunk \<times> pystr list) result" where
  "read_hunk m rest =
     (case m of (g12, g34, g5) \<Rightarrow>
        and_then (header_numbers g12) (\<lambda>(os, oc).
        and_then (header_numbers g34) (\<lambda>(ns, nc).
          let body = hunk_body rest os ns in
          Inr (\<lparr>old_start = os, old_count = oc, new_start = ns, new_count = nc,
             hunk_lines = fst body, section_header = strip g5, enclosing_scope = None\<rparr>,
             snd body))))"

lemma read_hunk_elim:
  assumes "read_hunk m rest = Inr (h, rest')"
  obtains g12 g34 g5 os oc ns nc where
    "m = (g12, g34, g5)" "header_numbers g12 = Inr (os, oc)" "header_numbers g34 = Inr (ns, nc)"
    "hunk_body rest os ns = (hunk_lines h, rest')"
    "h = \<lparr>old_start = os, old_count = oc, new_start = ns, new_count = nc,
          hunk_lines = hunk_lines h, section_header = strip g5, enclosing_scope = None\<rparr>"
  using assms by (cases m) (auto simp: read_hunk_def Let_def split: prod.split_asm)

lemma read_hunk_rest_length: "read_hunk m rest = Inr (h, rest') \<Longrightarrow> length rest' \<le> length rest"
  by (elim read_hunk_elim) (rule hunk_body_rest_length)

function parse_hunks :: "pystr list \<Rightarrow> hunk list result" where
  "parse_hunks [] = Inr []"
| "parse_hunks (line # rest) =
     (case match_hunk_header line of
        None \<Rightarrow> parse_hunks rest
      | Some m \<Rightarrow> and_then (read_hunk m rest) (\<lambda>(h, rest').
            and_then (parse_hunks rest') (\<lambda>hs. Inr (h # hs))))"
  by pat_completeness auto
termination
  by (relation "measure length") (auto dest: read_hunk_rest_length)

section \<open>File blocks\<close>

definition is_file_start :: "pystr \<Rightarrow> bool" where
  "is_file_start ln = starts_with ln (u ''diff --git '')"

definition file_block_starts :: "pystr list \<Rightarrow> nat list" where
  "file_block_starts lines = filter (\<lambda>i. is_file_start (lines ! i)) [0..<length lines]"

definition file_block :: "pystr list \<Rightarrow> nat \<Rightarrow> pystr list" where
  "file_block lines block_idx =
     (let starts = file_block_starts lines;
          start = starts ! block_idx;
          stop = (if block_idx + 1 < length starts then starts ! (block_idx + 1) else length lines)
      in take (stop - start) (drop start lines))"

definition file_blocks :: "pystr list \<Rightarrow> pystr list list" where
  "file_blocks lines = map (file_block lines) [0..<length (file_block_starts lines)]"

record header_state =
  hs_old_path :: "pystr option"
  hs_new_path :: "pystr option"
  hs_is_binary :: bool
  hs_rename_from :: "pystr option"
  hs_rename_to :: "pystr option"
  hs_hunk_start :: nat

text \<open>The loop over the header lines of a block; \<open>i\<close> is the index of the first line left.\<close>

fun scan_header :: "pystr list \<Rightarrow> nat \<Rightarrow> header_state \<Rightarrow> header_state" where
  "scan_header [] i st = st"
| "scan_header (line # rest) i st =
     (if starts_with line (u ''diff --git '') then
        (case match_git_header line of
           None \<Rightarrow> scan_header rest (i + 1) st
         | Some (a, b) \<Rightarrow>
             scan_header rest (i + 1) (st\<lparr>hs_old_path := Some a, hs_new_path := Some b\<rparr>))
      else if starts_with line (u ''--- '') then
        scan_header rest (i + 1) (st\<lparr>hs_old_path := strip_path_prefix (drop 4 line)\<rparr>)
      else if starts_with line (u ''+++ '') then
        st\<lparr>hs_new_path := strip_path_prefix (drop 4 line), hs_hunk_start := i + 1\<rparr>
      else if starts_with line (u ''Binary files'') then st\<lparr>hs_is_binary := True\<rparr>
      else if starts_with line (u ''rename from '') then
        scan_header rest (i + 1) (st\<lparr>hs_rename_from := Some (drop 12 line)\<rparr>)
      else if starts_with line (u ''rename to '') then
        scan_header rest (i + 1) (st\<lparr>hs_rename_to := Some (drop 10 line)\<rparr>)
      else scan_header rest (i + 1) st)"

definition parse_block :: "pystr list \<Rightarrow> patch_file result" where
  "parse_block block =
     (let st = scan_header block 0 \<lparr>hs_old_path = None, hs_new_path = None, hs_is_binary = False,
            hs_rename_from = None, hs_rename_to = None, hs_hunk_start = length block\<rparr>;
          op = (case hs_rename_from st of None \<Rightarrow> hs_old_path st | Some p \<Rightarrow> Some p);
          np = (case hs_rename_to st of None \<Rightarrow> hs_new_path st | Some p \<Rightarrow> Some p)
      in and_then
           (if hs_is_binary st then Inr [] else parse_hunks (drop (hs_hunk_start st) block))
           (\<lambda>hs. Inr \<lparr>old_path = op, new_path = np, hunks = hs, is_binary = hs_is_binary st\<rparr>))"

fun apply_deletion_omission :: "patch_file list \<Rightarrow> patch_file list" where
  "apply_deletion_omission [] = []"
| "apply_deletion_omission (p # ps) =
     (if is_deleted_file p then apply_deletion_omission ps
      else \<lparr>old_path = old_path p, new_path = new_path p,
             hunks = filter (\<lambda>h. \<not> is_deletion_only h) (hunks p), is_binary = is_binary p\<rparr>
           # apply_deletion_omission ps)"

definition parse_diff :: "pystr \<Rightarrow> bool \<Rightarrow> patch_file list result" where
  "parse_diff diff_text include_deletions =
     (if diff_text = [] \<or> strip diff_text = [] then Inr []
      else and_then (map_result parse_block (file_blocks (splitlines diff_text))) (\<lambda>patches.
        Inr (if include_deletions then patches else apply_deletion_omission patches)))"

text \<open>Everything a concrete diff is evaluated with.\<close>

lemmas parser_eval =
  parse_diff_def parse_block_def file_blocks_def file_block_def file_block_starts_def
  is_file_start_def strip_path_prefix_def match_git_header_def git_split_at_def match_lit_def
  match_hunk_header_def match_range_def match_to_eol_def header_numbers_def group_count_def
  int_of_digits_def digits_value_def strip_def lstrip_def rstrip_def starts_with_def ascii_eval
  int_max_str_digits_def
  Let_def unlines_def read_hunk_def is_deleted_file_def is_deletion_only_def

section \<open>The header grammar\<close>

definition range_text :: "range_groups \<Rightarrow> pystr" where
  "range_text g = fst g @ (case snd g of None \<Rightarrow> [] | Some e \<Rightarrow> of_char CHR '','' # e)"

definition range_ok :: "range_groups \<Rightarrow> bool" where
  "range_ok g \<longleftrightarrow> fst g \<noteq> [] \<and> list_all is_digit (fst g)
     \<and> (case snd g of None \<Rightarrow> True | Some e \<Rightarrow> e \<noteq> [] \<and> list_all is_digit e)"

definition header_text :: "range_groups \<Rightarrow> range_groups \<Rightarrow> pystr \<Rightarrow> pystr" where
  "header_text g12 g34 sec =
     u ''@@ -'' @ range_text g12 @ u '' +'' @ range_text g34 @ u '' @@'' @ sec"

lemma match_lit_Some [simp]: "match_lit p s = Some r \<longleftrightarrow> s = p @ r"
  by (auto simp: match_lit_def starts_with_def) (metis append_take_drop_id)

lemma match_to_eol_Some:
  "match_to_eol s = Some t \<longleftrightarrow> 10 \<notin> set t \<and> (s = t \<or> s = t @ [10])"
proof
  assume "match_to_eol s = Some t"
  then have t: "t = takeWhile (\<lambda>c. c \<noteq> 10) s"
    and r: "dropWhile (\<lambda>c. c \<noteq> 10) s \<in> {[], [10]}"
    by (auto simp: match_to_eol_def Let_def split: if_splits)
  have "s = t @ dropWhile (\<lambda>c. c \<noteq> 10) s" by (simp add: t)
  with r have "s = t \<or> s = t @ [10]" by (metis append_Nil2 empty_iff insert_iff)
  moreover have "10 \<notin> set t" by (auto simp: t dest: set_takeWhileD)
  ultimately show "10 \<notin> set t \<and> (s = t \<or> s = t @ [10])" by simp
next
  assume asm: "10 \<notin> set t \<and> (s = t \<or> s = t @ [10])"
  then have "\<forall>c \<in> set t. c \<noteq> 10" by auto
  with asm show "match_to_eol s = Some t"
    by (auto simp: match_to_eol_def takeWhile_stop dropWhile_stop)
qed

lemma not_digit_seps: "\<not> is_digit 32" "\<not> is_digit 44" "\<not> is_digit 43" "\<not> is_digit 10"
  by (auto dest: digit_ge_48)

lemma match_range_append:
  assumes "range_ok g" and "\<not> is_digit c" and "c \<noteq> 44"
  shows "match_range (range_text g @ c # r) = Some (g, c # r)"
  using assms
  by (cases g) (auto simp: match_range_def range_ok_def range_text_def list_all_iff not_digit_seps
      takeWhile_stop dropWhile_stop Let_def split: option.splits)

lemma match_range_Some:
  assumes "match_range s = Some (g, r)"
  shows "range_ok g \<and> s = range_text g @ r"
proof -
  let ?d = "takeWhile is_digit s" and ?r = "dropWhile is_digit s"
  have s: "s = ?d @ ?r" by simp
  have digits: "list_all is_digit (takeWhile is_digit x)" for x
    by (auto simp: list_all_iff dest: set_takeWhileD)
  show ?thesis
  proof (cases ?r)
    case Nil
    with s have all: "takeWhile is_digit s = s" by (metis append_Nil2)
    show ?thesis
      using assms digits [of s]
      unfolding match_range_def Let_def all Nil range_ok_def range_text_def
      by (auto split: if_splits)
  next
    case (Cons c r')
    have "r' = takeWhile is_digit r' @ dropWhile is_digit r'" by simp
    with Cons assms s digits show ?thesis
      by (auto simp: match_range_def range_ok_def range_text_def Let_def split: if_splits)
  qed
qed

text \<open>
  Claim C9.  The header matcher accepts exactly the lines of the documented grammar
  \<open>@@ -a[,b] +c[,d] @@ section\<close> (with at most one newline at the very end) and returns
  exactly the groups of the line.
\<close>

theorem match_hunk_header_iff:
  "match_hunk_header line = Some (g12, g34, sec) \<longleftrightarrow>
     range_ok g12 \<and> range_ok g34 \<and> 10 \<notin> set sec
     \<and> (line = header_text g12 g34 sec \<or> line = header_text g12 g34 sec @ [10])"
proof
  assume "match_hunk_header line = Some (g12, g34, sec)"
  then obtain s1 s2 s3 s4 s5 where
    "line = u ''@@ -'' @ s1" "match_range s1 = Some (g12, s2)" "s2 = u '' +'' @ s3"
    "match_range s3 = Some (g34, s4)" "s4 = u '' @@'' @ s5" "match_to_eol s5 = Some sec"
    unfolding match_hunk_header_def by (auto simp: bind_eq_Some_conv simp del: u_Cons)
  then show "range_ok g12 \<and> range_ok g34 \<and> 10 \<notin> set sec
     \<and> (line = header_text g12 g34 sec \<or> line = header_text g12 g34 sec @ [10])"
    by (auto simp: header_text_def match_to_eol_Some dest!: match_range_Some)
next
  assume asm: "range_ok g12 \<and> range_ok g34 \<and> 10 \<notin> set sec
     \<and> (line = header_text g12 g34 sec \<or> line = header_text g12 g34 sec @ [10])"
  then obtain sec' where line: "line = header_text g12 g34 sec'"
    and sec': "match_to_eol sec' = Some sec"
    by (force simp: header_text_def match_to_eol_Some)
  have "match_range (range_text g @ 32 # r) = Some (g, 32 # r)" if "range_ok g" for g r
    using that by (intro match_range_append) (simp_all add: not_digit_seps)
  with asm sec' show "match_hunk_header line = Some (g12, g34, sec)"
    by (simp add: match_hunk_header_def line header_text_def match_lit_def starts_with_def)
qed

section \<open>Line numbers\<close>

text \<open>
  The lines of a hunk seen from the new file (everything but deletions) and from the old file
  (everything but additions).
\<close>

definition new_view :: "hunk_line list \<Rightarrow> hunk_line list" where
  "new_view ls = filter (\<lambda>l. hl_change_type l \<noteq> DELETE) ls"

definition old_view :: "hunk_line list \<Rightarrow> hunk_line list" where
  "old_view ls = filter (\<lambda>l. hl_change_type l \<noteq> ADD) ls"

definition consecutive :: "int \<Rightarrow> nat \<Rightarrow> int option list" where
  "consecutive a n = map (\<lambda>k. Some (a + int k)) [0..<n]"

lemma consecutive_simps [simp]:
  "consecutive a 0 = []"
  "consecutive a (Suc n) = Some a # consecutive (a + 1) n"
  by (simp_all add: consecutive_def upt_0_Suc comp_def algebra_simps del: upt_Suc)

definition line_numbers_ok :: "int \<Rightarrow> int \<Rightarrow> hunk_line list \<Rightarrow> bool" where
  "line_numbers_ok ol nl ls \<longleftrightarrow>
     map hl_new_lineno (new_view ls) = consecutive nl (length (new_view ls))
     \<and> map hl_old_lineno (old_view ls) = consecutive ol (length (old_view ls))
     \<and> (\<forall>l \<in> set ls. (hl_new_lineno l = None \<longleftrightarrow> hl_change_type l = DELETE)
          \<and> (hl_old_lineno l = None \<longleftrightarrow> hl_change_type l = ADD))"

lemma line_numbers_ok_simps [simp]:
  "line_numbers_ok ol nl []"
  "line_numbers_ok ol nl (l # ls) \<longleftrightarrow>
     (case hl_change_type l of
        ADD \<Rightarrow> hl_old_lineno l = None \<and> hl_new_lineno l = Some nl \<and> line_numbers_ok ol (nl + 1) ls
      | DELETE \<Rightarrow> hl_old_lineno l = Some ol \<and> hl_new_lineno l = None \<and> line_numbers_ok (ol + 1) nl ls
      | CONTEXT \<Rightarrow> hl_old_lineno l = Some ol \<and> hl_new_lineno l = Some nl
          \<and> line_numbers_ok (ol + 1) (nl + 1) ls)"
  by (auto simp: line_numbers_ok_def new_view_def old_view_def split: change_type.splits)

lemma hunk_body_line_numbers: "line_numbers_ok ol nl (fst (hunk_body ls ol nl))"
  by (induction ls ol nl rule: hunk_body.induct) simp_all

definition hunk_ok :: "hunk \<Rightarrow> bool" where
  "hunk_ok h \<longleftrightarrow> line_numbers_ok (old_start h) (new_start h) (hunk_lines h)
     \<and> enclosing_scope h = None \<and> strip (section_header h) = section_header h"

lemma read_hunk_ok:
  assumes "read_hunk m rest = Inr (h, rest')"
  shows "hunk_ok h"
  using assms
proof (rule read_hunk_elim)
  fix g5 :: pystr and os oc ns nc :: int
  assume "hunk_body rest os ns = (hunk_lines h, rest')"
    and h: "h = \<lparr>old_start = os, old_count = oc, new_start = ns, new_count = nc,
          hunk_lines = hunk_lines h, section_header = strip g5, enclosing_scope = None\<rparr>"
  then have "line_numbers_ok os ns (hunk_lines h)"
    using hunk_body_line_numbers [of os ns rest] by simp
  then show ?thesis by (subst h) (simp add: hunk_ok_def)
qed

lemma parse_hunks_ok: "parse_hunks ls = Inr hs \<Longrightarrow> \<forall>h \<in> set hs. hunk_ok h"
proof (induction ls arbitrary: hs rule: parse_hunks.induct)
  case (2 line rest)
  then show ?case
    by (fastforce split: option.splits dest: read_hunk_ok)
qed simp

section \<open>File blocks, one per header\<close>

primrec blocks_of :: "pystr list \<Rightarrow> pystr list list" where
  "blocks_of [] = []"
| "blocks_of (l # ls) =
     (if is_file_start l then (l # takeWhile (\<lambda>m. \<not> is_file_start m) ls) # blocks_of ls
      else blocks_of ls)"

lemma file_block_starts_Nil [simp]: "file_block_starts [] = []"
  by (simp add: file_block_starts_def)

lemma file_block_starts_Cons:
  "file_block_starts (l # ls) =
     (if is_file_start l then [0] else []) @ map Suc (file_block_starts ls)"
  by (simp add: file_block_starts_def upt_0_Suc filter_map comp_def del: upt_Suc)

lemma take_to_first_start:
  "take (case file_block_starts ls of [] \<Rightarrow> length ls | i # _ \<Rightarrow> i) ls
     = takeWhile (\<lambda>m. \<not> is_file_start m) ls"
  by (induction ls) (auto simp: file_block_starts_Cons split: list.splits)

lemma file_block_shift:
  assumes "k < length (file_block_starts ls)"
  shows "file_block (l # ls) (if is_file_start l then Suc k else k) = file_block ls k"
  using assms by (auto simp: file_block_def file_block_starts_Cons Let_def)

lemma file_block_0:
  assumes "is_file_start l"
  shows "file_block (l # ls) 0 = l # takeWhile (\<lambda>m. \<not> is_file_start m) ls"
  using assms take_to_first_start [of ls]
  by (cases "file_block_starts ls") (auto simp: file_block_def file_block_starts_Cons)

lemma file_blocks_eq_blocks_of: "file_blocks lines = blocks_of lines"
proof (induction lines)
  case Nil
  show ?case by (simp add: file_blocks_def file_block_starts_def)
next
  case (Cons l ls)
  let ?n = "length (file_block_starts ls)"
  have shift: "map (\<lambda>k. file_block (l # ls) (if is_file_start l then Suc k else k)) [0..<?n]
      = file_blocks ls"
    unfolding file_blocks_def by (rule map_cong) (simp_all add: file_block_shift)
  show ?case
  proof (cases "is_file_start l")
    case True
    with shift have "map (\<lambda>k. file_block (l # ls) (Suc k)) [0..<?n] = file_blocks ls"
      by (simp only: if_True)
    with True Cons show ?thesis
      by (simp add: file_blocks_def [of "l # ls"] file_block_starts_Cons file_block_0 upt_0_Suc
          comp_def del: upt_Suc)
  next
    case False
    with shift have "map (file_block (l # ls)) [0..<?n] = file_blocks ls"
      by (simp only: if_False)
    with False Cons show ?thesis
      by (simp add: file_blocks_def [of "l # ls"] file_block_starts_Cons)
  qed
qed

lemma length_blocks_of: "length (blocks_of ls) = length (filter is_file_start ls)"
  by (induction ls) simp_all

lemma blank_has_no_file_start:
  assumes "\<forall>c \<in> set s. py_isspace c"
  shows "\<forall>l \<in> set (splitlines s). \<not> is_file_start l"
proof
  fix l assume "l \<in> set (splitlines s)"
  then have "\<forall>c \<in> set l. py_isspace c" using splitlines_subset [of l s] assms by blast
  moreover have "\<not> py_isspace 100" by (simp add: py_isspace_def)
  ultimately show "\<not> is_file_start l" by (auto simp: is_file_start_def starts_with_iff)
qed

text \<open>Both ways through \<open>parse_diff\<close> at once: blank text has no file block either.\<close>

lemma parse_diff_eq:
  "parse_diff t inc =
     and_then (map_result parse_block (blocks_of (splitlines t)))
       (\<lambda>ps. Inr (if inc then ps else apply_deletion_omission ps))"
proof (cases "t = [] \<or> strip t = []")
  case True
  then have "\<forall>l \<in> set (splitlines t). \<not> is_file_start l"
    by (intro blank_has_no_file_start) (auto simp: strip_Nil_iff)
  then have "blocks_of (splitlines t) = []"
    by (simp flip: length_0_conv add: length_blocks_of filter_False)
  with True show ?thesis by (simp add: parse_diff_def)
qed (simp add: parse_diff_def file_blocks_eq_blocks_of)

section \<open>Properties of the parser\<close>

lemma parse_block_ok: "parse_block b = Inr p \<Longrightarrow> \<forall>h \<in> set (hunks p). hunk_ok h"
  by (auto simp: parse_block_def Let_def split: if_splits dest: parse_hunks_ok)

lemma omission_hunks:
  "p \<in> set (apply_deletion_omission ps) \<Longrightarrow> h \<in> set (hunks p) \<Longrightarrow>
     \<exists>q \<in> set ps. h \<in> set (hunks q)"
  by (induction ps rule: apply_deletion_omission.induct) (auto split: if_splits)

text \<open>
  Claim C4.  The line numbers are decoupled and exact: in every hunk the parser returns, the
  lines of the new file (context and additions) are numbered consecutively from \<open>new_start\<close>,
  the lines of the old file (context and deletions) consecutively from \<open>old_start\<close>; an
  addition has no old number, a deletion no new one, and every other number is present.
\<close>

theorem parse_diff_line_numbers:
  assumes "parse_diff diff_text include_deletions = Inr ps"
    and "p \<in> set ps" and "h \<in> set (hunks p)"
  shows "map hl_new_lineno (new_view (hunk_lines h))
           = consecutive (new_start h) (length (new_view (hunk_lines h)))
    \<and> map hl_old_lineno (old_view (hunk_lines h))
           = consecutive (old_start h) (length (old_view (hunk_lines h)))
    \<and> (\<forall>l \<in> set (hunk_lines h). (hl_new_lineno l = None \<longleftrightarrow> hl_change_type l = DELETE)
           \<and> (hl_old_lineno l = None \<longleftrightarrow> hl_change_type l = ADD))"
proof -
  obtain qs where qs: "map_result parse_block (blocks_of (splitlines diff_text)) = Inr qs"
    and ps: "ps = (if include_deletions then qs else apply_deletion_omission qs)"
    using assms(1) by (auto simp: parse_diff_eq)
  have "\<forall>q \<in> set qs. \<forall>h \<in> set (hunks q). hunk_ok h"
    by (rule map_result_all [OF qs]) (rule parse_block_ok)
  then have "hunk_ok h"
    using assms(2,3) ps omission_hunks by (cases include_deletions) fastforce+
  then show ?thesis by (simp add: hunk_ok_def line_numbers_ok_def)
qed

text \<open>
  One \<open>PatchFile\<close> per \<open>diff --git\<close> line, in the order of the text: whenever the
  parser returns, the blocks are those that start at the file headers, each parsed by itself.
\<close>

theorem parse_diff_one_per_header:
  assumes "parse_diff diff_text True = Inr ps"
  shows "length ps = length (filter is_file_start (splitlines diff_text))
    \<and> map parse_block (blocks_of (splitlines diff_text)) = map Inr ps"
proof -
  have "map_result f xs = Inr ys \<Longrightarrow> map f xs = map Inr ys" for f :: "'a \<Rightarrow> 'e + 'b" and xs ys
    by (induction xs arbitrary: ys) auto
  with assms show ?thesis
    by (auto simp: parse_diff_eq length_blocks_of dest: map_result_length)
qed



lemma blocks_of_subset: "b \<in> set (blocks_of ls) \<Longrightarrow> set b \<subseteq> set ls"
  by (induction ls) (auto split: if_splits dest: set_takeWhileD)

lemma hunk_body_rest_subset: "set (snd (hunk_body ls ol nl)) \<subseteq> set ls"
  by (induction ls ol nl rule: hunk_body.induct) auto

lemma read_hunk_rest_subset: "read_hunk m rest = Inr (h, rest') \<Longrightarrow> set rest' \<subseteq> set rest"
  by (elim read_hunk_elim) (metis hunk_body_rest_subset snd_conv)

definition overlong_header :: "pystr \<Rightarrow> bool" where
  "overlong_header l \<longleftrightarrow> length l > int_max_str_digits \<and> (\<exists>m. match_hunk_header l = Some m)"

lemma header_numbers_Inl:
  "header_numbers g = Inl e \<Longrightarrow> e = ValueError \<and> int_max_str_digits < length (range_text g)"
  by (auto simp: header_numbers_def and_then_eq_Inl group_count_def int_of_digits_def range_text_def
      split: option.splits if_splits)

lemma read_hunk_Inl:
  assumes "match_hunk_header line = Some m" and "read_hunk m rest = Inl e"
  shows "e = ValueError \<and> overlong_header line"
proof -
  obtain g12 g34 g5 where m: "m = (g12, g34, g5)" by (cases m)
  have "header_numbers g12 = Inl e \<or> header_numbers g34 = Inl e"
    using assms(2) by (auto simp: read_hunk_def m and_then_eq_Inl Let_def split: prod.split_asm)
  then have "e = ValueError" "int_max_str_digits < length (range_text g12)
      \<or> int_max_str_digits < length (range_text g34)"
    using header_numbers_Inl by blast+
  moreover have "length (range_text g12) + length (range_text g34) \<le> length line"
    using assms(1) unfolding m match_hunk_header_iff by (auto simp: header_text_def)
  ultimately show ?thesis
    using assms(1) unfolding overlong_header_def by (metis add.commute add_leD1 order_less_le_trans)
qed

lemma parse_hunks_Inl:
  "parse_hunks ls = Inl e \<Longrightarrow> e = ValueError \<and> (\<exists>l \<in> set ls. overlong_header l)"
proof (induction ls rule: parse_hunks.induct)
  case (2 line rest)
  show ?case
  proof (cases "match_hunk_header line")
    case None
    with 2 show ?thesis by auto
  next
    case (Some m)
    show ?thesis
    proof (cases "read_hunk m rest")
      case (Inl e')
      with Some 2 read_hunk_Inl [OF Some] show ?thesis by auto
    next
      case (Inr b)
      obtain h rest' where b: "b = (h, rest')" by (cases b)
      have "parse_hunks rest' = Inl e"
        using "2.prems" Some Inr b by (simp add: and_then_eq_Inl)
      with "2.IH"(2) [OF Some _ refl] Inr b have
        "e = ValueError" "\<exists>l \<in> set rest'. overlong_header l" by auto
      with read_hunk_rest_subset [of m rest h rest'] Inr b show ?thesis by auto
    qed
  qed
qed simp

text \<open>
  Claim C10.  The parser is total up to Python's limit on integer literals: it returns a list of
  files, or it raises \<open>ValueError\<close>, and the latter only if the text has a hunk header of more
  than 4300 characters.  No other exception leaves it, whatever the text is.
\<close>

theorem parse_diff_total:
  "(\<exists>ps. parse_diff diff_text include_deletions = Inr ps)
   \<or> (parse_diff diff_text include_deletions = Inl ValueError
       \<and> (\<exists>l \<in> set (splitlines diff_text). overlong_header l))"
proof (cases "parse_diff diff_text include_deletions")
  case (Inl e)
  then obtain b where b: "b \<in> set (blocks_of (splitlines diff_text))" and "parse_block b = Inl e"
    by (auto simp: parse_diff_eq and_then_eq_Inl dest: map_result_Inl)
  then obtain i where "parse_hunks (drop i b) = Inl e"
    by (auto simp: parse_block_def Let_def and_then_eq_Inl split: if_splits)
  then have "e = ValueError" "\<exists>l \<in> set (drop i b). overlong_header l"
    using parse_hunks_Inl by auto
  moreover have "set (drop i b) \<subseteq> set (splitlines diff_text)"
    using blocks_of_subset [OF b] set_drop_subset [of i b] by blast
  ultimately show ?thesis using Inl by auto
qed simp

section \<open>A concrete diff\<close>

definition sample_diff :: pystr where
  "sample_diff = unlines (map u
     [''diff --git a/m.py b/m.py'', ''index 83db48f..bf2a5f1 100644'', ''--- a/m.py'', ''+++ b/m.py'',
      ''@@ -10,3 +10,3 @@ def f():'', '' x'', ''-old'', ''+new'', '' y''])"

definition sample_hunk :: hunk where
  "sample_hunk = \<lparr>old_start = 10, old_count = 3, new_start = 10, new_count = 3,
     hunk_lines =
       [\<lparr>hl_change_type = CONTEXT, hl_content = u ''x'', hl_old_lineno = Some 10, hl_new_lineno = Some 10\<rparr>,
        \<lparr>hl_change_type = DELETE, hl_content = u ''old'', hl_old_lineno = Some 11, hl_new_lineno = None\<rparr>,
        \<lparr>hl_change_type = ADD, hl_content = u ''new'', hl_old_lineno = None, hl_new_lineno = Some 11\<rparr>,
        \<lparr>hl_change_type = CONTEXT, hl_content = u ''y'', hl_old_lineno = Some 12, hl_new_lineno = Some 12\<rparr>],
     section_header = u ''def f():'', enclosing_scope = None\<rparr>"

definition sample_patch :: patch_file where
  "sample_patch = \<lparr>old_path = Some (u ''m.py''), new_path = Some (u ''m.py''),
     hunks = [sample_hunk], is_binary = False\<rparr>"

lemma parse_sample_diff: "parse_diff sample_diff True = Inr [sample_patch]"
  by (simp add: sample_diff_def sample_patch_def sample_hunk_def parser_eval)

theorem parse_diff_line_numbers_witness:
  "parse_diff sample_diff True = Inr [sample_patch]
   \<and> map hl_new_lineno (new_view (hunk_lines sample_hunk)) = [Some 10, Some 11, Some 12]"
  using parse_diff_line_numbers [OF parse_sample_diff, of sample_patch sample_hunk]
  by (simp add: parse_sample_diff sample_patch_def) (simp add: sample_hunk_def new_view_def)

theorem parse_diff_one_per_header_witness:
  "length [sample_patch] = length (filter is_file_start (splitlines sample_diff))"
  using parse_diff_one_per_header [OF parse_sample_diff] by simp

section \<open>Where the parser reads a diff otherwise than \<open>git\<close> wrote it\<close>

text \<open>
  \<open>str.splitlines\<close> also breaks lines at form feeds and other characters \<open>git\<close> leaves inside a
  line: the tail of the line is read as a line of its own, and every later line number is off.
\<close>

lemma form_feed_splits_line:
  "splitlines (u ''+a'' @ 12 # u ''+b'') = [u ''+a'', u ''+b'']"
  "map hl_new_lineno (fst (hunk_body (splitlines (u ''+a'' @ 12 # u ''+b'' @ 10 # u ''+c'')) 0 1))
     = [Some 1, Some 2, Some 3]"
  by (simp_all add: parser_eval)

text \<open>\<open>git\<close> ends a file name that contains a space with a tab on the \<open>---\<close> and \<open>+++\<close> lines.\<close>

lemma tab_after_spaced_path:
  "parse_diff (unlines [u ''diff --git a/a b b/a b'', u ''--- a/a b'' @ [9], u ''+++ b/a b'' @ [9],
       u ''@@ -1 +1 @@'', u ''-x'', u ''+y'']) True
     = Inr [\<lparr>old_path = Some (u ''a b'' @ [9]), new_path = Some (u ''a b'' @ [9]),
         hunks = [\<lparr>old_start = 1, old_count = 1, new_start = 1, new_count = 1, hunk_lines =
            [\<lparr>hl_change_type = DELETE, hl_content = u ''x'', hl_old_lineno = Some 1, hl_new_lineno = None\<rparr>,
             \<lparr>hl_change_type = ADD, hl_content = u ''y'', hl_old_lineno = None, hl_new_lineno = Some 1\<rparr>],
            section_header = [], enclosing_scope = None\<rparr>], is_binary = False\<rparr>]"
  by (simp add: parser_eval)

text \<open>
  A deleted binary file has no \<open>---\<close> and \<open>+++\<close> lines: it counts as changed, not as deleted,
  and deletion omission keeps it.
\<close>

lemma deleted_binary_is_kept:
  "parse_diff (unlines (map u [''diff --git a/x b/x'', ''deleted file mode 100644'',
       ''Binary files a/x and /dev/null differ''])) False
     = Inr [\<lparr>old_path = Some (u ''x''), new_path = Some (u ''x''), hunks = [], is_binary = True\<rparr>]"
  by (simp add: parser_eval)

end
