(* ===== verification/Codec.thy ===== *)
theory Codec
  imports Kenjutsu_Prelude
begin

text \<open>
  The contract of the parsers.  A \<open>reader\<close> gets from what was printed what is to be seen of it; a
  \<open>codec\<close> is a reader that sees everything.  The parser of file blocks and the parser of whole diffs
  are readers (\<open>Diff_Render\<close>), the parser of the lines of \<open>git log\<close> is a codec (\<open>Mirror\<close>).
\<close>

locale reader =
  fixes printable :: "'a \<Rightarrow> bool"
    and print :: "'a \<Rightarrow> 'b"
    and see :: "'a \<Rightarrow> 'c"
    and parse :: "'b \<Rightarrow> 'e + 'c"
  assumes parse_print: "printable x \<Longrightarrow> parse (print x) = Inr (see x)"
begin

lemma printed_same: "printable x \<Longrightarrow> printable y \<Longrightarrow> print x = print y \<Longrightarrow> see x = see y"
  by (metis parse_print Inr_inject)

text \<open>A list that is printed piece by piece is read piece by piece.\<close>

lemma map_parse: "list_all printable xs \<Longrightarrow> map_result parse (map print xs) = Inr (map see xs)"
  by (induction xs) (simp_all add: parse_print)

end

locale codec =
  fixes printable :: "'a \<Rightarrow> bool"
    and print :: "'a \<Rightarrow> 'b"
    and parse :: "'b \<Rightarrow> 'e + 'a"
  assumes read_back: "printable x \<Longrightarrow> parse (print x) = Inr x"

sublocale codec \<subseteq> read: reader printable print "\<lambda>x. x" parse
  by unfold_locales (rule read_back)

context codec
begin

lemma print_inj: "inj_on print {x. printable x}"
  by (rule inj_onI) (use read.printed_same in auto)

lemma map_parse: "list_all printable xs \<Longrightarrow> map_result parse (map print xs) = Inr xs"
  using read.map_parse by simp

end

end
