(* ===== verification/Py_Utf8.thy ===== *)
theory Py_Utf8
  imports Kenjutsu_Prelude
begin

text \<open>
  UTF-8 as Python has it: \<open>str.encode("utf-8")\<close>, which refuses surrogates with a \<open>ValueError\<close>
  (\<open>UnicodeEncodeError\<close>), and \<open>bytes.decode("utf-8", errors="replace")\<close>, which writes U+FFFD
  for every maximal ill-formed part.
\<close>

definition is_surrogate :: "pychar \<Rightarrow> bool" where
  "is_surrogate c \<longleftrightarrow> 0xD800 \<le> c \<and> c \<le> 0xDFFF"

definition utf8_char :: "pychar \<Rightarrow> pybytes" where
  "utf8_char c =
     (if c < 0x80 then [c]
      else if c < 0x800 then [0xC0 + c div 64, 0x80 + c mod 64]
      else if c < 0x10000 then [0xE0 + c div 4096, 0x80 + c div 64 mod 64, 0x80 + c mod 64]
      else [0xF0 + c div 262144, 0x80 + c div 4096 mod 64, 0x80 + c div 64 mod 64, 0x80 + c mod 64])"

definition utf8_encode :: "pystr \<Rightarrow> pybytes result" where
  "utf8_encode s = (if list_ex is_surrogate s then Inl ValueError else Inr (concat (map utf8_char s)))"

text \<open>The bytes that may follow a lead byte, and the payload of the lead byte.\<close>

definition second_ok :: "nat \<Rightarrow> nat \<Rightarrow> bool" where
  "second_ok a b \<longleftrightarrow>
     (if a = 0xE0 then 0xA0 \<le> b \<and> b \<le> 0xBF
      else if a = 0xED then 0x80 \<le> b \<and> b \<le> 0x9F
      else if a = 0xF0 then 0x90 \<le> b \<and> b \<le> 0xBF
      else if a = 0xF4 then 0x80 \<le> b \<and> b \<le> 0x8F
      else 0x80 \<le> b \<and> b \<le> 0xBF)"

definition cont_ok :: "nat \<Rightarrow> bool" where
  "cont_ok b \<longleftrightarrow> 0x80 \<le> b \<and> b \<le> 0xBF"

definition replacement :: pychar where
  "replacement = 0xFFFD"

function utf8_decode :: "pybytes \<Rightarrow> pystr" where
  "utf8_decode [] = []"
| "utf8_decode (a # bs) =
     (if a < 0x80 then a # utf8_decode bs
      else if 0xC2 \<le> a \<and> a \<le> 0xDF then
        (if bs \<noteq> [] \<and> cont_ok (hd bs)
         then ((a - 0xC0) * 64 + (hd bs - 0x80)) # utf8_decode (drop 1 bs)
         else replacement # utf8_decode bs)
      else if 0xE0 \<le> a \<and> a \<le> 0xEF then
        (if bs \<noteq> [] \<and> second_ok a (hd bs)
         then (if drop 1 bs \<noteq> [] \<and> cont_ok (bs ! 1)
               then ((a - 0xE0) * 4096 + (hd bs - 0x80) * 64 + (bs ! 1 - 0x80)) # utf8_decode (drop 2 bs)
               else replacement # utf8_decode (drop 1 bs))
         else replacement # utf8_decode bs)
      else if 0xF0 \<le> a \<and> a \<le> 0xF4 then
        (if bs \<noteq> [] \<and> second_ok a (hd bs)
         then (if drop 1 bs \<noteq> [] \<and> cont_ok (bs ! 1)
               then (if drop 2 bs \<noteq> [] \<and> cont_ok (bs ! 2)
                     then ((a - 0xF0) * 262144 + (hd bs - 0x80) * 4096 + (bs ! 1 - 0x80) * 64
                            + (bs ! 2 - 0x80)) # utf8_decode (drop 3 bs)
                     else replacement # utf8_decode (drop 2 bs))
               else replacement # utf8_decode (drop 1 bs))
         else replacement # utf8_decode bs)
      else replacement # utf8_decode bs)"
  by pat_completeness auto
termination
  by (relation "measure length") auto

declare utf8_decode.simps(2) [simp del]

lemma decode_ascii: "a < 128 \<Longrightarrow> utf8_decode (a # bs) = a # utf8_decode bs"
  by (subst utf8_decode.simps) simp

text \<open>A code point is put together again from its six-bit groups.\<close>

lemma groups_2: "(c::nat) div 64 * 64 + c mod 64 = c"
  by (rule div_mult_mod_eq)

lemma groups_3: "(c::nat) div 4096 * 4096 + c div 64 mod 64 * 64 + c mod 64 = c"
proof -
  have "c div 4096 = c div 64 div 64" by (simp add: div_mult2_eq [symmetric])
  then have "c div 4096 * 64 + c div 64 mod 64 = c div 64" by simp
  then show ?thesis using groups_2 [of c] by linarith
qed

lemma groups_4:
  "(c::nat) div 262144 * 262144 + c div 4096 mod 64 * 4096 + c div 64 mod 64 * 64 + c mod 64 = c"
proof -
  have "c div 262144 = c div 4096 div 64" by (simp add: div_mult2_eq [symmetric])
  then have "c div 262144 * 64 + c div 4096 mod 64 = c div 4096" by simp
  then show ?thesis using groups_3 [of c] by linarith
qed

lemma decode_char:
  assumes "c < 0x110000" and "\<not> is_surrogate c"
  shows "utf8_decode (utf8_char c @ bs) = c # utf8_decode bs"
proof -
  consider "c < 0x80" | "0x80 \<le> c" "c < 0x800" | "0x800 \<le> c" "c < 0x10000"
    | "0x10000 \<le> c" "c < 0x110000" using assms(1) by linarith
  then show ?thesis
  proof cases
    case 1
    then show ?thesis by (simp add: utf8_char_def decode_ascii)
  next
    case 2
    define x y where "x = c div 64" and "y = c mod 64"
    have xy: "2 \<le> x" "x < 32" "y < 64" "c = x * 64 + y"
      using 2 groups_2 [of c] by (simp_all add: x_def y_def div_less_iff_less_mult less_eq_div_iff_mult_less_eq)
    have "utf8_char c = [0xC0 + x, 0x80 + y]"
      using 2 by (simp add: utf8_char_def x_def y_def)
    then show ?thesis
      using xy by (simp add: cont_ok_def utf8_decode.simps(2))
  next
    case 3
    define x y z where "x = c div 4096" and "y = c div 64 mod 64" and "z = c mod 64"
    have xyz: "c = x * 4096 + y * 64 + z" "x < 16" "y < 64" "z < 64"
      using 3 groups_3 [of c] by (simp_all add: x_def y_def z_def div_less_iff_less_mult)
    have "second_ok (0xE0 + x) (0x80 + y)"
      using 3 assms(2) xyz unfolding second_ok_def is_surrogate_def by auto
    moreover have "utf8_char c = [0xE0 + x, 0x80 + y, 0x80 + z]"
      using 3 by (simp add: utf8_char_def x_def y_def z_def)
    ultimately show ?thesis
      using xyz by (simp add: cont_ok_def utf8_decode.simps(2))
  next
    case 4
    define w x y z where "w = c div 262144" and "x = c div 4096 mod 64"
      and "y = c div 64 mod 64" and "z = c mod 64"
    have wxyz: "c = w * 262144 + x * 4096 + y * 64 + z" "w < 5" "x < 64" "y < 64" "z < 64"
      using 4 groups_4 [of c] by (simp_all add: w_def x_def y_def z_def div_less_iff_less_mult)
    have "second_ok (0xF0 + w) (0x80 + x)"
      using 4 wxyz unfolding second_ok_def by auto
    moreover have "utf8_char c = [0xF0 + w, 0x80 + x, 0x80 + y, 0x80 + z]"
      using 4 by (simp add: utf8_char_def w_def x_def y_def z_def)
    ultimately show ?thesis
      using wxyz by (simp add: cont_ok_def utf8_decode.simps(2))
  qed
qed

text \<open>A text that can be encoded at all is read back exactly.\<close>

lemma decode_encode:
  assumes "\<forall>c \<in> set s. c < 0x110000" and "utf8_encode s = Inr bs"
  shows "utf8_decode bs = s"
proof -
  have "utf8_decode (concat (map utf8_char s)) = s"
    if "\<forall>c \<in> set s. c < 0x110000 \<and> \<not> is_surrogate c" for s
    using that by (induction s) (simp_all add: decode_char)
  then show ?thesis
    using assms by (auto simp: utf8_encode_def list_ex_iff split: if_splits)
qed

end
