(* ===== verification/Diff_Render.thy ===== *)
theory Diff_Render
  imports Diff_Parser Codec Py_Utf8
begin

text \<open>
  The text of \<open>git diff\<close>, as git documents it (\<open>git help diff\<close>, "generating patch text with -p") and
  its \<open>diff.c\<close> prints it, for what git knows of two trees; and the round trip: the parser reads from the
  printed text exactly what git knew.  The printer is a specification of the parser; it models no
  code of the repository.
\<close>

section \<open>What git knows\<close>

text \<open>\<open>core.quotePath\<close> and \<open>diff.suppressBlankEmpty\<close>.\<close>

record git_config =
  gc_quote_path :: bool
  gc_suppress_blank_empty :: bool

datatype file_mode = Regular | Executable | Symbolic_Link | Submodule

record git_side =
  gs_path :: pystr
  gs_mode :: file_mode
  gs_blob :: pystr

text \<open>The lines of a hunk; the last line of a file may lack its newline.\<close>

record git_line =
  gl_type :: change_type
  gl_text :: pystr
  gl_incomplete :: bool

text \<open>A hunk comes after so many lines of the old and of the new file.\<close>

record git_hunk =
  gk_old_before :: nat
  gk_new_before :: nat
  gk_function :: pystr
  gk_lines :: "git_line list"

datatype git_content = Binary_Change | Text_Change "git_hunk list"

text \<open>A created file has no old side, a deleted one no new side; a renamed one has two paths.\<close>

record git_file =
  gf_old :: "git_side option"
  gf_new :: "git_side option"
  gf_similarity :: nat
  gf_content :: git_content

section \<open>How git prints it\<close>

text \<open>A name with a control character, a quote, a backslash or, by default, a character outside ASCII.\<close>

definition needs_quotes :: "git_config \<Rightarrow> pychar \<Rightarrow> bool" where
  "needs_quotes cfg c \<longleftrightarrow> c < 32 \<or> c = 34 \<or> c = 92 \<or> c = 127 \<or> gc_quote_path cfg \<and> 128 \<le> c"

definition octal_byte :: "nat \<Rightarrow> pystr" where
  "octal_byte b = [92, 48 + b div 64, 48 + b div 8 mod 8, 48 + b mod 8]"

definition quote_char :: "git_config \<Rightarrow> pychar \<Rightarrow> pystr" where
  "quote_char cfg c =
     (if \<not> needs_quotes cfg c then [c]
      else if c \<in> {34, 92} then [92, c]
      else if 7 \<le> c \<and> c \<le> 13 then [92, u ''abtnvfr'' ! (c - 7)]
      else concat (map octal_byte (utf8_char c)))"

definition quote_name :: "git_config \<Rightarrow> pystr \<Rightarrow> pystr" where
  "quote_name cfg s =
     (if list_ex (needs_quotes cfg) s then 34 # concat (map (quote_char cfg) s) @ [34] else s)"

fun mode_text :: "file_mode \<Rightarrow> pystr" where
  "mode_text Regular = u ''100644''"
| "mode_text Executable = u ''100755''"
| "mode_text Symbolic_Link = u ''120000''"
| "mode_text Submodule = u ''160000''"

text \<open>The names on both sides; a side that does not exist is called like the other one, or \<open>/dev/null\<close>.\<close>

definition old_name :: "git_file \<Rightarrow> pystr" where
  "old_name f = (case gf_old f of Some s \<Rightarrow> gs_path s | None \<Rightarrow> gs_path (the (gf_new f)))"

definition new_name :: "git_file \<Rightarrow> pystr" where
  "new_name f = (case gf_new f of Some s \<Rightarrow> gs_path s | None \<Rightarrow> gs_path (the (gf_old f)))"

definition side_label :: "git_config \<Rightarrow> pystr \<Rightarrow> git_side option \<Rightarrow> pystr" where
  "side_label cfg side s = (case s of None \<Rightarrow> u ''/dev/null'' | Some s \<Rightarrow> quote_name cfg (side @ gs_path s))"

definition renamed :: "git_file \<Rightarrow> bool" where
  "renamed f \<longleftrightarrow> gf_old f \<noteq> None \<and> gf_new f \<noteq> None \<and> old_name f \<noteq> new_name f"

definition mode_lines :: "git_file \<Rightarrow> pystr list" where
  "mode_lines f =
     (case (gf_old f, gf_new f) of
        (None, Some s) \<Rightarrow> [u ''new file mode '' @ mode_text (gs_mode s)]
      | (Some s, None) \<Rightarrow> [u ''deleted file mode '' @ mode_text (gs_mode s)]
      | (Some s, Some t) \<Rightarrow> if gs_mode s = gs_mode t then []
          else [u ''old mode '' @ mode_text (gs_mode s), u ''new mode '' @ mode_text (gs_mode t)]
      | (None, None) \<Rightarrow> [])"

definition rename_lines :: "git_config \<Rightarrow> git_file \<Rightarrow> pystr list" where
  "rename_lines cfg f =
     (if renamed f then [u ''similarity index '' @ nat_str (gf_similarity f) @ u ''%'',
        u ''rename from '' @ quote_name cfg (old_name f), u ''rename to '' @ quote_name cfg (new_name f)]
      else [])"

definition index_line :: "git_side \<Rightarrow> git_side \<Rightarrow> pystr" where
  "index_line s t = u ''index '' @ gs_blob s @ u ''..'' @ gs_blob t"

text \<open>The blob of a side that does not exist is \<open>0000000\<close>; the mode is added when it stays the same.\<close>

definition no_blob :: "pystr" where
  "no_blob = u ''0000000''"

definition index_lines :: "git_file \<Rightarrow> pystr list" where
  "index_lines f =
     (case (gf_old f, gf_new f) of
        (Some s, Some t) \<Rightarrow> if gs_blob s = gs_blob t then []
          else if gs_mode s = gs_mode t then [index_line s t @ u '' '' @ mode_text (gs_mode s)]
          else [index_line s t]
      | (None, Some t) \<Rightarrow> [u ''index '' @ no_blob @ u ''..'' @ gs_blob t]
      | (Some s, None) \<Rightarrow> [u ''index '' @ gs_blob s @ u ''..'' @ no_blob]
      | (None, None) \<Rightarrow> [])"

text \<open>A label with a space is followed by a tab.\<close>

definition label_line :: "pystr \<Rightarrow> pystr \<Rightarrow> pystr" where
  "label_line mark label = mark @ label @ (if 32 \<in> set label then [9] else [])"

definition old_lines :: "git_line list \<Rightarrow> git_line list" where
  "old_lines ls = filter (\<lambda>l. gl_type l \<noteq> ADD) ls"

definition new_lines :: "git_line list \<Rightarrow> git_line list" where
  "new_lines ls = filter (\<lambda>l. gl_type l \<noteq> DELETE) ls"

text \<open>\<open>start,count\<close>: no count when it is 1, and the line before the hunk when it is 0.\<close>

definition first_line :: "nat \<Rightarrow> nat \<Rightarrow> nat" where
  "first_line before n = (if n = 0 then before else before + 1)"

definition range_of :: "nat \<Rightarrow> nat \<Rightarrow> range_groups" where
  "range_of before n = (nat_str (first_line before n), if n = 1 then None else Some (nat_str n))"

definition no_newline_marker :: pystr where
  "no_newline_marker = 92 # u '' No newline at end of file''"

definition print_line :: "git_config \<Rightarrow> git_line \<Rightarrow> pystr list" where
  "print_line cfg l =
     (case gl_type l of
        ADD \<Rightarrow> u ''+'' @ gl_text l
      | DELETE \<Rightarrow> u ''-'' @ gl_text l
      | CONTEXT \<Rightarrow> if gl_text l = [] \<and> gc_suppress_blank_empty cfg then [] else u '' '' @ gl_text l)
     # (if gl_incomplete l then [no_newline_marker] else [])"

definition print_hunk :: "git_config \<Rightarrow> git_hunk \<Rightarrow> pystr list" where
  "print_hunk cfg h =
     header_text (range_of (gk_old_before h) (length (old_lines (gk_lines h))))
       (range_of (gk_new_before h) (length (new_lines (gk_lines h))))
       (if gk_function h = [] then [] else u '' '' @ gk_function h)
     # concat (map (print_line cfg) (gk_lines h))"

definition content_lines :: "git_config \<Rightarrow> git_file \<Rightarrow> pystr list" where
  "content_lines cfg f =
     (case gf_content f of
        Binary_Change \<Rightarrow> [u ''Binary files '' @ side_label cfg (u ''a/'') (gf_old f) @ u '' and ''
          @ side_label cfg (u ''b/'') (gf_new f) @ u '' differ'']
      | Text_Change hs \<Rightarrow> if hs = [] then []
          else [label_line (u ''--- '') (side_label cfg (u ''a/'') (gf_old f)),
                label_line (u ''+++ '') (side_label cfg (u ''b/'') (gf_new f))]
               @ concat (map (print_hunk cfg) hs))"

definition print_file :: "git_config \<Rightarrow> git_file \<Rightarrow> pystr list" where
  "print_file cfg f =
     [u ''diff --git '' @ quote_name cfg (u ''a/'' @ old_name f) @ u '' '' @ quote_name cfg (u ''b/'' @ new_name f)]
     @ mode_lines f @ rename_lines cfg f @ index_lines f @ content_lines cfg f"

definition print_diff :: "git_config \<Rightarrow> git_file list \<Rightarrow> pystr" where
  "print_diff cfg fs = unlines (concat (map (print_file cfg) fs))"

section \<open>What is to be seen of it\<close>

text \<open>The number of a line in a file: the lines before the hunk, and those of the file before it in the hunk.\<close>

definition line_of :: "git_line list \<Rightarrow> nat \<Rightarrow> nat \<Rightarrow> nat \<Rightarrow> hunk_line" where
  "line_of ls old_before new_before k =
     \<lparr>hl_change_type = gl_type (ls ! k), hl_content = gl_text (ls ! k),
      hl_old_lineno = (if gl_type (ls ! k) = ADD then None
        else Some (int (old_before + length (old_lines (take k ls)) + 1))),
      hl_new_lineno = (if gl_type (ls ! k) = DELETE then None
        else Some (int (new_before + length (new_lines (take k ls)) + 1)))\<rparr>"

definition hunk_of :: "git_hunk \<Rightarrow> hunk" where
  "hunk_of h =
     (let n = length (old_lines (gk_lines h)); m = length (new_lines (gk_lines h))
      in \<lparr>old_start = int (first_line (gk_old_before h) n), old_count = int n,
          new_start = int (first_line (gk_new_before h) m), new_count = int m,
          hunk_lines = map (line_of (gk_lines h) (gk_old_before h) (gk_new_before h)) [0..<length (gk_lines h)],
          section_header = strip (gk_function h), enclosing_scope = None\<rparr>)"

definition patch_of :: "git_file \<Rightarrow> patch_file" where
  "patch_of f = \<lparr>old_path = map_option gs_path (gf_old f), new_path = map_option gs_path (gf_new f),
     hunks = (case gf_content f of Binary_Change \<Rightarrow> [] | Text_Change hs \<Rightarrow> map hunk_of hs),
     is_binary = (gf_content f = Binary_Change)\<rparr>"

section \<open>Which diffs are read well\<close>

text \<open>
  Text without the characters at which \<open>str.splitlines\<close> breaks a line; line numbers as git's C code has
  them, below \<open>2 ^ 63\<close>; names that git need not quote.  The parser learns the paths of a file with
  hunks from the lines that git ends with a tab when there is a space, so a file that is not renamed
  must not have one; and it learns those of a file without hunks from the \<open>diff --git\<close> line, so
  such a file must be there on both sides and, unless it is renamed, must not contain the separator.
\<close>

definition readable_hunk :: "git_hunk \<Rightarrow> bool" where
  "readable_hunk h \<longleftrightarrow>
     gk_old_before h + length (gk_lines h) < 2 ^ 63 \<and> gk_new_before h + length (gk_lines h) < 2 ^ 63
     \<and> no_linebreak (gk_function h) \<and> list_all (\<lambda>l. no_linebreak (gl_text l)) (gk_lines h)"

definition readable_side :: "git_config \<Rightarrow> git_side \<Rightarrow> bool" where
  "readable_side cfg s \<longleftrightarrow> \<not> list_ex (needs_quotes cfg) (gs_path s) \<and> no_linebreak (gs_path s)
     \<and> set (gs_blob s) \<subseteq> set (u ''0123456789abcdef'')"

definition plain_path :: "pystr \<Rightarrow> bool" where
  "plain_path s \<longleftrightarrow> s \<noteq> [] \<and> (\<forall>i < length s. \<not> starts_with (drop i s) (u '' b/''))"

definition readable_file :: "git_config \<Rightarrow> git_file \<Rightarrow> bool" where
  "readable_file cfg f \<longleftrightarrow>
     pred_option (readable_side cfg) (gf_old f) \<and> pred_option (readable_side cfg) (gf_new f)
     \<and> (case gf_content f of
          Text_Change (h # hs) \<Rightarrow> list_all readable_hunk (h # hs) \<and> (gf_old f \<noteq> None \<or> gf_new f \<noteq> None)
            \<and> (renamed f \<or> 32 \<notin> set (old_name f) \<and> 32 \<notin> set (new_name f))
        | _ \<Rightarrow> gf_old f \<noteq> None \<and> gf_new f \<noteq> None \<and> (renamed f \<or> plain_path (old_name f)))"

section \<open>Hunks\<close>

lemma not_header: "c \<noteq> 64 \<Longrightarrow> match_hunk_header (c # s) = None" "match_hunk_header [] = None"
  by (simp_all add: match_hunk_header_def match_lit_def starts_with_def)

definition ends_hunk :: "pystr list \<Rightarrow> bool" where
  "ends_hunk rest \<longleftrightarrow> (case rest of [] \<Rightarrow> True | l # _ \<Rightarrow> match_hunk_header l \<noteq> None)"

text \<open>The same numbering from the numbers the parser starts with.\<close>

definition line_at :: "git_line list \<Rightarrow> int \<Rightarrow> int \<Rightarrow> nat \<Rightarrow> hunk_line" where
  "line_at ls ol nl k =
     \<lparr>hl_change_type = gl_type (ls ! k), hl_content = gl_text (ls ! k),
      hl_old_lineno = (if gl_type (ls ! k) = ADD then None else Some (ol + int (length (old_lines (take k ls))))),
      hl_new_lineno = (if gl_type (ls ! k) = DELETE then None else Some (nl + int (length (new_lines (take k ls)))))\<rparr>"

lemma line_at_Suc:
  "line_at (l # ls) ol nl (Suc k)
     = line_at ls (ol + (if gl_type l = ADD then 0 else 1)) (nl + (if gl_type l = DELETE then 0 else 1)) k"
  by (simp add: line_at_def old_lines_def new_lines_def)

lemma hunk_body_marker: "hunk_body ((if b then [no_newline_marker] else []) @ r) ol nl = hunk_body r ol nl"
  by (simp add: no_newline_marker_def not_header)

lemma hunk_body_text:
  "hunk_body ((case gl_type l of
        ADD \<Rightarrow> u ''+'' @ gl_text l
      | DELETE \<Rightarrow> u ''-'' @ gl_text l
      | CONTEXT \<Rightarrow> if gl_text l = [] \<and> b then [] else u '' '' @ gl_text l) # r) ol nl
     = map_prod (Cons (line_at [l] ol nl 0)) id
         (hunk_body r (ol + (if gl_type l = ADD then 0 else 1)) (nl + (if gl_type l = DELETE then 0 else 1)))"
  by (cases "gl_type l") (simp_all add: not_header line_at_def old_lines_def new_lines_def)

lemma hunk_body_line:
  "hunk_body (print_line cfg l @ r) ol nl
     = map_prod (Cons (line_at [l] ol nl 0)) id
         (hunk_body r (ol + (if gl_type l = ADD then 0 else 1)) (nl + (if gl_type l = DELETE then 0 else 1)))"
  unfolding print_line_def append_Cons hunk_body_text hunk_body_marker ..

lemma hunk_body_print:
  "ends_hunk rest \<Longrightarrow>
     hunk_body (concat (map (print_line cfg) ls) @ rest) ol nl = (map (line_at ls ol nl) [0..<length ls], rest)"
proof (induction ls arbitrary: ol nl)
  case Nil
  then show ?case by (cases rest) (auto simp: ends_hunk_def)
next
  case (Cons l ls)
  have "line_at (l # ls) ol nl 0 = line_at [l] ol nl 0" by (simp add: line_at_def)
  with Cons show ?case
    by (simp add: hunk_body_line line_at_Suc upt_0_Suc comp_def del: upt_Suc)
qed

lemma line_at_line_of:
  assumes "k < length ls"
  shows "line_at ls (int (first_line a (length (old_lines ls)))) (int (first_line b (length (new_lines ls)))) k
    = line_of ls a b k"
proof -
  have "old_lines ls \<noteq> []" if "gl_type (ls ! k) \<noteq> ADD"
    using assms that by (auto simp: old_lines_def filter_empty_conv intro!: bexI [of _ "ls ! k"])
  moreover have "new_lines ls \<noteq> []" if "gl_type (ls ! k) \<noteq> DELETE"
    using assms that by (auto simp: new_lines_def filter_empty_conv intro!: bexI [of _ "ls ! k"])
  ultimately show ?thesis by (simp add: line_at_def line_of_def first_line_def)
qed

lemma range_ok_range_of: "range_ok (range_of a n)"
  using nat_str_digits by (simp add: range_ok_def range_of_def list_all_iff)

lemma readable_63:
  assumes "n < 2 ^ 63"
  shows "readable_int (int n)"
proof -
  have "(2 :: nat) ^ 63 < 10 ^ 19" by simp
  with assms have "n < 10 ^ 19" by linarith
  then show ?thesis using length_nat_str [of n 19] by (simp add: readable_int_def int_max_str_digits_def)
qed

lemma header_numbers_range_of:
  assumes "a + n < 2 ^ 63"
  shows "header_numbers (range_of a n) = Inr (int (first_line a n), int n)"
proof -
  have "readable_int (int (first_line a n))" "readable_int (int n)"
    using assms by (auto simp only: first_line_def intro!: readable_63 split: if_split)
  then show ?thesis
    using int_of_digits_nat_str [of "int (first_line a n)"] int_of_digits_nat_str [of "int n"]
    by (simp add: header_numbers_def range_of_def group_count_def)
qed

lemma no_newline: "no_linebreak s \<Longrightarrow> 10 \<notin> set s"
  using linebreak_newline by (auto simp: no_linebreak_def)

lemma match_printed_header:
  "no_linebreak sec \<Longrightarrow>
   match_hunk_header (header_text (range_of a b) (range_of c d) sec) = Some (range_of a b, range_of c d, sec)"
  by (subst match_hunk_header_iff) (simp add: range_ok_range_of no_newline)

lemma strip_after_space: "strip (32 # s) = strip s"
  by (simp add: strip_def lstrip_def py_isspace_def)

lemma read_printed_hunk:
  assumes "readable_hunk h" and "ends_hunk rest"
  shows "\<exists>hd m. print_hunk cfg h = hd # concat (map (print_line cfg) (gk_lines h))
     \<and> match_hunk_header hd = Some m
     \<and> read_hunk m (concat (map (print_line cfg) (gk_lines h)) @ rest) = Inr (hunk_of h, rest)"
proof -
  let ?ls = "gk_lines h"
  let ?n = "length (old_lines ?ls)" and ?m = "length (new_lines ?ls)"
  let ?a = "range_of (gk_old_before h) ?n" and ?b = "range_of (gk_new_before h) ?m"
    and ?sec = "if gk_function h = [] then [] else u '' '' @ gk_function h"
  have "?n \<le> length ?ls" "?m \<le> length ?ls" by (simp_all add: old_lines_def new_lines_def)
  then have numbers: "header_numbers ?a = Inr (int (first_line (gk_old_before h) ?n), int ?n)"
    "header_numbers ?b = Inr (int (first_line (gk_new_before h) ?m), int ?m)"
    using assms(1) by (auto simp: readable_hunk_def intro!: header_numbers_range_of)
  have "strip ?sec = strip (gk_function h)" by (simp add: strip_after_space)
  moreover have "no_linebreak ?sec" using assms(1) by (simp add: readable_hunk_def py_linebreak_def)
  moreover have "hunk_body (concat (map (print_line cfg) ?ls) @ rest)
      (int (first_line (gk_old_before h) ?n)) (int (first_line (gk_new_before h) ?m))
      = (map (line_of ?ls (gk_old_before h) (gk_new_before h)) [0..<length ?ls], rest)"
    using hunk_body_print [OF assms(2)] line_at_line_of by simp
  ultimately have "read_hunk (?a, ?b, ?sec) (concat (map (print_line cfg) ?ls) @ rest) = Inr (hunk_of h, rest)"
    and "match_hunk_header (header_text ?a ?b ?sec) = Some (?a, ?b, ?sec)"
    by (auto simp: read_hunk_def numbers hunk_of_def Let_def match_printed_header simp del: u_Cons)
  then show ?thesis unfolding print_hunk_def by blast
qed

lemma parse_printed_hunks:
  "list_all readable_hunk hs \<Longrightarrow> parse_hunks (concat (map (print_hunk cfg) hs)) = Inr (map hunk_of hs)
     \<and> ends_hunk (concat (map (print_hunk cfg) hs))"
proof (induction hs)
  case (Cons h hs)
  let ?rest = "concat (map (print_hunk cfg) hs)"
  from Cons have rec: "parse_hunks ?rest = Inr (map hunk_of hs)" and "ends_hunk ?rest" "readable_hunk h"
    by auto
  with read_printed_hunk obtain hd m where
    "print_hunk cfg h = hd # concat (map (print_line cfg) (gk_lines h))" "match_hunk_header hd = Some m"
    "read_hunk m (concat (map (print_line cfg) (gk_lines h)) @ ?rest) = Inr (hunk_of h, ?rest)" by blast
  with rec show ?case by (simp add: ends_hunk_def)
qed (simp add: ends_hunk_def)

section \<open>Files\<close>

lemma print_line_inside: "l \<in> set (print_line cfg g) \<Longrightarrow> \<not> is_file_start l"
  by (cases "gl_type g") (auto simp: print_line_def no_newline_marker_def is_file_start_def starts_with_iff split: if_split_asm)

lemma header_inside: "\<not> is_file_start (header_text r s x)"
  by (simp add: header_text_def is_file_start_def)

lemma print_hunk_inside: "l \<in> set (print_hunk cfg h) \<Longrightarrow> \<not> is_file_start l"
proof -
  assume "l \<in> set (print_hunk cfg h)"
  then show ?thesis using print_line_inside [of l cfg] by (auto simp: print_hunk_def header_inside)
qed

text \<open>The lines before the content that say nothing to the parser.\<close>

definition silent :: "pystr \<Rightarrow> bool" where
  "silent l \<longleftrightarrow> \<not> starts_with l (u ''diff --git '') \<and> \<not> starts_with l (u ''--- '') \<and> \<not> starts_with l (u ''+++ '')
     \<and> \<not> starts_with l (u ''Binary files'') \<and> \<not> starts_with l (u ''rename from '') \<and> \<not> starts_with l (u ''rename to '')"

lemma scan_silent_line: "silent l \<Longrightarrow> scan_header (l # rest) i st = scan_header rest (i + 1) st"
  by (simp add: silent_def del: u_Cons)

lemma scan_silent: "list_all silent ls \<Longrightarrow> scan_header (ls @ rest) i st = scan_header rest (i + length ls) st"
  by (induction ls arbitrary: i) (simp_all add: scan_silent_line del: scan_header.simps(2))

lemma mode_lines_silent: "list_all silent (mode_lines f)" "list_all silent (index_lines f)"
  by (auto simp: mode_lines_def index_lines_def index_line_def silent_def split: option.split)

lemma rename_lines_inside: "\<forall>l \<in> set (rename_lines cfg f). \<not> is_file_start l"
  by (auto simp: rename_lines_def is_file_start_def)

lemma content_lines_inside: "\<forall>l \<in> set (content_lines cfg f). \<not> is_file_start l"
  using print_hunk_inside [of _ cfg]
  by (auto simp: content_lines_def label_line_def is_file_start_def split: git_content.split)

lemma printed_block_head:
  "\<exists>hd tl. print_file cfg f = hd # tl \<and> is_file_start hd \<and> (\<forall>l \<in> set tl. \<not> is_file_start l)"
proof -
  have "\<forall>l \<in> set (mode_lines f @ index_lines f). \<not> is_file_start l"
    using mode_lines_silent [of f] by (auto simp: list_all_iff silent_def is_file_start_def simp del: u_Cons)
  then have "\<forall>l \<in> set (mode_lines f @ rename_lines cfg f @ index_lines f @ content_lines cfg f). \<not> is_file_start l"
    using rename_lines_inside [of cfg f] content_lines_inside [of cfg f] by auto
  moreover have "is_file_start (u ''diff --git '' @ s)" for s by (simp add: is_file_start_def)
  ultimately show ?thesis unfolding print_file_def append_Cons append_Nil by blast
qed

lemma blocks_of_printed: "blocks_of (concat (map (print_file cfg) fs)) = map (print_file cfg) fs"
proof (induction fs)
  case (Cons f fs)
  obtain h t where ht: "print_file cfg f = h # t" "is_file_start h" "\<forall>l \<in> set t. \<not> is_file_start l"
    using printed_block_head by blast
  have stop: "takeWhile (\<lambda>m. \<not> is_file_start m) (concat (map (print_file cfg) fs)) = []"
  proof (cases fs)
    case (Cons g gs)
    then show ?thesis using printed_block_head [of cfg g] by auto
  qed simp
  have skip: "blocks_of (t @ r) = blocks_of r" for r
    using ht(3) by (induction t) auto
  have "takeWhile (\<lambda>m. \<not> is_file_start m) (t @ concat (map (print_file cfg) fs)) = t"
    using ht(3) stop by simp
  then show ?case
    using Cons ht by (simp add: skip)
qed simp

lemma match_plain_git_header:
  assumes "plain_path s" "no_linebreak s"
  shows "match_git_header (u ''diff --git a/'' @ s @ u '' b/'' @ s) = Some (s, s)"
proof -
  let ?t = "s @ u '' b/'' @ s"
  have at: "git_split_at ?t (length s) = Some (s, s)"
    using assms no_newline [OF assms(2)] match_to_eol_Some [of s s]
    by (simp add: git_split_at_def plain_path_def match_lit_def)
  have "git_split_at ?t i = None" if "length s < i" "i < length ?t" for i
  proof -
    define j where "j = i - length s"
    have drop: "drop i ?t = drop j (32 # 98 # 47 # s)" and j: "0 < j" "j < length s + 3"
      using that by (simp_all add: j_def drop_append)
    have "\<not> starts_with (drop j (32 # 98 # 47 # s)) (u '' b/'')"
    proof (cases "j < 3")
      case True
      then have "j = 1 \<or> j = 2" using j by linarith
      then show ?thesis by (auto simp: numeral_2_eq_2)
    next
      case False
      then have "drop j (32 # 98 # 47 # s) = drop (j - 3) s"
        by (simp add: numeral_3_eq_3 drop_Cons')
      moreover have "j - 3 < length s" using False j by simp
      ultimately show ?thesis using assms(1) by (simp add: plain_path_def)
    qed
    then have "match_lit (u '' b/'') (drop i ?t) = None"
      unfolding drop by (simp add: match_lit_def)
    then show ?thesis by (simp add: git_split_at_def Let_def)
  qed
  then have "find (\<lambda>i. git_split_at ?t i \<noteq> None) (rev [0..<length ?t]) = Some (length s)"
    using at by (intro find_rev_last) simp_all
  with at show ?thesis
    by (simp add: match_git_header_def match_lit_def)
qed

lemma scan_rename_lines:
  assumes "\<not> list_ex (needs_quotes cfg) (old_name f)" "\<not> list_ex (needs_quotes cfg) (new_name f)"
  shows "scan_header (rename_lines cfg f @ rest) i st = scan_header rest (i + length (rename_lines cfg f))
      (if renamed f then st\<lparr>hs_rename_from := Some (old_name f), hs_rename_to := Some (new_name f)\<rparr> else st)"
  using assms by (simp add: rename_lines_def quote_name_def)

lemma scan_git_header:
  "\<exists>op np. scan_header ((u ''diff --git a/'' @ s) # rest) i st
       = scan_header rest (i + 1) (st\<lparr>hs_old_path := op, hs_new_path := np\<rparr>)
     \<and> (\<forall>a b. match_git_header (u ''diff --git a/'' @ s) = Some (a, b) \<longrightarrow> op = Some a \<and> np = Some b)"
proof (cases "match_git_header (u ''diff --git a/'' @ s)")
  case None
  then have "scan_header ((u ''diff --git a/'' @ s) # rest) i st
       = scan_header rest (i + 1) (st\<lparr>hs_old_path := hs_old_path st, hs_new_path := hs_new_path st\<rparr>)" by simp
  with None show ?thesis by (simp only: option.distinct) blast
next
  case (Some ab)
  then have "scan_header ((u ''diff --git a/'' @ s) # rest) i st
       = scan_header rest (i + 1) (st\<lparr>hs_old_path := Some (fst ab), hs_new_path := Some (snd ab)\<rparr>)"
    by (cases ab) simp
  with Some show ?thesis by (metis fst_conv option.inject snd_conv)
qed

lemma readable_names:
  assumes "readable_file cfg f"
  shows "\<not> list_ex (needs_quotes cfg) (old_name f)" "\<not> list_ex (needs_quotes cfg) (new_name f)"
    "no_linebreak (old_name f)" "no_linebreak (new_name f)"
  using assms
  by (auto simp: readable_file_def readable_side_def old_name_def new_name_def
      split: option.splits git_content.splits list.splits)

lemma quote_side [simp]:
  "\<not> list_ex (needs_quotes cfg) s \<Longrightarrow> quote_name cfg (97 # 47 # s) = 97 # 47 # s"
  "\<not> list_ex (needs_quotes cfg) s \<Longrightarrow> quote_name cfg (98 # 47 # s) = 98 # 47 # s"
  by (simp_all add: quote_name_def needs_quotes_def)

definition before_content :: "git_config \<Rightarrow> git_file \<Rightarrow> pystr list" where
  "before_content cfg f = [u ''diff --git a/'' @ old_name f @ u '' b/'' @ new_name f]
     @ mode_lines f @ rename_lines cfg f @ index_lines f"

lemma print_file_split: "readable_file cfg f \<Longrightarrow> print_file cfg f = before_content cfg f @ content_lines cfg f"
  using readable_names [of cfg f] by (simp add: print_file_def before_content_def)

lemma scan_before_content:
  assumes "readable_file cfg f"
  obtains op np where
    "scan_header (before_content cfg f @ rest) 0 st = scan_header rest (length (before_content cfg f))
       ((if renamed f then st\<lparr>hs_rename_from := Some (old_name f), hs_rename_to := Some (new_name f)\<rparr> else st)
          \<lparr>hs_old_path := op, hs_new_path := np\<rparr>)"
    "\<And>s. old_name f = s \<Longrightarrow> new_name f = s \<Longrightarrow> plain_path s \<Longrightarrow> op = Some s \<and> np = Some s"
proof -
  let ?r = "mode_lines f @ rename_lines cfg f @ index_lines f @ rest"
  obtain op np where head:
    "scan_header ((u ''diff --git a/'' @ (old_name f @ u '' b/'' @ new_name f)) # ?r) 0 st
       = scan_header ?r (0 + 1) (st\<lparr>hs_old_path := op, hs_new_path := np\<rparr>)"
    "\<forall>a b. match_git_header (u ''diff --git a/'' @ (old_name f @ u '' b/'' @ new_name f)) = Some (a, b)
       \<longrightarrow> op = Some a \<and> np = Some b"
    using scan_git_header [of "old_name f @ u '' b/'' @ new_name f" ?r 0 st] by (elim exE conjE) (rule that)
  have "before_content cfg f @ rest = (u ''diff --git a/'' @ (old_name f @ u '' b/'' @ new_name f)) # ?r"
    by (simp add: before_content_def del: u_Cons)
  then have "scan_header (before_content cfg f @ rest) 0 st
      = scan_header ?r 1 (st\<lparr>hs_old_path := op, hs_new_path := np\<rparr>)"
    using head(1) by (simp only: add_0)
  also have "\<dots> = scan_header rest (length (before_content cfg f))
       (if renamed f then st\<lparr>hs_old_path := op, hs_new_path := np, hs_rename_from := Some (old_name f),
          hs_rename_to := Some (new_name f)\<rparr> else st\<lparr>hs_old_path := op, hs_new_path := np\<rparr>)"
    by (simp add: scan_silent [OF mode_lines_silent(1)] scan_silent [OF mode_lines_silent(2)] before_content_def
        scan_rename_lines [OF readable_names(1,2) [OF assms]] add.assoc del: u_Cons)
  also have "\<dots> = scan_header rest (length (before_content cfg f))
       ((if renamed f then st\<lparr>hs_rename_from := Some (old_name f), hs_rename_to := Some (new_name f)\<rparr> else st)
          \<lparr>hs_old_path := op, hs_new_path := np\<rparr>)" by (cases st) simp
  finally have "scan_header (before_content cfg f @ rest) 0 st = scan_header rest (length (before_content cfg f))
       ((if renamed f then st\<lparr>hs_rename_from := Some (old_name f), hs_rename_to := Some (new_name f)\<rparr> else st)
          \<lparr>hs_old_path := op, hs_new_path := np\<rparr>)" .
  moreover have "op = Some s \<and> np = Some s" if "old_name f = s" "new_name f = s" "plain_path s" for s
    using head(2) match_plain_git_header [OF that(3)] readable_names(3) [OF assms] that by simp
  ultimately show ?thesis by (rule that)
qed

lemma side_label_plain:
  assumes "pred_option (readable_side cfg) s"
  shows "strip_path_prefix (side_label cfg (u ''a/'') s) = map_option gs_path s"
    and "strip_path_prefix (side_label cfg (u ''b/'') s) = map_option gs_path s"
  using assms by (cases s; simp add: side_label_def strip_path_prefix_def readable_side_def)+

lemma side_label_space:
  assumes "pred_option (readable_side cfg) s" "\<forall>t. s = Some t \<longrightarrow> 32 \<notin> set (gs_path t)"
  shows "32 \<notin> set (side_label cfg (u ''a/'') s)" "32 \<notin> set (side_label cfg (u ''b/'') s)"
  using assms by (cases s; auto simp: side_label_def readable_side_def)+

definition header_start :: "nat \<Rightarrow> header_state" where
  "header_start n = \<lparr>hs_old_path = None, hs_new_path = None, hs_is_binary = False,
      hs_rename_from = None, hs_rename_to = None, hs_hunk_start = n\<rparr>"

lemma parse_block_eq:
  "parse_block block =
     (let st = scan_header block 0 (header_start (length block)) in
      and_then (if hs_is_binary st then Inr [] else parse_hunks (drop (hs_hunk_start st) block))
        (\<lambda>hs. Inr \<lparr>old_path = (case hs_rename_from st of None \<Rightarrow> hs_old_path st | Some p \<Rightarrow> Some p),
           new_path = (case hs_rename_to st of None \<Rightarrow> hs_new_path st | Some p \<Rightarrow> Some p),
           hunks = hs, is_binary = hs_is_binary st\<rparr>))"
  by (simp add: parse_block_def header_start_def Let_def)

lemma scan_labels:
  "scan_header ((u ''--- '' @ x) # (u ''+++ '' @ y) # rest) i st
     = st\<lparr>hs_old_path := strip_path_prefix x, hs_new_path := strip_path_prefix y, hs_hunk_start := i + 2\<rparr>"
  by simp

lemma scan_binary: "scan_header ((u ''Binary files '' @ x) # rest) i st = st\<lparr>hs_is_binary := True\<rparr>"
  by simp

lemma renamed_paths:
  "renamed f \<Longrightarrow> map_option gs_path (gf_old f) = Some (old_name f) \<and> map_option gs_path (gf_new f) = Some (new_name f)"
  by (auto simp: renamed_def old_name_def new_name_def)

lemma parse_printed_without_hunks:
  assumes ok: "readable_file cfg f" and none: "gf_content f = Binary_Change \<or> gf_content f = Text_Change []"
  shows "parse_block (print_file cfg f) = Inr (patch_of f)"
proof -
  let ?n = "length (print_file cfg f)"
  from ok none obtain s t where st: "gf_old f = Some s" "gf_new f = Some t" "renamed f \<or> plain_path (old_name f)"
    by (auto simp: readable_file_def)
  obtain op np where scan:
    "scan_header (before_content cfg f @ content_lines cfg f) 0 (header_start ?n)
       = scan_header (content_lines cfg f) (length (before_content cfg f))
       ((if renamed f then (header_start ?n)\<lparr>hs_rename_from := Some (old_name f), hs_rename_to := Some (new_name f)\<rparr>
         else header_start ?n)\<lparr>hs_old_path := op, hs_new_path := np\<rparr>)"
    and same: "\<And>s. old_name f = s \<Longrightarrow> new_name f = s \<Longrightarrow> plain_path s \<Longrightarrow> op = Some s \<and> np = Some s"
    by (rule scan_before_content [OF ok]) (rule that)
  have plain: "op = map_option gs_path (gf_old f) \<and> np = map_option gs_path (gf_new f)" if "\<not> renamed f"
    using that st same [of "old_name f"] by (auto simp: renamed_def old_name_def new_name_def)
  have content: "content_lines cfg f = [] \<and> gf_content f = Text_Change []
      \<or> (\<exists>x. content_lines cfg f = [u ''Binary files '' @ x]) \<and> gf_content f = Binary_Change"
    using none by (auto simp: content_lines_def simp del: u_Cons)
  show ?thesis
    using content scan plain renamed_paths [of f]
    by (cases "renamed f")
      (auto simp: parse_block_eq print_file_split [OF ok] Let_def patch_of_def header_start_def scan_binary
        simp del: u_Cons scan_header.simps(2))
qed

lemma parse_printed_with_hunks:
  assumes ok: "readable_file cfg f" and hs: "gf_content f = Text_Change hs" "hs \<noteq> []"
  shows "parse_block (print_file cfg f) = Inr (patch_of f)"
proof -
  let ?n = "length (print_file cfg f)" and ?b = "concat (map (print_hunk cfg) hs)"
  let ?x = "side_label cfg (u ''a/'') (gf_old f)" and ?y = "side_label cfg (u ''b/'') (gf_new f)"
  obtain op np where scan:
    "scan_header (before_content cfg f @ content_lines cfg f) 0 (header_start ?n)
       = scan_header (content_lines cfg f) (length (before_content cfg f))
       ((if renamed f then (header_start ?n)\<lparr>hs_rename_from := Some (old_name f), hs_rename_to := Some (new_name f)\<rparr>
         else header_start ?n)\<lparr>hs_old_path := op, hs_new_path := np\<rparr>)"
    by (rule scan_before_content [OF ok]) (rule that)
  obtain v w where content: "content_lines cfg f = (u ''--- '' @ ?x @ v) # (u ''+++ '' @ ?y @ w) # ?b"
    and tabs: "32 \<notin> set ?x \<Longrightarrow> v = []" "32 \<notin> set ?y \<Longrightarrow> w = []"
    using hs by (simp add: content_lines_def label_line_def del: u_Cons)
  have sides: "pred_option (readable_side cfg) (gf_old f)" "pred_option (readable_side cfg) (gf_new f)"
    using ok by (simp_all add: readable_file_def)
  have plain: "v = [] \<and> w = []" if "\<not> renamed f"
  proof -
    have "32 \<notin> set (old_name f)" "32 \<notin> set (new_name f)"
      using ok hs that by (cases hs; simp add: readable_file_def)+
    then have "\<forall>t. gf_old f = Some t \<longrightarrow> 32 \<notin> set (gs_path t)" "\<forall>t. gf_new f = Some t \<longrightarrow> 32 \<notin> set (gs_path t)"
      by (auto simp: old_name_def new_name_def)
    with side_label_space sides tabs show ?thesis by blast
  qed
  have body: "parse_hunks ?b = Inr (map hunk_of hs)"
    using ok hs parse_printed_hunks [of hs cfg] by (cases hs) (simp_all add: readable_file_def)
  have drop: "drop (Suc (Suc (length (before_content cfg f)))) (before_content cfg f @ p # q # ?b) = ?b" for p q by simp
  have paths: "renamed f \<longrightarrow> map_option gs_path (gf_old f) = Some (old_name f) \<and> map_option gs_path (gf_new f) = Some (new_name f)"
    using renamed_paths by blast
  show ?thesis
    using scan plain paths body side_label_plain(1) [OF sides(1)] side_label_plain(2) [OF sides(2)]
    by (cases "renamed f")
      (simp_all add: parse_block_eq print_file_split [OF ok] Let_def patch_of_def header_start_def hs content scan_labels
        drop del: u_Cons scan_header.simps(2) drop_append map_option_eq_Some)
qed

lemma parse_printed_file: "readable_file cfg f \<Longrightarrow> parse_block (print_file cfg f) = Inr (patch_of f)"
  using parse_printed_without_hunks parse_printed_with_hunks by (cases "gf_content f") metis+

interpretation file_reader: reader "readable_file cfg" "print_file cfg" patch_of parse_block for cfg
  by unfold_locales (rule parse_printed_file)

section \<open>Whole diffs\<close>

lemma nat_str_no_linebreak: "no_linebreak (nat_str n)"
  using nat_str_ascii [of n] by (force simp: no_linebreak_def py_linebreak_def)

lemma blob_no_linebreak: "set s \<subseteq> set (u ''0123456789abcdef'') \<Longrightarrow> no_linebreak s"
  by (force simp: no_linebreak_def py_linebreak_def)

lemma mode_text_no_linebreak: "no_linebreak (mode_text m)"
  by (cases m) (simp_all add: py_linebreak_def)

lemma header_no_linebreak: "no_linebreak s \<Longrightarrow> no_linebreak (header_text (range_of a b) (range_of c d) s)"
  by (simp add: header_text_def range_of_def range_text_def nat_str_no_linebreak py_linebreak_def)

lemma print_line_no_linebreak:
  "no_linebreak (gl_text l) \<Longrightarrow> k \<in> set (print_line cfg l) \<Longrightarrow> no_linebreak k"
  by (cases "gl_type l") (auto simp: print_line_def no_newline_marker_def py_linebreak_def split: if_split_asm)

lemma print_hunk_no_linebreak:
  assumes "readable_hunk h" "k \<in> set (print_hunk cfg h)"
  shows "no_linebreak k"
proof -
  have "no_linebreak (header_text (range_of a b) (range_of c d) (if gk_function h = [] then [] else u '' '' @ gk_function h))" for a b c d
    using assms(1) by (intro header_no_linebreak) (simp add: readable_hunk_def py_linebreak_def)
  moreover have "no_linebreak l" if "g \<in> set (gk_lines h)" "l \<in> set (print_line cfg g)" for g l
    using assms(1) that print_line_no_linebreak by (auto simp: readable_hunk_def list_all_iff)
  ultimately show ?thesis using assms(2) by (auto simp only: print_hunk_def set_simps set_concat set_map)
qed

lemma side_label_no_linebreak:
  assumes "pred_option (readable_side cfg) s" "c = 97 \<or> c = 98"
  shows "no_linebreak (side_label cfg [c, 47] s)"
  using assms by (cases s) (auto simp: side_label_def readable_side_def py_linebreak_def)

lemma before_content_no_linebreak:
  assumes "readable_file cfg f" "k \<in> set (before_content cfg f)"
  shows "no_linebreak k"
proof -
  have sides: "no_linebreak (gs_blob s)" if "gf_old f = Some s \<or> gf_new f = Some s" for s
    using assms(1) that by (auto simp: readable_file_def readable_side_def intro!: blob_no_linebreak)
  note plain = readable_names [OF assms(1)] mode_text_no_linebreak nat_str_no_linebreak
  have "\<forall>k \<in> set (mode_lines f). no_linebreak k"
    by (auto simp: mode_lines_def plain py_linebreak_def split: option.split)
  moreover have "\<forall>k \<in> set (index_lines f). no_linebreak k"
    using sides by (auto simp: index_lines_def index_line_def no_blob_def plain py_linebreak_def split: option.split)
  moreover have "\<forall>k \<in> set (rename_lines cfg f). no_linebreak k"
    using plain by (auto simp: rename_lines_def quote_name_def py_linebreak_def)
  moreover have "no_linebreak (u ''diff --git a/'' @ old_name f @ u '' b/'' @ new_name f)"
    using plain by (simp add: py_linebreak_def)
  ultimately show ?thesis using assms(2) unfolding before_content_def by (auto simp del: u_Cons)
qed

lemma content_no_linebreak:
  assumes "readable_file cfg f" "k \<in> set (content_lines cfg f)"
  shows "no_linebreak k"
proof -
  have sides: "no_linebreak (side_label cfg (u ''a/'') (gf_old f))" "no_linebreak (side_label cfg (u ''b/'') (gf_new f))"
    using assms(1) side_label_no_linebreak by (simp_all add: readable_file_def)
  show ?thesis
  proof (cases "gf_content f")
    case Binary_Change
    with assms(2) sides show ?thesis by (simp add: content_lines_def py_linebreak_def)
  next
    case (Text_Change hs)
    then have "list_all readable_hunk hs" using assms(1) by (cases hs) (simp_all add: readable_file_def)
    then have "no_linebreak l" if "h \<in> set hs" "l \<in> set (print_hunk cfg h)" for h l
      using that print_hunk_no_linebreak by (auto simp: list_all_iff)
    with assms(2) Text_Change sides show ?thesis
      by (auto simp: content_lines_def label_line_def py_linebreak_def split: if_split_asm)
  qed
qed

lemma parse_printed_diff:
  assumes "list_all (readable_file cfg) fs"
  shows "parse_diff (print_diff cfg fs) True = Inr (map patch_of fs)"
proof -
  have "no_linebreak k" if "f \<in> set fs" "k \<in> set (print_file cfg f)" for f k
    using assms that before_content_no_linebreak content_no_linebreak
    by (auto simp: list_all_iff print_file_split)
  then have "splitlines (print_diff cfg fs) = concat (map (print_file cfg) fs)"
    unfolding print_diff_def by (intro splitlines_unlines) auto
  moreover have "map_result parse_block (map (print_file cfg) fs) = Inr (map patch_of fs)"
    using assms by (rule file_reader.map_parse)
  ultimately show ?thesis
    by (simp add: parse_diff_eq blocks_of_printed)
qed

text \<open>Diffs that print the same mean the same.\<close>

interpretation diff_reader: reader "list_all (readable_file cfg)" "print_diff cfg" "map patch_of" "\<lambda>t. parse_diff t True" for cfg
  by unfold_locales (rule parse_printed_diff)

lemma print_diff_determines:
  "list_all (readable_file cfg) fs \<Longrightarrow> list_all (readable_file cfg) gs \<Longrightarrow> print_diff cfg fs = print_diff cfg gs \<Longrightarrow>
     map patch_of fs = map patch_of gs"
  by (rule diff_reader.printed_same)


text \<open>
  A file of one line without a newline that gets another one, a renamed file with a space in its name and
  one new line, a created file, and a binary file whose mode changes, under git's default settings.
\<close>

definition git_defaults :: git_config where
  "git_defaults = \<lparr>gc_quote_path = True, gc_suppress_blank_empty = False\<rparr>"

definition sample_files :: "git_file list" where
  "sample_files =
     [\<lparr>gf_old = Some \<lparr>gs_path = u ''v'', gs_mode = Regular, gs_blob = u ''d00491f''\<rparr>,
       gf_new = Some \<lparr>gs_path = u ''v'', gs_mode = Regular, gs_blob = u ''0cfbf08''\<rparr>, gf_similarity = 0,
       gf_content = Text_Change [\<lparr>gk_old_before = 0, gk_new_before = 0, gk_function = [], gk_lines =
         [\<lparr>gl_type = DELETE, gl_text = u ''1'', gl_incomplete = True\<rparr>, \<lparr>gl_type = ADD, gl_text = u ''2'', gl_incomplete = False\<rparr>]\<rparr>]\<rparr>,
      \<lparr>gf_old = Some \<lparr>gs_path = u ''a b'', gs_mode = Regular, gs_blob = u ''1''\<rparr>,
       gf_new = Some \<lparr>gs_path = u ''a c'', gs_mode = Regular, gs_blob = u ''2''\<rparr>, gf_similarity = 95,
       gf_content = Text_Change [\<lparr>gk_old_before = 7, gk_new_before = 7, gk_function = u ''def f():'', gk_lines =
         [\<lparr>gl_type = CONTEXT, gl_text = [], gl_incomplete = False\<rparr>, \<lparr>gl_type = ADD, gl_text = u ''x'', gl_incomplete = False\<rparr>]\<rparr>]\<rparr>,
      \<lparr>gf_old = None, gf_new = Some \<lparr>gs_path = u ''n'', gs_mode = Executable, gs_blob = u ''3''\<rparr>, gf_similarity = 0,
       gf_content = Text_Change [\<lparr>gk_old_before = 0, gk_new_before = 0, gk_function = [], gk_lines =
         [\<lparr>gl_type = ADD, gl_text = u ''y'', gl_incomplete = False\<rparr>]\<rparr>]\<rparr>,
      \<lparr>gf_old = Some \<lparr>gs_path = u ''i.png'', gs_mode = Regular, gs_blob = u ''4''\<rparr>,
       gf_new = Some \<lparr>gs_path = u ''i.png'', gs_mode = Executable, gs_blob = u ''5''\<rparr>, gf_similarity = 0,
       gf_content = Binary_Change\<rparr>]"

lemmas print_eval = print_diff_def print_file_def print_hunk_def print_line_def content_lines_def label_line_def side_label_def
  mode_lines_def rename_lines_def index_lines_def index_line_def no_blob_def renamed_def old_name_def new_name_def
  quote_name_def needs_quotes_def range_of_def first_line_def old_lines_def new_lines_def header_text_def range_text_def
  no_newline_marker_def git_defaults_def nat_str.simps

lemma sample_files_printed:
  "print_diff git_defaults sample_files = unlines (map u
     [''diff --git a/v b/v'', ''index d00491f..0cfbf08 100644'', ''--- a/v'', ''+++ b/v'', ''@@ -1 +1 @@'', ''-1'']
     @ no_newline_marker # map u [''+2'',
      ''diff --git a/a b b/a c'', ''similarity index 95%'', ''rename from a b'', ''rename to a c'', ''index 1..2 100644'']
     @ [u ''--- a/a b'' @ [9], u ''+++ b/a c'' @ [9]] @ map u [''@@ -8 +8,2 @@ def f():'', '' '', ''+x'',
      ''diff --git a/n b/n'', ''new file mode 100755'', ''index 0000000..3'', ''--- /dev/null'', ''+++ b/n'', ''@@ -0,0 +1 @@'', ''+y'',
      ''diff --git a/i.png b/i.png'', ''old mode 100644'', ''new mode 100755'', ''index 4..5'', ''Binary files a/i.png and b/i.png differ''])"
  by (simp add: sample_files_def print_eval)




section \<open>What is read otherwise\<close>

text \<open>
  A created file that is empty has no hunks: it is read as changed, not as created.  A name that git
  quotes is read with its quotes and escapes, and with the prefix.
\<close>

lemma empty_file_not_created:
  "parse_diff (print_diff git_defaults
       [\<lparr>gf_old = None, gf_new = Some \<lparr>gs_path = u ''e'', gs_mode = Regular, gs_blob = u ''e69de29''\<rparr>, gf_similarity = 0,
         gf_content = Text_Change []\<rparr>]) True
     = Inr [\<lparr>old_path = Some (u ''e''), new_path = Some (u ''e''), hunks = [], is_binary = False\<rparr>]"
  by (simp add: print_eval parser_eval)

lemma quoted_name_misread:
  "quote_name git_defaults [97, 47, 228] = 34 # u ''a/'' @ 92 # u ''303'' @ 92 # u ''244'' @ [34]"
  "parse_diff (unlines [u ''diff --git '' @ quote_name git_defaults [97, 47, 228] @ u '' '' @ quote_name git_defaults [98, 47, 228],
       u ''--- '' @ quote_name git_defaults [97, 47, 228], u ''+++ /dev/null'']) True
     = Inr [\<lparr>old_path = Some (quote_name git_defaults [97, 47, 228]), new_path = None, hunks = [], is_binary = False\<rparr>]"
  by (simp_all add: quote_name_def quote_char_def octal_byte_def utf8_char_def needs_quotes_def git_defaults_def parser_eval)

end
