(* ===== verification/Ast_Context.thy ===== *)
theory Ast_Context
  imports Diff_Models Py_Utf8
begin

text \<open>
  The tree-sitter AST context extension (\<^verbatim>\<open>kenjutsu/diff/ast_context.py\<close>).

  tree-sitter is a library: importing a grammar and parsing are the parameters
  \<open>import_grammar\<close> and \<open>ts_parse\<close> of the definitions.  What the code reads of a syntax tree is
  the datatype \<open>ts_node\<close>: type, first and last row, text, and the children in order, each with
  the field name it has in its parent.
\<close>

section \<open>Syntax trees\<close>

datatype ts_node = Ts_Node
  (ts_type: pystr) (ts_start_row: nat) (ts_end_row: nat) (ts_text: "pybytes option")
  (ts_kids: "(pystr option \<times> ts_node) list")

definition ts_children :: "ts_node \<Rightarrow> ts_node list" where
  "ts_children n = map snd (ts_kids n)"

definition child_by_field_name :: "ts_node \<Rightarrow> pystr \<Rightarrow> ts_node option" where
  "child_by_field_name n f = map_option snd (find (\<lambda>k. fst k = Some f) (ts_kids n))"

lemma ts_kid_size [termination_simp]: "k \<in> set (ts_kids n) \<Longrightarrow> size (snd k) < size n"
  by (cases n; cases k) (auto dest!: size_list_estimation' [of k _ _ "\<lambda>p. size (snd p)"]
      simp: size_prod_simp less_Suc_eq_le intro: size_list_estimation')

section \<open>Language registry\<close>

definition language_configs :: "(pystr \<times> (pystr \<times> pystr list \<times> pystr list)) list" where
  "language_configs =
    [(u ''python'', u ''tree_sitter_python'',
       map u [''function_definition'', ''class_definition'', ''decorated_definition''], [u ''body'']),
     (u ''javascript'', u ''tree_sitter_javascript'',
       map u [''function_declaration'', ''function_expression'', ''arrow_function'',
         ''class_declaration'', ''class_expression'', ''method_definition''], [u ''body'']),
     (u ''typescript'', u ''tree_sitter_typescript'',
       map u [''function_declaration'', ''function_expression'', ''arrow_function'',
         ''class_declaration'', ''class_expression'', ''method_definition'',
         ''abstract_method_signature''], [u ''body'']),
     (u ''tsx'', u ''tree_sitter_typescript'',
       map u [''function_declaration'', ''function_expression'', ''arrow_function'',
         ''class_declaration'', ''class_expression'', ''method_definition''], [u ''body'']),
     (u ''go'', u ''tree_sitter_go'',
       map u [''function_declaration'', ''method_declaration''], [u ''body'']),
     (u ''java'', u ''tree_sitter_java'',
       map u [''method_declaration'', ''class_declaration'', ''interface_declaration'',
         ''constructor_declaration''], [u ''body'']),
     (u ''rust'', u ''tree_sitter_rust'',
       map u [''function_item'', ''impl_item'', ''struct_item'', ''trait_item''], [u ''body''])]"

definition ext_to_language :: "(pystr \<times> pystr) list" where
  "ext_to_language = map (\<lambda>(e, l). (u e, u l))
    [(''.py'', ''python''), (''.pyi'', ''python''), (''.js'', ''javascript''),
     (''.mjs'', ''javascript''), (''.cjs'', ''javascript''), (''.jsx'', ''javascript''),
     (''.ts'', ''typescript''), (''.mts'', ''typescript''), (''.cts'', ''typescript''),
     (''.tsx'', ''tsx''), (''.go'', ''go''), (''.java'', ''java''), (''.rs'', ''rust'')]"

definition kind_map :: "(pystr \<times> pystr) list" where
  "kind_map = map (\<lambda>(t, k). (u t, u k))
    [(''function_definition'', ''function''), (''function_declaration'', ''function''),
     (''function_expression'', ''function''), (''arrow_function'', ''function''),
     (''function_item'', ''function''), (''class_definition'', ''class''),
     (''class_declaration'', ''class''), (''class_expression'', ''class''),
     (''decorated_definition'', ''function''), (''method_definition'', ''method''),
     (''method_declaration'', ''method''), (''abstract_method_signature'', ''method''),
     (''constructor_declaration'', ''constructor''), (''interface_declaration'', ''interface''),
     (''struct_item'', ''struct''), (''impl_item'', ''impl''), (''trait_item'', ''trait'')]"

text \<open>
  \<open>import_grammar module attribute\<close> imports the module, calls the named attribute and wraps the
  result in a \<open>Language\<close>; every exception on the way is caught.
\<close>

type_synonym 'lang grammars = "pystr \<Rightarrow> pystr \<Rightarrow> 'lang result"

definition load_language :: "'lang grammars \<Rightarrow> pystr \<Rightarrow> 'lang option" where
  "load_language import_grammar lang_name =
     (case map_of language_configs lang_name of
        None \<Rightarrow> None
      | Some (module_name, _, _) \<Rightarrow>
          (let fn_name =
             (if lang_name = u ''typescript'' \<or> lang_name = u ''tsx'' then
                (if lang_name = u ''tsx'' then u ''language_tsx'' else u ''language_typescript'')
              else u ''language'')
           in case import_grammar module_name fn_name of Inl _ \<Rightarrow> None | Inr l \<Rightarrow> Some l))"

text \<open>
  \<open>Path(p).suffix\<close>: the last component of the path is the one after the last slash once empty
  and \<open>.\<close> components are dropped; its suffix starts at its last dot, unless the dot is the
  first or the last character.
\<close>

definition path_parts :: "pystr \<Rightarrow> pystr list" where
  "path_parts p = filter (\<lambda>c. c \<noteq> [] \<and> c \<noteq> u ''.'') (split_on (of_char CHR ''/'') p)"

definition path_suffix :: "pystr \<Rightarrow> pystr" where
  "path_suffix p =
     (let name = (case path_parts p of [] \<Rightarrow> [] | ps \<Rightarrow> last ps);
          ext = rev (takeWhile (\<lambda>c. c \<noteq> of_char CHR ''.'') (rev name))
      in if ext \<noteq> [] \<and> length ext + 1 < length name then u ''.'' @ ext else [])"

text \<open>
  \<open>str.lower\<close> on ASCII.  Lowering the other characters as well would not change the lookup: no
  key of the table can be reached from a character outside ASCII.
\<close>

definition ascii_lower :: "pystr \<Rightarrow> pystr" where
  "ascii_lower = map (\<lambda>c. if 65 \<le> c \<and> c \<le> 90 then c + 32 else c)"

definition detect_language :: "pystr \<Rightarrow> pystr option" where
  "detect_language file_path = map_of ext_to_language (ascii_lower (path_suffix file_path))"

section \<open>Core helpers\<close>

definition body_child :: "pystr list \<Rightarrow> ts_node \<Rightarrow> ts_node option" where
  "body_child body_fields n =
     (case find (\<lambda>f. child_by_field_name n f \<noteq> None) body_fields of
        None \<Rightarrow> None | Some f \<Rightarrow> child_by_field_name n f)"

definition extract_signature :: "ts_node \<Rightarrow> pybytes list \<Rightarrow> pystr \<Rightarrow> pystr" where
  "extract_signature node source_lines lang_name =
     (let body_fields = (case map_of language_configs lang_name of
            Some (_, _, fs) \<Rightarrow> fs | None \<Rightarrow> [u ''body'']);
          start_row = ts_start_row node;
          sig_rows = (case body_child body_fields node of
             Some b \<Rightarrow> take (ts_start_row b - start_row) (drop start_row source_lines)
           | None \<Rightarrow> if start_row < length source_lines then [source_lines ! start_row] else []);
          sig_lines = map (\<lambda>line. rstrip (utf8_decode line)) sig_rows
      in strip (join (u ''\<newline>'') sig_lines))"

function extract_name :: "ts_node \<Rightarrow> pystr" where
  "extract_name node =
     (case (if ts_type node = u ''decorated_definition''
            then find (\<lambda>k. ts_type (snd k) = u ''function_definition''
                   \<or> ts_type (snd k) = u ''class_definition''
                   \<or> ts_type (snd k) = u ''async_function_definition'') (ts_kids node)
            else None) of
        Some k \<Rightarrow> extract_name (snd k)
      | None \<Rightarrow>
          (case Option.bind (child_by_field_name node (u ''name'')) ts_text of
             Some t \<Rightarrow> utf8_decode t
           | None \<Rightarrow>
               (case find (\<lambda>c. ts_type c = u ''identifier'' \<and> ts_text c \<noteq> None) (ts_children node) of
                  Some c \<Rightarrow> utf8_decode (the (ts_text c))
                | None \<Rightarrow> u ''<anonymous>'')))"
  by pat_completeness auto
termination
  by (relation "measure size") (auto split: if_splits dest!: find_Some_iff [THEN iffD1]
      intro!: ts_kid_size nth_mem)

declare extract_name.simps [simp del]

definition row_span :: "ts_node \<Rightarrow> int" where
  "row_span n = int (ts_end_row n) - int (ts_start_row n)"

text \<open>The body of the loop over the children: keep the smaller of two candidates, first wins.\<close>

definition better_scope :: "ts_node option \<Rightarrow> ts_node option \<Rightarrow> ts_node option" where
  "better_scope best candidate =
     (case candidate of
        None \<Rightarrow> best
      | Some c \<Rightarrow> (case best of
            None \<Rightarrow> Some c
          | Some b \<Rightarrow> if row_span c < row_span b then Some c else Some b))"

function find_innermost_scope :: "ts_node \<Rightarrow> int \<Rightarrow> int \<Rightarrow> pystr list \<Rightarrow> ts_node option" where
  "find_innermost_scope node target_start target_end scope_kinds =
     (let node_start = int (ts_start_row node); node_end = int (ts_end_row node) in
      if node_start > target_end \<or> node_end < target_start then None
      else (case foldl (\<lambda>best kid. better_scope best
                     (find_innermost_scope (snd kid) target_start target_end scope_kinds))
                   None (ts_kids node) of
          Some best \<Rightarrow> Some best
        | None \<Rightarrow>
            if ts_type node \<in> set scope_kinds \<and> node_start \<le> target_start \<and> node_end \<ge> target_end
            then Some node else None))"
  by pat_completeness auto
termination
  by (relation "measure (\<lambda>(n, _). size n)") (auto intro: ts_kid_size)

declare find_innermost_scope.simps [simp del]

definition build_scope_context :: "ts_node \<Rightarrow> pybytes list \<Rightarrow> pystr \<Rightarrow> scope_context" where
  "build_scope_context node source_lines lang_name =
     \<lparr>sc_kind = (case map_of kind_map (ts_type node) of Some k \<Rightarrow> k | None \<Rightarrow> ts_type node),
      sc_name = extract_name node,
      sc_signature = extract_signature node source_lines lang_name,
      sc_start_line = int (ts_start_row node) + 1,
      sc_end_line = int (ts_end_row node) + 1,
      sc_language = lang_name\<rparr>"

section \<open>Public functions\<close>

datatype source_text = Source_Str pystr | Source_Bytes pybytes

definition source_bytes :: "source_text \<Rightarrow> pybytes result" where
  "source_bytes source = (case source of Source_Str s \<Rightarrow> utf8_encode s | Source_Bytes b \<Rightarrow> Inr b)"

text \<open>\<open>bytes.splitlines(keepends=True)\<close>: bytes know three line ends only.\<close>

fun bytes_lines :: "pybytes \<Rightarrow> pybytes list" where
  "bytes_lines [] = []"
| "bytes_lines (b # s) =
     (if b = 13 \<and> s \<noteq> [] \<and> hd s = 10 then [13, 10] # bytes_lines (tl s)
      else if b = 10 \<or> b = 13 then [b] # bytes_lines s
      else (case bytes_lines s of [] \<Rightarrow> [[b]] | l # ls \<Rightarrow> (b # l) # ls))"

definition hunk_rows :: "hunk \<Rightarrow> int \<times> int" where
  "hunk_rows h =
     (let hunk_start_0 = new_start h - 1;
          hunk_end_0 = new_start h + max (new_count h - 1) 0 - 1
      in (hunk_start_0, max hunk_start_0 hunk_end_0))"

text \<open>The scope of one hunk in a parsed file, as both public functions compute it.\<close>

definition hunk_scope :: "pystr \<Rightarrow> ts_node \<Rightarrow> pybytes list \<Rightarrow> hunk \<Rightarrow> scope_context option" where
  "hunk_scope lang_name root source_lines h =
     (case map_of language_configs lang_name of
        None \<Rightarrow> None
      | Some (_, scope_kinds, _) \<Rightarrow>
          (case find_innermost_scope root (fst (hunk_rows h)) (snd (hunk_rows h)) scope_kinds of
             None \<Rightarrow> None
           | Some scope_node \<Rightarrow> Some (build_scope_context scope_node source_lines lang_name)))"

type_synonym 'lang parser = "'lang \<Rightarrow> pybytes \<Rightarrow> ts_node result"

definition find_enclosing_scope ::
  "'lang grammars \<Rightarrow> 'lang parser \<Rightarrow> source_text \<Rightarrow> hunk \<Rightarrow> pystr \<Rightarrow> scope_context option result" where
  "find_enclosing_scope import_grammar ts_parse source h lang_name =
     (case load_language import_grammar lang_name of
        None \<Rightarrow> Inr None
      | Some language \<Rightarrow>
          and_then (source_bytes source) (\<lambda>bytes.
          and_then (ts_parse language bytes) (\<lambda>root.
            Inr (hunk_scope lang_name root (bytes_lines bytes) h))))"

text \<open>
  One turn of the loop over the patches.  An exception of the parser is caught and leaves the
  patch alone; one of \<open>file_content_getter\<close> or of \<open>str.encode\<close> is not caught.
\<close>

definition set_scope :: "pystr \<Rightarrow> ts_node \<Rightarrow> pybytes list \<Rightarrow> hunk \<Rightarrow> hunk" where
  "set_scope lang_name root source_lines h =
     (case hunk_scope lang_name root source_lines h of
        None \<Rightarrow> h | Some ctx \<Rightarrow> h\<lparr>enclosing_scope := Some ctx\<rparr>)"

definition extend_patch ::
  "'lang grammars \<Rightarrow> 'lang parser \<Rightarrow> (pystr \<Rightarrow> source_text option result) \<Rightarrow> patch_file
     \<Rightarrow> patch_file result" where
  "extend_patch import_grammar ts_parse file_content_getter patch =
     (if is_binary patch \<or> is_deletion patch \<or> hunks patch = [] then Inr patch
      else case detect_language (patch_path patch) of
        None \<Rightarrow> Inr patch
      | Some lang_name \<Rightarrow>
          (case load_language import_grammar lang_name of
             None \<Rightarrow> Inr patch
           | Some language \<Rightarrow>
               and_then (file_content_getter (patch_path patch)) (\<lambda>src.
                 (case src of
                    None \<Rightarrow> Inr patch
                  | Some source \<Rightarrow>
                      and_then (source_bytes source) (\<lambda>bytes.
                        (case ts_parse language bytes of
                           Inl _ \<Rightarrow> Inr patch
                         | Inr root \<Rightarrow> Inr (patch\<lparr>hunks :=
                             map (set_scope lang_name root (bytes_lines bytes)) (hunks patch)\<rparr>)))))))"

definition extend_hunks_with_ast ::
  "'lang grammars \<Rightarrow> 'lang parser \<Rightarrow> (pystr \<Rightarrow> source_text option result) \<Rightarrow> patch_file list
     \<Rightarrow> patch_file list result" where
  "extend_hunks_with_ast import_grammar ts_parse file_content_getter patches =
     map_result (extend_patch import_grammar ts_parse file_content_getter) patches"

section \<open>The search for the innermost scope\<close>

inductive in_tree :: "ts_node \<Rightarrow> ts_node \<Rightarrow> bool" where
  root: "in_tree n n"
| kid: "k \<in> set (ts_kids n) \<Longrightarrow> in_tree m (snd k) \<Longrightarrow> in_tree m n"

inductive_cases in_tree_elim: "in_tree m n"

function well_nested :: "ts_node \<Rightarrow> bool" where
  "well_nested n \<longleftrightarrow>
     list_all (\<lambda>k. ts_start_row n \<le> ts_start_row (snd k) \<and> ts_end_row (snd k) \<le> ts_end_row n
       \<and> well_nested (snd k)) (ts_kids n)"
  by pat_completeness auto
termination
  by (relation "measure size") (auto intro: ts_kid_size)

declare well_nested.simps [simp del]

definition scope_at :: "pystr list \<Rightarrow> int \<Rightarrow> int \<Rightarrow> ts_node \<Rightarrow> bool" where
  "scope_at kinds a b n \<longleftrightarrow>
     ts_type n \<in> set kinds \<and> int (ts_start_row n) \<le> a \<and> b \<le> int (ts_end_row n)"

lemma better_scope_None [simp]:
  "better_scope None c = c" "better_scope b None = b"
  "better_scope b c = None \<longleftrightarrow> b = None \<and> c = None"
  by (auto simp: better_scope_def split: option.splits)

lemma foldl_better_None:
  "foldl (\<lambda>best k. better_scope best (f k)) b ks = None \<longleftrightarrow> b = None \<and> (\<forall>k \<in> set ks. f k = None)"
  by (induction ks arbitrary: b) auto

lemma better_scope_Some:
  "better_scope b c = Some d \<Longrightarrow>
     (b = Some d \<or> c = Some d) \<and> (\<forall>x. b = Some x \<or> c = Some x \<longrightarrow> row_span d \<le> row_span x)"
  by (auto simp: better_scope_def split: option.splits if_splits)

lemma foldl_better_Some:
  "foldl (\<lambda>best k. better_scope best (f k)) b ks = Some c \<Longrightarrow>
     (b = Some c \<or> (\<exists>k \<in> set ks. f k = Some c))
     \<and> (\<forall>d. b = Some d \<or> (\<exists>k \<in> set ks. f k = Some d) \<longrightarrow> row_span c \<le> row_span d)"
proof (induction ks arbitrary: b)
  case (Cons k ks)
  have IH: "better_scope b (f k) = Some c \<or> (\<exists>k \<in> set ks. f k = Some c)"
      "\<And>d. better_scope b (f k) = Some d \<or> (\<exists>k \<in> set ks. f k = Some d) \<Longrightarrow> row_span c \<le> row_span d"
    using Cons.IH [of "better_scope b (f k)"] Cons.prems by auto
  show ?case
  proof (cases "better_scope b (f k)")
    case None
    then show ?thesis using IH by auto
  next
    case (Some e)
    note e = better_scope_Some [OF this]
    have "row_span c \<le> row_span e" using IH(2) Some by simp
    with e have "row_span c \<le> row_span d" if "b = Some d \<or> f k = Some d" for d
      using that by fastforce
    with IH e Some show ?thesis by auto
  qed
qed auto

lemma row_span_in_tree:
  assumes "in_tree m n" and "well_nested n"
  shows "ts_start_row n \<le> ts_start_row m \<and> ts_end_row m \<le> ts_end_row n \<and> row_span m \<le> row_span n"
  using assms
proof (induction rule: in_tree.induct)
  case (kid k n m)
  then have "ts_start_row n \<le> ts_start_row (snd k) \<and> ts_end_row (snd k) \<le> ts_end_row n \<and> well_nested (snd k)"
    using well_nested.simps [of n] by (auto simp: list_all_iff)
  with kid.IH show ?case by (auto simp: row_span_def)
qed simp

text \<open>
  What the search returns is a scope of the tree that contains the target, on every tree.
\<close>

lemma find_innermost_sound:
  "find_innermost_scope n a b kinds = Some m \<Longrightarrow> in_tree m n \<and> scope_at kinds a b m"
proof (induction n a b kinds arbitrary: m rule: find_innermost_scope.induct)
  case (1 n a b kinds)
  let ?f = "\<lambda>k. find_innermost_scope (snd k) a b kinds"
  have near: "\<not> (int (ts_start_row n) > b \<or> int (ts_end_row n) < a)"
    using "1.prems" by (auto simp: find_innermost_scope.simps [of n] Let_def)
  show ?case
  proof (cases "foldl (\<lambda>best k. better_scope best (?f k)) None (ts_kids n)")
    case None
    with near "1.prems" show ?thesis
      by (auto simp: find_innermost_scope.simps [of n] Let_def scope_at_def intro: in_tree.root
          split: if_splits)
  next
    case (Some c)
    with near "1.prems" have "c = m" by (simp add: find_innermost_scope.simps [of n] Let_def)
    with foldl_better_Some [OF Some] obtain k where k: "k \<in> set (ts_kids n)" "?f k = Some m" by auto
    from "1.IH" [OF refl refl near k] k show ?thesis by (auto intro: in_tree.kid)
  qed
qed

text \<open>
  On a tree whose nodes lie in the rows of their parents, as tree-sitter builds them, the search
  misses no scope and returns one with the fewest rows.
\<close>

lemma find_innermost_complete:
  assumes "well_nested n" "a \<le> b" "in_tree m n" "scope_at kinds a b m"
  shows "\<exists>c. find_innermost_scope n a b kinds = Some c \<and> row_span c \<le> row_span m"
  using assms(3,1,4)
proof (induction rule: in_tree.induct)
  case (root n)
  have near: "\<not> (int (ts_start_row n) > b \<or> int (ts_end_row n) < a)"
    using root \<open>a \<le> b\<close> by (auto simp: scope_at_def)
  let ?f = "\<lambda>k. find_innermost_scope (snd k) a b kinds"
  show ?case
  proof (cases "foldl (\<lambda>best k. better_scope best (?f k)) None (ts_kids n)")
    case None
    with near root show ?thesis
      by (auto simp: find_innermost_scope.simps [of n] Let_def scope_at_def)
  next
    case (Some c)
    with near have c: "find_innermost_scope n a b kinds = Some c"
      by (simp add: find_innermost_scope.simps [of n] Let_def)
    with find_innermost_sound row_span_in_tree root.prems show ?thesis by blast
  qed
next
  case (kid k n m)
  have k: "well_nested (snd k)"
    using kid well_nested.simps [of n] by (auto simp: list_all_iff)
  with kid obtain d where d: "find_innermost_scope (snd k) a b kinds = Some d" "row_span d \<le> row_span m"
    by auto
  have "in_tree m n" using kid by (auto intro: in_tree.kid)
  with kid have rows: "ts_start_row n \<le> ts_start_row m" "ts_end_row m \<le> ts_end_row n"
    using row_span_in_tree by blast+
  have near: "\<not> (int (ts_start_row n) > b \<or> int (ts_end_row n) < a)"
    using kid.prems rows \<open>a \<le> b\<close> by (auto simp: scope_at_def)
  let ?F = "foldl (\<lambda>best k. better_scope best (find_innermost_scope (snd k) a b kinds)) None (ts_kids n)"
  have "?F \<noteq> None" using kid d by (auto simp: foldl_better_None)
  then obtain c where c: "?F = Some c" by auto
  have "row_span c \<le> row_span d" using foldl_better_Some [OF c] d kid by auto
  moreover have "find_innermost_scope n a b kinds = Some c"
    using near c by (simp add: find_innermost_scope.simps [of n] Let_def)
  ultimately show ?case using d by auto
qed

text \<open>
  Claim C11.  The search for the innermost scope is exact.  On a syntax tree whose nodes lie within
  the rows of their parents, \<open>_find_innermost_scope\<close> returns a node of the tree that has a scope
  kind, contains the target rows and has the fewest rows of all such nodes; it returns None only
  when the tree has no such node.
\<close>

theorem find_innermost_scope_exact:
  assumes "well_nested root" and "a \<le> b"
  shows "case find_innermost_scope root a b kinds of
      Some m \<Rightarrow> in_tree m root \<and> scope_at kinds a b m
        \<and> (\<forall>m'. in_tree m' root \<and> scope_at kinds a b m' \<longrightarrow> row_span m \<le> row_span m')
    | None \<Rightarrow> \<not> (\<exists>m. in_tree m root \<and> scope_at kinds a b m)"
proof (cases "find_innermost_scope root a b kinds")
  case None
  then show ?thesis using find_innermost_complete [OF assms] by fastforce
next
  case (Some m)
  then show ?thesis using find_innermost_sound [OF Some] find_innermost_complete [OF assms] by fastforce
qed

text \<open>A Python module with a class whose method spans rows 2 to 4.\<close>

definition sample_method :: ts_node where
  "sample_method = Ts_Node (u ''function_definition'') 2 4 None
     [(Some (u ''name''), Ts_Node (u ''identifier'') 2 2 (Some (map of_char ''run'')) []),
      (Some (u ''body''), Ts_Node (u ''block'') 3 4 None [])]"

definition sample_tree :: ts_node where
  "sample_tree = Ts_Node (u ''module'') 0 9 None
     [(None, Ts_Node (u ''class_definition'') 1 8 None
        [(Some (u ''name''), Ts_Node (u ''identifier'') 1 1 (Some (map of_char ''Job'')) []),
         (Some (u ''body''), Ts_Node (u ''block'') 2 8 None [(None, sample_method)])])]"

definition python_kinds :: "pystr list" where
  "python_kinds = map u [''function_definition'', ''class_definition'', ''decorated_definition'']"

text \<open>For evaluation: the equations at a constructor only, so that they do not unfold under the folds.\<close>

lemmas well_nested_node = well_nested.simps [of "Ts_Node t a b x ks" for t a b x ks]
lemmas find_innermost_node = find_innermost_scope.simps [of "Ts_Node t a b x ks" for t a b x ks]
lemmas extract_name_node = extract_name.simps [of "Ts_Node t a b x ks" for t a b x ks]

lemma sample_tree_nested: "well_nested sample_tree"
  by (simp add: sample_tree_def sample_method_def well_nested_node)

lemma sample_tree_search: "find_innermost_scope sample_tree 3 3 python_kinds = Some sample_method"
  by (simp add: sample_tree_def sample_method_def python_kinds_def find_innermost_node)

theorem find_innermost_scope_exact_witness:
  "in_tree sample_method sample_tree \<and> scope_at python_kinds 3 3 sample_method
     \<and> row_span sample_method = 2"
  using find_innermost_scope_exact [OF sample_tree_nested, of 3 3 python_kinds]
  by (simp add: sample_tree_search) (simp add: row_span_def sample_method_def)

section \<open>What the extension changes\<close>

definition encloses :: "scope_context \<Rightarrow> hunk \<Rightarrow> bool" where
  "encloses ctx h \<longleftrightarrow>
     sc_start_line ctx \<le> fst (new_line_range h) \<and> snd (new_line_range h) \<le> sc_end_line ctx"

definition erase_scope :: "hunk \<Rightarrow> hunk" where
  "erase_scope h = h\<lparr>enclosing_scope := None\<rparr>"

definition erase_scopes :: "patch_file \<Rightarrow> patch_file" where
  "erase_scopes p = p\<lparr>hunks := map erase_scope (hunks p)\<rparr>"

lemma hunk_rows_ranges:
  "hunk_rows h = (fst (new_line_range h) - 1, snd (new_line_range h) - 1)"
  by (simp add: hunk_rows_def new_line_range_def Let_def)

lemma hunk_scope_encloses:
  "hunk_scope lang root ls h = Some ctx \<Longrightarrow> encloses ctx h \<and> sc_language ctx = lang"
  by (auto simp: hunk_scope_def encloses_def build_scope_context_def hunk_rows_ranges scope_at_def
      split: option.splits dest!: find_innermost_sound)

lemma erase_set_scope [simp]: "erase_scope (set_scope lang root ls h) = erase_scope h"
  by (simp add: set_scope_def erase_scope_def split: option.split)

lemma set_scope_cases:
  "set_scope lang root ls h = h \<or>
     (\<exists>ctx. enclosing_scope (set_scope lang root ls h) = Some ctx \<and> encloses ctx h \<and> sc_language ctx = lang)"
  by (auto simp: set_scope_def dest: hunk_scope_encloses split: option.split)

text \<open>What one turn of the loop does to a patch.\<close>

definition extended_from :: "patch_file \<Rightarrow> patch_file \<Rightarrow> bool" where
  "extended_from p p' \<longleftrightarrow>
     erase_scopes p' = erase_scopes p
     \<and> (is_binary p \<or> is_deleted_file p \<or> detect_language (patch_path p) = None \<longrightarrow> p' = p)
     \<and> list_all2 (\<lambda>h h'. h' = h \<or>
         (\<exists>ctx. enclosing_scope h' = Some ctx \<and> encloses ctx h
            \<and> Some (sc_language ctx) = detect_language (patch_path p)))
       (hunks p) (hunks p')"

lemma extended_from_refl: "extended_from p p"
  by (simp add: extended_from_def list_all2_same)

lemma extended_from_set_scope:
  assumes "\<not> is_binary p" "\<not> is_deletion p" "detect_language (patch_path p) = Some lang"
  shows "extended_from p (p\<lparr>hunks := map (set_scope lang root ls) (hunks p)\<rparr>)"
proof -
  have "erase_scopes (p\<lparr>hunks := map (set_scope lang root ls) (hunks p)\<rparr>) = erase_scopes p"
    by (simp add: erase_scopes_def o_def)
  moreover have "list_all2 (\<lambda>h h'. h' = h \<or> (\<exists>ctx. enclosing_scope h' = Some ctx \<and> encloses ctx h
        \<and> Some (sc_language ctx) = Some lang)) (hunks p) (map (set_scope lang root ls) (hunks p))"
    using set_scope_cases [of lang root ls] by (simp add: list_all2_map2 list_all2_same)
  ultimately show ?thesis using assms by (simp add: extended_from_def is_deletion_def)
qed

lemma case_sum_Inr:
  "(case x of Inl e \<Rightarrow> Inr p | Inr r \<Rightarrow> Inr (g r)) = Inr p' \<Longrightarrow> (p' = p \<Longrightarrow> R) \<Longrightarrow> (\<And>r. p' = g r \<Longrightarrow> R) \<Longrightarrow> R"
  by (cases x) auto

lemma extend_patch_extended:
  "extend_patch imp prs getter p = Inr p' \<Longrightarrow> extended_from p p'"
  by (auto simp: extend_patch_def extended_from_refl extended_from_set_scope
      split: if_split_asm option.split_asm elim!: case_sum_Inr)

lemma extend_hunks_extended:
  assumes "extend_hunks_with_ast import_grammar ts_parse getter patches = Inr patches'"
  shows "list_all2 extended_from patches patches'"
  using assms unfolding extend_hunks_with_ast_def
  by (induction patches arbitrary: patches') (auto dest: extend_patch_extended)

text \<open>
  Claim C12.  Extending the hunks changes nothing but their scopes.  When
  \<open>extend_hunks_with_ast\<close> returns, it returns the same patches in the same order; binary patches,
  deleted files and files without a known extension are untouched; and a hunk whose scope was
  set has a scope in the language of the file whose lines \<open>start_line .. end_line\<close> enclose the
  hunk's \<open>new_line_range\<close>.  Grammars, the parser and the getter are arbitrary, failing ones included.
\<close>

theorem extend_hunks_only_scopes:
  assumes "extend_hunks_with_ast import_grammar ts_parse getter patches = Inr patches'"
  shows "list_all2 extended_from patches patches'"
  using assms by (rule extend_hunks_extended)

definition sample_ast_patch :: patch_file where
  "sample_ast_patch = \<lparr>old_path = Some (u ''job.py''), new_path = Some (u ''job.py''),
     hunks = [\<lparr>old_start = 4, old_count = 1, new_start = 4, new_count = 1, hunk_lines = [],
               section_header = [], enclosing_scope = None\<rparr>], is_binary = False\<rparr>"

lemma sample_detect: "detect_language (u ''job.py'') = Some (u ''python'')"
  by (simp add: detect_language_def path_suffix_def path_parts_def ascii_lower_def
      ext_to_language_def Let_def)

definition sample_ast_result :: patch_file where
  "sample_ast_result = sample_ast_patch\<lparr>hunks := [(hd (hunks sample_ast_patch))\<lparr>enclosing_scope :=
     Some \<lparr>sc_kind = u ''function'', sc_name = u ''run'', sc_signature = [], sc_start_line = 3,
       sc_end_line = 5, sc_language = u ''python''\<rparr>\<rparr>]\<rparr>"

lemma sample_extended:
  "extend_hunks_with_ast (\<lambda>m a. Inr ()) (\<lambda>l b. Inr sample_tree) (\<lambda>p. Inr (Some (Source_Bytes [])))
     [sample_ast_patch] = Inr [sample_ast_result]"
proof -
  have cfg: "map_of language_configs (u ''python'') = Some (u ''tree_sitter_python'', python_kinds, [u ''body''])"
    by (simp add: language_configs_def python_kinds_def)
  have ctx: "build_scope_context sample_method [] (u ''python'')
    = \<lparr>sc_kind = u ''function'', sc_name = u ''run'', sc_signature = [], sc_start_line = 3,
         sc_end_line = 5, sc_language = u ''python''\<rparr>"
    by (simp add: build_scope_context_def sample_method_def kind_map_def extract_name_node
        child_by_field_name_def extract_signature_def body_child_def cfg [simplified] Let_def join_def
        utf8_decode.simps)
  show ?thesis
    using sample_tree_search ctx
    by (simp add: extend_hunks_with_ast_def extend_patch_def sample_ast_patch_def
        sample_ast_result_def is_deletion_def
        is_deleted_file_def patch_path_def sample_detect [simplified] load_language_def source_bytes_def
        set_scope_def hunk_scope_def hunk_rows_def cfg [simplified] Let_def)
qed

theorem extend_hunks_only_scopes_witness:
  "extend_hunks_with_ast (\<lambda>m a. Inr ()) (\<lambda>l b. Inr sample_tree)
       (\<lambda>p. Inr (Some (Source_Bytes []))) [sample_ast_patch] = Inr [sample_ast_result]
     \<and> list_all2 extended_from [sample_ast_patch] [sample_ast_result]
     \<and> sample_ast_result \<noteq> sample_ast_patch"
  using sample_extended extend_hunks_only_scopes [OF sample_extended]
  by (simp add: sample_ast_result_def sample_ast_patch_def)

section \<open>Signatures and kinds\<close>

text \<open>
  The signature is taken from the rows before the body, so it is empty whenever the body opens on
  the row where the declaration starts, which is the usual style of the brace languages.
\<close>

lemma signature_empty_same_row:
  "body_child (case map_of language_configs lang of Some (_, _, fs) \<Rightarrow> fs | None \<Rightarrow> [u ''body'']) n = Some b
     \<Longrightarrow> ts_start_row b = ts_start_row n \<Longrightarrow> extract_signature n ls lang = []"
  by (simp add: extract_signature_def Let_def join_def)

definition sample_js_function :: ts_node where
  "sample_js_function = Ts_Node (u ''function_declaration'') 0 2 None
     [(Some (u ''name''), Ts_Node (u ''identifier'') 0 0 (Some (map of_char ''f'')) []),
      (Some (u ''body''), Ts_Node (u ''statement_block'') 0 2 None [])]"

lemma js_signature_empty:
  "extract_signature sample_js_function [map of_char ''function f() {'', map of_char ''}''] (u ''javascript'') = []"
  by (rule signature_empty_same_row)
    (auto simp: language_configs_def sample_js_function_def body_child_def child_by_field_name_def)

text \<open>A decorated class is reported as a function: the kind of the wrapper is not looked through.\<close>

lemma decorated_kind:
  "sc_kind (build_scope_context (Ts_Node (u ''decorated_definition'') r e t kids) ls lang) = u ''function''"
  by (simp add: build_scope_context_def kind_map_def)

end
