(* ===== verification/Latest_Wins.thy ===== *)
theory Latest_Wins
  imports Kenjutsu_Prelude
begin

text \<open>
  The contract three components share: work is admitted under a key, and the latest admission
  for a key is the only live one.  The supersession of review records, the registry of cancel
  events and the debounce timers each provide it (\<open>Supersession\<close>, \<open>Work_Queue\<close>, \<open>Debounce\<close>).

  \<open>live s k\<close> are the holders that are live under key \<open>k\<close>, \<open>admit k x s\<close> admits the request
  \<open>x\<close>, \<open>holder k x s\<close> is what the request then holds, \<open>ok k x s\<close> what the provider asks of a
  request (an identifier that is not in use, for instance).
\<close>

text \<open>
  A sequence of requests, each with its key: run one after the other, the condition that each
  is acceptable when its turn comes, and the holder of the last request for a key (\<open>d\<close> when
  there is none).
\<close>

primrec admit_all :: "('k \<Rightarrow> 'x \<Rightarrow> 's \<Rightarrow> 's) \<Rightarrow> ('k \<times> 'x) list \<Rightarrow> 's \<Rightarrow> 's" where
  "admit_all admit [] s = s"
| "admit_all admit (r # rs) s = admit_all admit rs (admit (fst r) (snd r) s)"

primrec all_ok :: "('k \<Rightarrow> 'x \<Rightarrow> 's \<Rightarrow> bool) \<Rightarrow> ('k \<Rightarrow> 'x \<Rightarrow> 's \<Rightarrow> 's) \<Rightarrow> ('k \<times> 'x) list \<Rightarrow> 's \<Rightarrow> bool"
where
  "all_ok ok admit [] s = True"
| "all_ok ok admit (r # rs) s =
     (ok (fst r) (snd r) s \<and> all_ok ok admit rs (admit (fst r) (snd r) s))"

primrec last_holder :: "('k \<Rightarrow> 'x \<Rightarrow> 's \<Rightarrow> 'h) \<Rightarrow> ('k \<Rightarrow> 'x \<Rightarrow> 's \<Rightarrow> 's) \<Rightarrow> 'k \<Rightarrow> ('k \<times> 'x) list \<Rightarrow> 's
  \<Rightarrow> 'h set \<Rightarrow> 'h set" where
  "last_holder holder admit k [] s d = d"
| "last_holder holder admit k (r # rs) s d =
     last_holder holder admit k rs (admit (fst r) (snd r) s)
       (if fst r = k then {holder (fst r) (snd r) s} else d)"

locale latest_wins =
  fixes inv :: "'s \<Rightarrow> bool"
    and live :: "'s \<Rightarrow> 'k \<Rightarrow> 'h set"
    and admit :: "'k \<Rightarrow> 'x \<Rightarrow> 's \<Rightarrow> 's"
    and holder :: "'k \<Rightarrow> 'x \<Rightarrow> 's \<Rightarrow> 'h"
    and ok :: "'k \<Rightarrow> 'x \<Rightarrow> 's \<Rightarrow> bool"
  assumes admit_inv: "inv s \<Longrightarrow> ok k x s \<Longrightarrow> inv (admit k x s)"
    and admit_live: "inv s \<Longrightarrow> ok k x s \<Longrightarrow> live (admit k x s) k = {holder k x s}"
    and admit_frame: "inv s \<Longrightarrow> ok k x s \<Longrightarrow> k' \<noteq> k \<Longrightarrow> live (admit k x s) k' = live s k'"
begin

lemma admit_all_inv: "inv s \<Longrightarrow> all_ok ok admit rs s \<Longrightarrow> inv (admit_all admit rs s)"
  by (induction rs arbitrary: s) (auto intro: admit_inv)

lemma live_admit_all:
  "inv s \<Longrightarrow> all_ok ok admit rs s \<Longrightarrow> live (admit_all admit rs s) k = last_holder holder admit k rs s (live s k)"
  by (induction rs arbitrary: s) (auto simp: admit_live admit_frame admit_inv)

definition single :: "'s \<Rightarrow> bool" where
  "single s \<longleftrightarrow> (\<forall>k. \<exists>h. live s k \<subseteq> {h})"

lemma single_admit: "inv s \<Longrightarrow> ok k x s \<Longrightarrow> single s \<Longrightarrow> single (admit k x s)"
  unfolding single_def by (metis admit_frame admit_live order_refl)

lemma single_admit_all: "inv s \<Longrightarrow> all_ok ok admit rs s \<Longrightarrow> single s \<Longrightarrow> single (admit_all admit rs s)"
  by (induction rs arbitrary: s) (auto intro: single_admit admit_inv)

text \<open>A holder that was live and no longer is has been displaced by a later request of its key.\<close>

lemma displaced:
  assumes "inv s" "ok k x s" "h \<in> live s k'" "h \<notin> live (admit k x s) k'"
  shows "k' = k"
  using assms admit_frame by metis

end

end
