(* ===== verification/Supersession.thy ===== *)
theory Supersession
  imports Latest_Wins
begin

text \<open>
  Review records and their supersession (\<^verbatim>\<open>kenjutsu/models/reviews.py\<close> and
  \<^verbatim>\<open>kenjutsu/pipeline/supersession.py\<close>).  The list of reviews the code mutates in place is
  returned updated.
\<close>

section \<open>Review records\<close>

datatype review_status = QUEUED | PROCESSING | COMPLETE | FAILED | ABORTED | SUPERSEDED

definition is_canonical :: "review_status \<Rightarrow> bool" where
  "is_canonical s \<longleftrightarrow> \<not> (s = SUPERSEDED \<or> s = ABORTED \<or> s = FAILED)"

record review =
  rv_id :: pystr
  rv_repo_id :: pystr
  rv_pr_number :: int
  rv_head_sha :: pystr
  rv_status :: review_status
  rv_superseded_by :: "pystr option"

text \<open>\<open>Review(id, repo_id, pr_number, head_sha)\<close> with the defaults of the constructor.\<close>

definition new_review :: "pystr \<Rightarrow> pystr \<Rightarrow> int \<Rightarrow> pystr \<Rightarrow> review" where
  "new_review i repo pr sha = \<lparr>rv_id = i, rv_repo_id = repo, rv_pr_number = pr, rv_head_sha = sha,
     rv_status = QUEUED, rv_superseded_by = None\<rparr>"

section \<open>Supersession\<close>

fun supersede_previous_reviews :: "review list \<Rightarrow> pystr \<Rightarrow> pystr \<Rightarrow> int \<Rightarrow> review list" where
  "supersede_previous_reviews [] new_review_id repo_id pr_number = []"
| "supersede_previous_reviews (review # reviews) new_review_id repo_id pr_number =
     (if rv_id review = new_review_id then review
      else if rv_repo_id review \<noteq> repo_id \<or> rv_pr_number review \<noteq> pr_number then review
      else if is_canonical (rv_status review)
           then review\<lparr>rv_status := SUPERSEDED, rv_superseded_by := Some new_review_id\<rparr>
      else review)
     # supersede_previous_reviews reviews new_review_id repo_id pr_number"

fun ensure_unique_canonical :: "review list \<Rightarrow> pystr \<Rightarrow> int \<Rightarrow> pystr \<Rightarrow> review option" where
  "ensure_unique_canonical [] repo_id pr_number head_sha = None"
| "ensure_unique_canonical (review # reviews) repo_id pr_number head_sha =
     (if rv_repo_id review = repo_id \<and> rv_pr_number review = pr_number
         \<and> rv_head_sha review = head_sha \<and> is_canonical (rv_status review)
      then Some review
      else ensure_unique_canonical reviews repo_id pr_number head_sha)"

section \<open>What the two functions promise\<close>

text \<open>The canonical reviews of a pull request.\<close>

definition canonical_for :: "review list \<Rightarrow> pystr \<times> int \<Rightarrow> review set" where
  "canonical_for rs k = {r \<in> set rs. rv_repo_id r = fst k \<and> rv_pr_number r = snd k
     \<and> is_canonical (rv_status r)}"

definition distinct_ids :: "review list \<Rightarrow> bool" where
  "distinct_ids rs = distinct (map rv_id rs)"

lemma supersede_length [simp]: "length (supersede_previous_reviews rs i repo pr) = length rs"
  by (induction rs) simp_all

lemma supersede_ids [simp]: "map rv_id (supersede_previous_reviews rs i repo pr) = map rv_id rs"
  by (induction rs) simp_all

lemma supersede_append [simp]:
  "supersede_previous_reviews (rs @ ss) i repo pr =
     supersede_previous_reviews rs i repo pr @ supersede_previous_reviews ss i repo pr"
  by (induction rs) simp_all

definition displaced_by :: "pystr \<Rightarrow> pystr \<Rightarrow> int \<Rightarrow> review \<Rightarrow> bool" where
  "displaced_by i repo pr r \<longleftrightarrow> rv_id r \<noteq> i \<and> rv_repo_id r = repo \<and> rv_pr_number r = pr
     \<and> is_canonical (rv_status r)"

definition supersede_one :: "pystr \<Rightarrow> pystr \<Rightarrow> int \<Rightarrow> review \<Rightarrow> review" where
  "supersede_one i repo pr r =
     (if displaced_by i repo pr r
      then r\<lparr>rv_status := SUPERSEDED, rv_superseded_by := Some i\<rparr> else r)"

lemma supersede_map: "supersede_previous_reviews rs i repo pr = map (supersede_one i repo pr) rs"
  by (induction rs) (auto simp: supersede_one_def displaced_by_def)

lemma supersede_one_canonical:
  "is_canonical (rv_status (supersede_one i repo pr r)) \<longleftrightarrow>
     is_canonical (rv_status r) \<and> \<not> displaced_by i repo pr r"
  by (auto simp: supersede_one_def is_canonical_def)

lemma supersede_canonical:
  "canonical_for (supersede_previous_reviews rs i repo pr) k =
     (if k = (repo, pr) then {r \<in> canonical_for rs k. rv_id r = i} else canonical_for rs k)"
proof -
  have "canonical_for (supersede_previous_reviews rs i repo pr) k
      = {r \<in> canonical_for rs k. \<not> displaced_by i repo pr r}"
    unfolding supersede_map canonical_for_def
    using supersede_one_canonical by (force simp: supersede_one_def)
  also have "\<dots> = (if k = (repo, pr) then {r \<in> canonical_for rs k. rv_id r = i}
      else canonical_for rs k)"
    by (cases k) (auto simp: canonical_for_def displaced_by_def)
  finally show ?thesis .
qed

text \<open>
  Superseding is exact, review by review: the positions, ids, pull requests and
  commits stay; the new review, reviews of other pull requests and reviews that are no longer
  canonical are untouched; every other review of the pull request becomes \<open>SUPERSEDED\<close> and
  points to the new one.  Doing it twice changes nothing more.
\<close>

theorem supersede_exact:
  "list_all2 (\<lambda>r r'.
       r' = (if rv_id r \<noteq> i \<and> rv_repo_id r = repo \<and> rv_pr_number r = pr
                \<and> is_canonical (rv_status r)
             then r\<lparr>rv_status := SUPERSEDED, rv_superseded_by := Some i\<rparr> else r))
     rs (supersede_previous_reviews rs i repo pr)
   \<and> supersede_previous_reviews (supersede_previous_reviews rs i repo pr) i repo pr
       = supersede_previous_reviews rs i repo pr"
  by (induction rs) (auto simp: is_canonical_def)

lemma ensure_unique_canonical_Some:
  "ensure_unique_canonical rs repo pr sha = Some r \<Longrightarrow>
     r \<in> canonical_for rs (repo, pr) \<and> rv_head_sha r = sha"
  by (induction rs) (auto simp: canonical_for_def split: if_splits)

lemma ensure_unique_canonical_None:
  "ensure_unique_canonical rs repo pr sha = None \<longleftrightarrow>
     (\<forall>r \<in> canonical_for rs (repo, pr). rv_head_sha r \<noteq> sha)"
  by (induction rs) (auto simp: canonical_for_def)

section \<open>Admission of a review\<close>

text \<open>
  What the documentation tells the caller to do for a new review: skip it when a canonical one
  exists for the same commit, append it otherwise, and supersede the earlier ones.
\<close>

definition admit_review :: "pystr \<times> int \<Rightarrow> pystr \<times> pystr \<Rightarrow> review list \<Rightarrow> review list" where
  "admit_review k x rs =
     (case ensure_unique_canonical rs (fst k) (snd k) (snd x) of
        Some _ \<Rightarrow> rs
      | None \<Rightarrow> supersede_previous_reviews
          (rs @ [new_review (fst x) (fst k) (snd k) (snd x)]) (fst x) (fst k) (snd k))"

definition fresh_review :: "pystr \<times> int \<Rightarrow> pystr \<times> pystr \<Rightarrow> review list \<Rightarrow> bool" where
  "fresh_review k x rs \<longleftrightarrow> fst x \<notin> set (map rv_id rs)
     \<and> ensure_unique_canonical rs (fst k) (snd k) (snd x) = None"

definition holder_review :: "pystr \<times> int \<Rightarrow> pystr \<times> pystr \<Rightarrow> review list \<Rightarrow> review" where
  "holder_review k x rs = new_review (fst x) (fst k) (snd k) (snd x)"

interpretation reviews: latest_wins
  distinct_ids canonical_for admit_review
  holder_review fresh_review
proof unfold_locales
  fix rs :: "review list" and k :: "pystr \<times> int" and x :: "pystr \<times> pystr"
  assume ok: "distinct_ids rs" "fresh_review k x rs"
  let ?new = "new_review (fst x) (fst k) (snd k) (snd x)"
  have admit: "admit_review k x rs =
      supersede_previous_reviews (rs @ [?new]) (fst x) (fst k) (snd k)"
    using ok(2) by (simp add: admit_review_def fresh_review_def)
  show "distinct_ids (admit_review k x rs)"
    using ok unfolding admit distinct_ids_def supersede_ids
    by (auto simp: fresh_review_def new_review_def)
  show "canonical_for (admit_review k x rs) k = {holder_review k x rs}"
    using ok(2) unfolding admit supersede_canonical
    by (auto simp: canonical_for_def fresh_review_def new_review_def is_canonical_def
        holder_review_def image_iff)
  show "canonical_for (admit_review k x rs) k' = canonical_for rs k'" if "k' \<noteq> k" for k'
    using that unfolding admit supersede_canonical
    by (cases k; cases k') (auto simp: canonical_for_def new_review_def)
qed

text \<open>
  Claim C13.  At most one canonical review per pull request: admitting any sequence of reviews
  with unused ids keeps it so, and the canonical review of a pull request is then the last one
  admitted for it.
\<close>

theorem at_most_one_canonical:
  assumes "distinct_ids rs" and "\<forall>k. \<exists>r. canonical_for rs k \<subseteq> {r}" and "all_ok fresh_review admit_review reqs rs"
  shows "(\<forall>k. \<exists>r. canonical_for (admit_all admit_review reqs rs) k \<subseteq> {r})
    \<and> canonical_for (admit_all admit_review reqs rs) k
        = last_holder holder_review admit_review k reqs rs (canonical_for rs k)"
  using reviews.single_admit_all [OF assms(1,3)] reviews.live_admit_all [OF assms(1,3)] assms(2)
  by (simp add: reviews.single_def)

theorem at_most_one_canonical_witness:
  "canonical_for (admit_all admit_review
       [((u ''r'', 1), (u ''a'', u ''s1'')), ((u ''r'', 1), (u ''b'', u ''s2''))] []) (u ''r'', 1)
     = {new_review (u ''b'') (u ''r'') 1 (u ''s2'')}"
proof -
  let ?reqs = "[((u ''r'', 1), (u ''a'', u ''s1'')), ((u ''r'', 1), (u ''b'', u ''s2''))]"
  have "all_ok fresh_review admit_review ?reqs []"
    by (simp add: fresh_review_def admit_review_def new_review_def is_canonical_def)
  moreover have "distinct_ids []" "\<forall>k. \<exists>r. canonical_for [] k \<subseteq> {r}"
    by (simp_all add: distinct_ids_def canonical_for_def)
  ultimately show ?thesis
    using at_most_one_canonical [of "[]" ?reqs "(u ''r'', 1)"] by (simp add: holder_review_def)
qed

text \<open>
  The database contract quoted by the module excludes only superseded and aborted rows.  A
  failed review is not canonical, so the lookup lets a second row of the same commit in, which
  that constraint rejects.
\<close>

lemma failed_review_breaks_unique_index:
  "let failed = new_review (u ''a'') (u ''r'') 1 (u ''s'')\<lparr>rv_status := FAILED\<rparr>;
       rs = admit_review (u ''r'', 1) (u ''b'', u ''s'') [failed]
   in length (filter (\<lambda>r. rv_repo_id r = u ''r'' \<and> rv_pr_number r = 1 \<and> rv_head_sha r = u ''s''
        \<and> rv_status r \<noteq> SUPERSEDED \<and> rv_status r \<noteq> ABORTED) rs) = 2"
  by (simp add: admit_review_def new_review_def is_canonical_def)

end
