(* ===== verification/Sha256.thy ===== *)
theory Sha256
  imports Kenjutsu_Prelude "HOL-Library.Word"
begin

unbundle bit_operations_syntax

text \<open>
  \<open>hashlib.sha256\<close> and \<open>hmac.new(..., sha256)\<close>, after FIPS 180-4 and RFC 2104: the program
  takes finding fingerprints and webhook signatures from them.  Bytes are natural numbers; words
  have 32 bits and their sums wrap around.
\<close>

section \<open>SHA-256\<close>

definition sha_k :: "32 word list" where
  "sha_k = [
     1116352408, 1899447441, 3049323471, 3921009573, 961987163, 1508970993, 2453635748, 2870763221,
     3624381080, 310598401, 607225278, 1426881987, 1925078388, 2162078206, 2614888103, 3248222580,
     3835390401, 4022224774, 264347078, 604807628, 770255983, 1249150122, 1555081692, 1996064986,
     2554220882, 2821834349, 2952996808, 3210313671, 3336571891, 3584528711, 113926993, 338241895,
     666307205, 773529912, 1294757372, 1396182291, 1695183700, 1986661051, 2177026350, 2456956037,
     2730485921, 2820302411, 3259730800, 3345764771, 3516065817, 3600352804, 4094571909, 275423344,
     430227734, 506948616, 659060556, 883997877, 958139571, 1322822218, 1537002063, 1747873779,
     1955562222, 2024104815, 2227730452, 2361852424, 2428436474, 2756734187, 3204031479, 3329325298]"

datatype sha_state = Sha_State
  "32 word" "32 word" "32 word" "32 word" "32 word" "32 word" "32 word" "32 word"

definition sha_init :: sha_state where
  "sha_init = Sha_State 1779033703 3144134277 1013904242 2773480762
     1359893119 2600822924 528734635 1541459225"

definition small_sigma0 :: "32 word \<Rightarrow> 32 word" where
  "small_sigma0 x = word_rotr 7 x XOR word_rotr 18 x XOR drop_bit 3 x"

definition small_sigma1 :: "32 word \<Rightarrow> 32 word" where
  "small_sigma1 x = word_rotr 17 x XOR word_rotr 19 x XOR drop_bit 10 x"

definition big_sigma0 :: "32 word \<Rightarrow> 32 word" where
  "big_sigma0 x = word_rotr 2 x XOR word_rotr 13 x XOR word_rotr 22 x"

definition big_sigma1 :: "32 word \<Rightarrow> 32 word" where
  "big_sigma1 x = word_rotr 6 x XOR word_rotr 11 x XOR word_rotr 25 x"

fun sha_round :: "sha_state \<Rightarrow> 32 word \<times> 32 word \<Rightarrow> sha_state" where
  "sha_round (Sha_State a b c d e f g h) (k, w) =
     (let t1 = h + big_sigma1 e + ((e AND f) XOR (NOT e AND g)) + k + w;
          t2 = big_sigma0 a + ((a AND b) XOR (a AND c) XOR (b AND c))
      in Sha_State (t1 + t2) a b c (d + t1) e f g)"

fun sha_add :: "sha_state \<Rightarrow> sha_state \<Rightarrow> sha_state" where
  "sha_add (Sha_State a b c d e f g h) (Sha_State a' b' c' d' e' f' g' h') =
     Sha_State (a + a') (b + b') (c + c') (d + d') (e + e') (f + f') (g + g') (h + h')"

definition be_word :: "pybytes \<Rightarrow> 32 word" where
  "be_word bs = of_nat (foldl (\<lambda>n b. 256 * n + b) 0 bs)"

text \<open>The message schedule: the sixteen words of the block, extended to 64.\<close>

definition sha_schedule :: "pybytes \<Rightarrow> 32 word list" where
  "sha_schedule block =
     foldl (\<lambda>w t. w @ [small_sigma1 (w ! (t - 2)) + w ! (t - 7) + small_sigma0 (w ! (t - 15)) + w ! (t - 16)])
       (map (\<lambda>i. be_word (take 4 (drop (4 * i) block))) [0..<16]) [16..<64]"

definition sha_block :: "sha_state \<Rightarrow> pybytes \<Rightarrow> sha_state" where
  "sha_block st block = sha_add st (foldl sha_round st (zip sha_k (sha_schedule block)))"

fun be_bytes :: "nat \<Rightarrow> nat \<Rightarrow> pybytes" where
  "be_bytes 0 n = []"
| "be_bytes (Suc k) n = be_bytes k (n div 256) @ [n mod 256]"

definition sha_pad :: "pybytes \<Rightarrow> pybytes" where
  "sha_pad m = m @ [0x80] @ replicate ((119 - length m mod 64) mod 64) 0 @ be_bytes 8 (8 * length m)"

definition sha_blocks :: "pybytes \<Rightarrow> pybytes list" where
  "sha_blocks m = map (\<lambda>i. take 64 (drop (64 * i) m)) [0..<length m div 64]"

fun sha_output :: "sha_state \<Rightarrow> pybytes" where
  "sha_output (Sha_State a b c d e f g h) = concat (map (\<lambda>x. be_bytes 4 (unat x)) [a, b, c, d, e, f, g, h])"

definition sha256 :: "pybytes \<Rightarrow> pybytes" where
  "sha256 m = sha_output (foldl sha_block sha_init (sha_blocks (sha_pad m)))"

definition hex_digit :: "nat \<Rightarrow> pychar" where
  "hex_digit d = (if d < 10 then 48 + d else 87 + d)"

definition hexdigest :: "pybytes \<Rightarrow> pystr" where
  "hexdigest bs = concat (map (\<lambda>b. [hex_digit (b div 16), hex_digit (b mod 16)]) bs)"

section \<open>HMAC\<close>

definition xor_pad :: "nat \<Rightarrow> pybytes \<Rightarrow> pybytes" where
  "xor_pad x key = map (\<lambda>b. unat ((of_nat b :: 8 word) XOR of_nat x)) key"

definition hmac_sha256 :: "pybytes \<Rightarrow> pybytes \<Rightarrow> pybytes" where
  "hmac_sha256 key msg =
     (let k0 = (if length key > 64 then sha256 key else key);
          k = k0 @ replicate (64 - length k0) 0
      in sha256 (xor_pad 0x5c k @ sha256 (xor_pad 0x36 k @ msg)))"

section \<open>Facts\<close>

lemma length_be_bytes [simp]: "length (be_bytes k n) = k"
  by (induction k arbitrary: n) simp_all

lemma be_bytes_range: "\<forall>b \<in> set (be_bytes k n). b < 256"
  by (induction k arbitrary: n) auto

lemma sha_pad_multiple: "64 dvd length (sha_pad m)"
proof -
  define q r where "q = length m div 64" and "r = length m mod 64"
  have r: "r < 64" and m: "length m = 64 * q + r"
    by (simp_all add: q_def r_def)
  have "(119 - r) mod 64 = (if r < 56 then 55 - r else 119 - r)"
    using r by (auto simp: mod_if)
  then have "length (sha_pad m) = 64 * (q + (if r < 56 then 1 else 2))"
    using m r by (simp add: sha_pad_def flip: r_def)
  then show ?thesis by simp
qed

lemma length_sha256 [simp]: "length (sha256 m) = 32"
  by (cases "foldl sha_block sha_init (sha_blocks (sha_pad m))") (simp add: sha256_def)

lemma sha256_range: "\<forall>b \<in> set (sha256 m). b < 256"
  by (cases "foldl sha_block sha_init (sha_blocks (sha_pad m))")
    (use be_bytes_range in \<open>auto simp: sha256_def\<close>)

definition is_hex :: "pystr \<Rightarrow> bool" where
  "is_hex s \<longleftrightarrow> (\<forall>c \<in> set s. (48 \<le> c \<and> c \<le> 57) \<or> (97 \<le> c \<and> c \<le> 102))"

lemma hex_digit_range: "d < 16 \<Longrightarrow> is_hex [hex_digit d]"
  by (auto simp: hex_digit_def is_hex_def)

lemma is_hex_hexdigest: "\<forall>b \<in> set bs. b < 256 \<Longrightarrow> is_hex (hexdigest bs)"
proof (induction bs)
  case (Cons b bs)
  then have "is_hex [hex_digit (b div 16)]" "is_hex [hex_digit (b mod 16)]" "is_hex (hexdigest bs)"
    by (auto intro!: hex_digit_range)
  then show ?case by (auto simp: hexdigest_def is_hex_def)
qed (simp add: hexdigest_def is_hex_def)

lemma length_hexdigest [simp]: "length (hexdigest bs) = 2 * length bs"
  by (induction bs) (simp_all add: hexdigest_def)

lemma hex_digit_inj: "d < 16 \<Longrightarrow> e < 16 \<Longrightarrow> hex_digit d = hex_digit e \<longleftrightarrow> d = e"
  by (auto simp: hex_digit_def split: if_splits)

lemma hexdigest_inj:
  "\<forall>b \<in> set bs. b < 256 \<Longrightarrow> \<forall>c \<in> set cs. c < 256 \<Longrightarrow> hexdigest bs = hexdigest cs \<longleftrightarrow> bs = cs"
proof (induction bs arbitrary: cs)
  case Nil
  then show ?case by (cases cs) (auto simp: hexdigest_def)
next
  case (Cons b bs)
  show ?case
  proof (cases cs)
    case (Cons c ds)
    have "b = c" if "b div 16 = c div 16" "b mod 16 = c mod 16"
      using that by (metis div_mult_mod_eq)
    with Cons "Cons.IH" [of ds] "Cons.prems" show ?thesis
      by (auto simp: hexdigest_def hex_digit_inj)
  qed (simp add: hexdigest_def)
qed

lemma length_hmac [simp]: "length (hmac_sha256 k m) = 32"
  by (simp add: hmac_sha256_def Let_def)

lemma hmac_range: "\<forall>b \<in> set (hmac_sha256 k m). b < 256"
  by (simp add: hmac_sha256_def Let_def sha256_range)

end
