(* ===== verification/Findings.thy ===== *)
theory Findings
  imports Py_Utf8 Sha256
begin

text \<open>
  The finding model with its signal taxonomy and its fingerprint
  (\<^verbatim>\<open>kenjutsu/models/findings.py\<close>).  \<open>str.lower\<close> is the parameter \<open>lower\<close>: no property
  depends on what it does.
\<close>

datatype origin = DETERMINISTIC | GRAPH | LLM | PREDICTIVE
datatype confidence = VERIFIED | HIGH | MEDIUM | LOW
datatype severity = CRITICAL | WARNING | SUGGESTION
datatype category =
  BUG | SECURITY | BREAKING_CHANGE | PERFORMANCE | MISSING_TEST | CO_CHANGE | STALE_DOC | STYLE
datatype publishability = PUBLISH | REDACT_AND_PUBLISH | SUPPRESS | AUDIT_ONLY

fun category_value :: "category \<Rightarrow> pystr" where
  "category_value BUG = u ''bug''"
| "category_value SECURITY = u ''security''"
| "category_value BREAKING_CHANGE = u ''breaking-change''"
| "category_value PERFORMANCE = u ''performance''"
| "category_value MISSING_TEST = u ''missing-test''"
| "category_value CO_CHANGE = u ''co-change''"
| "category_value STALE_DOC = u ''stale-doc''"
| "category_value STYLE = u ''style''"

fun origin_value :: "origin \<Rightarrow> pystr" where
  "origin_value DETERMINISTIC = u ''deterministic''"
| "origin_value GRAPH = u ''graph''"
| "origin_value LLM = u ''llm''"
| "origin_value PREDICTIVE = u ''predictive''"

fun confidence_value :: "confidence \<Rightarrow> pystr" where
  "confidence_value VERIFIED = u ''verified''"
| "confidence_value HIGH = u ''high''"
| "confidence_value MEDIUM = u ''medium''"
| "confidence_value LOW = u ''low''"

fun severity_value :: "severity \<Rightarrow> pystr" where
  "severity_value CRITICAL = u ''critical''"
| "severity_value WARNING = u ''warning''"
| "severity_value SUGGESTION = u ''suggestion''"

fun publishability_value :: "publishability \<Rightarrow> pystr" where
  "publishability_value PUBLISH = u ''publish''"
| "publishability_value REDACT_AND_PUBLISH = u ''redact-and-publish''"
| "publishability_value SUPPRESS = u ''suppress''"
| "publishability_value AUDIT_ONLY = u ''audit-only''"

record finding =
  fd_file_path :: pystr
  fd_line_start :: int
  fd_line_end :: int
  fd_origin :: origin
  fd_confidence :: confidence
  fd_severity :: severity
  fd_category :: category
  fd_publishability :: publishability
  fd_description :: pystr
  fd_suggestion :: "pystr option"
  fd_evidence_sources :: "pystr list"

section \<open>The fingerprint\<close>

definition normalized_description :: "(pystr \<Rightarrow> pystr) \<Rightarrow> finding \<Rightarrow> pystr" where
  "normalized_description lower f = join (u '' '') (split_ws (lower (fd_description f)))"

definition raw_key :: "(pystr \<Rightarrow> pystr) \<Rightarrow> finding \<Rightarrow> pystr" where
  "raw_key lower f =
     fd_file_path f @ u '':'' @ category_value (fd_category f) @ u '':'' @ normalized_description lower f"

definition fingerprint :: "(pystr \<Rightarrow> pystr) \<Rightarrow> finding \<Rightarrow> pystr result" where
  "fingerprint lower f =
     and_then (utf8_encode (raw_key lower f)) (\<lambda>raw. Inr (take 16 (hexdigest (sha256 raw))))"

section \<open>Facts\<close>

lemma category_value_inj [simp]: "category_value a = category_value b \<longleftrightarrow> a = b"
  by (cases a; cases b) simp_all

lemma category_value_plain: "of_char CHR '':'' \<notin> set (category_value c)"
  by (cases c) simp_all

text \<open>Joined words are split back into these words.\<close>

definition is_word :: "pystr \<Rightarrow> bool" where
  "is_word w \<longleftrightarrow> w \<noteq> [] \<and> (\<forall>c \<in> set w. \<not> py_isspace c)"

lemma split_ws_words: "\<forall>w \<in> set (split_ws s). is_word w"
proof (induction s rule: split_ws.induct)
  case (1 s)
  show ?case
  proof (cases "dropWhile py_isspace s = []")
    case False
    moreover have "\<not> py_isspace (hd (dropWhile py_isspace s))"
      using hd_dropWhile [OF False] .
    ultimately have "is_word (takeWhile (\<lambda>c. \<not> py_isspace c) (dropWhile py_isspace s))"
      unfolding is_word_def
      by (cases "dropWhile py_isspace s") (auto dest: set_takeWhileD simp del: dropWhile_eq_Nil_conv)
    with 1 False show ?thesis
      by (subst split_ws.simps) (auto simp: Let_def simp del: dropWhile_eq_Nil_conv)
  qed (subst split_ws.simps, simp add: Let_def del: dropWhile_eq_Nil_conv)
qed

lemma split_ws_word:
  "is_word w \<Longrightarrow> r = [] \<or> py_isspace (hd r) \<Longrightarrow> split_ws (w @ r) = w # split_ws r"
proof -
  assume w: "is_word w" and r: "r = [] \<or> py_isspace (hd r)"
  have d: "dropWhile py_isspace (w @ r) = w @ r"
    using w by (cases w) (auto simp: is_word_def)
  have "takeWhile (\<lambda>c. \<not> py_isspace c) (w @ r) = w" "dropWhile (\<lambda>c. \<not> py_isspace c) (w @ r) = r"
    using w r takeWhile_stop [of w _ r] dropWhile_stop [of w _ r] by (auto simp: is_word_def)
  with d w show ?thesis by (subst split_ws.simps) (simp add: is_word_def)
qed

lemma split_ws_space [simp]: "split_ws (32 # s) = split_ws s"
  by (subst (1 2) split_ws.simps) (simp add: py_isspace_def)

lemma split_ws_Nil [simp]: "split_ws [] = []"
  by (subst split_ws.simps) simp

lemma split_ws_join: "\<forall>w \<in> set ws. is_word w \<Longrightarrow> split_ws (join (u '' '') ws) = ws"
proof (induction ws)
  case (Cons w ws)
  show ?case
  proof (cases ws)
    case Nil
    with Cons.prems split_ws_word [of w "[]"] show ?thesis by (simp add: join_def)
  next
    case (Cons v vs)
    have "join (u '' '') (w # ws) = w @ 32 # join (u '' '') ws"
      by (simp add: join_def Cons)
    with Cons.IH Cons.prems show ?thesis
      by (simp add: split_ws_word py_isspace_def)
  qed
qed (simp add: join_def)

lemma normalized_eq_iff:
  "normalized_description lower f = normalized_description lower g
     \<longleftrightarrow> split_ws (lower (fd_description f)) = split_ws (lower (fd_description g))"
  unfolding normalized_description_def by (metis split_ws_join split_ws_words)

lemma split_at_colon:
  "c \<notin> set p \<Longrightarrow> c \<notin> set q \<Longrightarrow> p @ c # r = q @ c # s \<longleftrightarrow> p = q \<and> r = s"
proof (induction p arbitrary: q)
  case Nil
  then show ?case by (cases q) auto
next
  case (Cons x p)
  then show ?case by (cases q) auto
qed

lemma raw_key_iff:
  assumes "of_char CHR '':'' \<notin> set (fd_file_path f)" "of_char CHR '':'' \<notin> set (fd_file_path g)"
  shows "raw_key lower f = raw_key lower g \<longleftrightarrow>
    fd_file_path f = fd_file_path g \<and> fd_category f = fd_category g
    \<and> split_ws (lower (fd_description f)) = split_ws (lower (fd_description g))"
  using assms category_value_plain [of "fd_category f"] category_value_plain [of "fd_category g"]
  by (simp add: raw_key_def split_at_colon normalized_eq_iff)

definition unicode :: "pystr \<Rightarrow> bool" where
  "unicode s \<longleftrightarrow> (\<forall>c \<in> set s. c < 0x110000)"

lemma utf8_encode_inj:
  "unicode s \<Longrightarrow> unicode t \<Longrightarrow> utf8_encode s = Inr b \<Longrightarrow> utf8_encode t = Inr b \<Longrightarrow> s = t"
  using decode_encode [of s b] decode_encode [of t b] by (simp add: unicode_def)

text \<open>
  The specification: the text that stands for a finding, written out from its file, its category
  and the words of its lowered description.  In files without a colon in the path it determines all three.
\<close>

definition identity_text :: "(pystr \<Rightarrow> pystr) \<Rightarrow> finding \<Rightarrow> pystr" where
  "identity_text lower f = concat [fd_file_path f, u '':'', category_value (fd_category f), u '':'',
     join (u '' '') (split_ws (lower (fd_description f)))]"

lemma raw_key_identity: "raw_key lower f = identity_text lower f"
  by (simp add: raw_key_def identity_text_def normalized_description_def)

definition same_issue :: "(pystr \<Rightarrow> pystr) \<Rightarrow> finding \<Rightarrow> finding \<Rightarrow> bool" where
  "same_issue lower f g \<longleftrightarrow> fd_file_path f = fd_file_path g \<and> fd_category f = fd_category g
     \<and> split_ws (lower (fd_description f)) = split_ws (lower (fd_description g))"

definition colon_free :: "finding \<Rightarrow> bool" where
  "colon_free f \<longleftrightarrow> of_char CHR '':'' \<notin> set (fd_file_path f)"

text \<open>
  Claim C14.  The fingerprint identifies a finding by its file, its category and the words of its
  description.  It is the first 16 hexadecimal digits of SHA-256 of the UTF-8 encoded identity text, and
  raises exactly when this text cannot be encoded.  Findings that agree on file, category and words
  have the same fingerprint, whatever their lines, origin, confidence, severity, suggestion or white
  space.  Findings in files without a colon in the path that do not agree have two different identity
  texts; so if their fingerprints are equal, SHA-256 agrees on the first 64 bits for these two texts.
  (Python strings hold code points only: \<open>unicode\<close>.)
\<close>

theorem fingerprint_identifies:
  "fingerprint lower f = (case utf8_encode (identity_text lower f) of Inl e \<Rightarrow> Inl e
       | Inr bytes \<Rightarrow> Inr (take 16 (hexdigest (sha256 bytes))))
   \<and> (fingerprint lower f = Inr fp \<longrightarrow> length fp = 16 \<and> is_hex fp)
   \<and> (same_issue lower f g \<longrightarrow> fingerprint lower f = fingerprint lower g)
   \<and> (colon_free f \<and> colon_free g \<and> \<not> same_issue lower f g
      \<longrightarrow> identity_text lower f \<noteq> identity_text lower g
        \<and> (unicode (identity_text lower f) \<and> unicode (identity_text lower g)
            \<and> fingerprint lower f = Inr fp \<and> fingerprint lower g = Inr fp \<longrightarrow>
           (\<exists>a b. utf8_encode (identity_text lower f) = Inr a \<and> utf8_encode (identity_text lower g) = Inr b
              \<and> a \<noteq> b \<and> take 16 (hexdigest (sha256 a)) = take 16 (hexdigest (sha256 b)))))"
proof (intro conjI impI)
  show exact: "fingerprint lower f = (case utf8_encode (identity_text lower f) of Inl e \<Rightarrow> Inl e
       | Inr bytes \<Rightarrow> Inr (take 16 (hexdigest (sha256 bytes))))" for f
    by (simp add: fingerprint_def raw_key_identity split: sum.split)
  show "length fp = 16" "is_hex fp" if "fingerprint lower f = Inr fp"
    using that is_hex_hexdigest [OF sha256_range]
    by (auto simp: fingerprint_def is_hex_def dest: in_set_takeD)
  show "fingerprint lower f = fingerprint lower g" if "same_issue lower f g"
    using that normalized_eq_iff [of lower f g] by (simp add: fingerprint_def raw_key_def same_issue_def)
  assume differ: "colon_free f \<and> colon_free g \<and> \<not> same_issue lower f g"
  then show texts: "identity_text lower f \<noteq> identity_text lower g"
    using raw_key_iff [of f g lower] by (simp add: same_issue_def colon_free_def flip: raw_key_identity)
  assume fps: "unicode (identity_text lower f) \<and> unicode (identity_text lower g)
      \<and> fingerprint lower f = Inr fp \<and> fingerprint lower g = Inr fp"
  then obtain a b where "utf8_encode (identity_text lower f) = Inr a" "utf8_encode (identity_text lower g) = Inr b"
    "take 16 (hexdigest (sha256 a)) = take 16 (hexdigest (sha256 b))"
    by (auto simp: exact split: sum.split_asm)
  with fps texts show "\<exists>a b. utf8_encode (identity_text lower f) = Inr a \<and> utf8_encode (identity_text lower g) = Inr b
      \<and> a \<noteq> b \<and> take 16 (hexdigest (sha256 a)) = take 16 (hexdigest (sha256 b))"
    using utf8_encode_inj by blast
qed

definition sample_finding :: finding where
  "sample_finding = \<lparr>fd_file_path = u ''a.py'', fd_line_start = 3, fd_line_end = 3, fd_origin = LLM,
     fd_confidence = HIGH, fd_severity = WARNING, fd_category = BUG, fd_publishability = PUBLISH,
     fd_description = u ''Off  by one'', fd_suggestion = None, fd_evidence_sources = []\<rparr>"

definition sample_finding_moved :: finding where
  "sample_finding_moved = sample_finding\<lparr>fd_line_start := 90, fd_line_end := 91,
     fd_description := u ''Off by   one''\<rparr>"

lemma sample_words:
  "split_ws (u ''Off  by one'') = [u ''Off'', u ''by'', u ''one'']"
  "split_ws (u ''Off by   one'') = [u ''Off'', u ''by'', u ''one'']"
  by (simp_all add: split_ws.simps ascii_eval Let_def)

theorem fingerprint_identifies_witness:
  "fingerprint id sample_finding = fingerprint id sample_finding_moved \<and> sample_finding \<noteq> sample_finding_moved
   \<and> identity_text id sample_finding \<noteq> identity_text id (sample_finding\<lparr>fd_file_path := u ''b.py''\<rparr>)"
proof (intro conjI)
  have "same_issue id sample_finding sample_finding_moved"
    using sample_words by (simp add: same_issue_def sample_finding_moved_def sample_finding_def)
  with fingerprint_identifies [of id sample_finding _ sample_finding_moved]
  show "fingerprint id sample_finding = fingerprint id sample_finding_moved" by blast
  show "sample_finding \<noteq> sample_finding_moved"
    by (simp add: sample_finding_moved_def sample_finding_def)
  have "colon_free sample_finding" "colon_free (sample_finding\<lparr>fd_file_path := u ''b.py''\<rparr>)"
    "\<not> same_issue id sample_finding (sample_finding\<lparr>fd_file_path := u ''b.py''\<rparr>)"
    by (simp_all add: colon_free_def same_issue_def sample_finding_def)
  with fingerprint_identifies [of id sample_finding _ "sample_finding\<lparr>fd_file_path := u ''b.py''\<rparr>"]
  show "identity_text id sample_finding \<noteq> identity_text id (sample_finding\<lparr>fd_file_path := u ''b.py''\<rparr>)" by blast
qed

text \<open>
  The separators are not escaped: a path with a colon can take over the category, so two
  different findings get one fingerprint.
\<close>

lemma fingerprint_colon_collision:
  assumes "fd_file_path f = u ''x''" "fd_category f = BUG" "lower (fd_description f) = u ''bug:y''"
    and "fd_file_path g = u ''x:bug''" "fd_category g = BUG" "lower (fd_description g) = u ''y''"
  shows "fingerprint lower f = fingerprint lower g"
proof -
  have "split_ws (u ''bug:y'') = [u ''bug:y'']" "split_ws (u ''y'') = [u ''y'']"
    by (simp_all add: split_ws.simps ascii_eval Let_def)
  with assms show ?thesis
    by (simp add: fingerprint_def raw_key_def normalized_description_def join_def)
qed

end
