(* ===== verification/Py_Effects.thy ===== *)
theory Py_Effects
  imports Kenjutsu_Prelude
begin

text \<open>
  Code with effects.  A \<open>proc\<close> takes the state of the world and returns a result or an exception
  together with the state it leaves: what an exception leaves behind stays behind.  The triples
  \<open>triple P m Q E\<close> say what holds after a return and after an exception; the components that
  talk to GitHub, to the database and to the workflow engine are proved with them.
\<close>

type_synonym ('s, 'a) proc = "'s \<Rightarrow> 'a result \<times> 's"

definition return :: "'a \<Rightarrow> ('s, 'a) proc" where
  "return x = (\<lambda>s. (Inr x, s))"

definition raise :: "py_error \<Rightarrow> ('s, 'a) proc" where
  "raise e = (\<lambda>s. (Inl e, s))"

definition from_result :: "'a result \<Rightarrow> ('s, 'a) proc" where
  "from_result r = (\<lambda>s. (r, s))"

definition seq :: "('s, 'a) proc \<Rightarrow> ('a \<Rightarrow> ('s, 'b) proc) \<Rightarrow> ('s, 'b) proc" where
  "seq m f = (\<lambda>s. case m s of (Inl e, s') \<Rightarrow> (Inl e, s') | (Inr x, s') \<Rightarrow> f x s')"

definition triple ::
  "('s \<Rightarrow> bool) \<Rightarrow> ('s, 'a) proc \<Rightarrow> ('a \<Rightarrow> 's \<Rightarrow> bool) \<Rightarrow> (py_error \<Rightarrow> 's \<Rightarrow> bool) \<Rightarrow> bool" where
  "triple P m Q E \<longleftrightarrow>
     (\<forall>s. P s \<longrightarrow> (case m s of (Inr x, s') \<Rightarrow> Q x s' | (Inl e, s') \<Rightarrow> E e s'))"

lemma tripleI:
  "(\<And>s x s'. P s \<Longrightarrow> m s = (Inr x, s') \<Longrightarrow> Q x s') \<Longrightarrow> (\<And>s e s'. P s \<Longrightarrow> m s = (Inl e, s') \<Longrightarrow> E e s')
     \<Longrightarrow> triple P m Q E"
  unfolding triple_def by (simp split: prod.split sum.split)

lemma tripleD:
  assumes "triple P m Q E" "P s"
  shows "m s = (Inr x, s') \<Longrightarrow> Q x s'" and "m s = (Inl e, s') \<Longrightarrow> E e s'"
  using assms by (auto simp: triple_def dest: spec [of _ s])

lemma triple_return: "(\<And>s. P s \<Longrightarrow> Q x s) \<Longrightarrow> triple P (return x) Q E"
  by (simp add: triple_def return_def)

lemma triple_raise: "(\<And>s. P s \<Longrightarrow> E e s) \<Longrightarrow> triple P (raise e) Q E"
  by (simp add: triple_def raise_def)

lemma triple_seq:
  assumes "triple P m R E" and "\<And>x. triple (R x) (f x) Q E"
  shows "triple P (seq m f) Q E"
  unfolding triple_def
proof (intro allI impI)
  fix s assume "P s"
  obtain r t where m: "m s = (r, t)" by fastforce
  show "case seq m f s of (Inr x, s') \<Rightarrow> Q x s' | (Inl e, s') \<Rightarrow> E e s'"
  proof (cases r)
    case (Inl e)
    with assms(1) \<open>P s\<close> m show ?thesis by (simp add: seq_def triple_def) fastforce
  next
    case (Inr x)
    with assms(1) \<open>P s\<close> m have "R x t" by (simp add: triple_def) fastforce
    with assms(2) [of x] m Inr show ?thesis by (simp add: seq_def triple_def)
  qed
qed

lemma triple_cons:
  assumes "triple P' m Q' E'" "\<And>s. P s \<Longrightarrow> P' s" "\<And>x s. Q' x s \<Longrightarrow> Q x s" "\<And>e s. E' e s \<Longrightarrow> E e s"
  shows "triple P m Q E"
  unfolding triple_def
proof (intro allI impI)
  fix s assume "P s"
  then have m: "case m s of (Inr x, s') \<Rightarrow> Q' x s' | (Inl e, s') \<Rightarrow> E' e s'"
    by (intro assms(1) [unfolded triple_def, rule_format] assms(2))
  obtain r t where rt: "m s = (r, t)" by (metis surj_pair)
  show "case m s of (Inr x, s') \<Rightarrow> Q x s' | (Inl e, s') \<Rightarrow> E e s'"
  proof (cases r)
    case (Inl e)
    then have "E e t" using m rt by (intro assms(4)) simp
    then show ?thesis using Inl rt by simp
  next
    case (Inr x)
    then have "Q x t" using m rt by (intro assms(3)) simp
    then show ?thesis using Inr rt by simp
  qed
qed

lemma triple_ex:
  assumes "\<And>x. triple (P x) m Q E"
  shows "triple (\<lambda>s. \<exists>x. P x s) m Q E"
  unfolding triple_def by (intro allI impI, elim exE, rule assms [unfolded triple_def, rule_format])

lemma triple_pre: "(b \<Longrightarrow> triple P m Q E) \<Longrightarrow> triple (\<lambda>s. b \<and> P s) m Q E"
  by (cases b) (simp_all add: triple_def)

lemma triple_if:
  "(b \<Longrightarrow> triple P m Q E) \<Longrightarrow> (\<not> b \<Longrightarrow> triple P n Q E) \<Longrightarrow> triple P (if b then m else n) Q E"
  by simp

text \<open>A step followed by the rest: the shape in which the rules are applied down a body.\<close>

lemma triple_step:
  "triple P m R F \<Longrightarrow> (\<And>x. triple (R x) (f x) Q E) \<Longrightarrow> (\<And>e s. F e s \<Longrightarrow> E e s) \<Longrightarrow> triple P (seq m f) Q E"
  by (rule triple_seq [where R = R]) (auto elim: triple_cons)

text \<open>
  The \<open>with\<close> statement: the value entered is left once on every path of the body, and the exception
  of the body goes on unless leaving raises another one or asks to suppress it; what happens then
  is up to the code after the statement.
\<close>

definition with_block ::
  "('w, 'h) proc \<Rightarrow> ('h \<Rightarrow> py_error option \<Rightarrow> ('w, bool) proc) \<Rightarrow> ('w, 'a) proc \<Rightarrow> ('h \<Rightarrow> ('w, 'a) proc) \<Rightarrow> ('w, 'a) proc" where
  "with_block enter leave after_suppressed body =
     seq enter (\<lambda>h w.
       case body h w of
         (Inr x, w) \<Rightarrow> seq (leave h None) (\<lambda>_. return x) w
       | (Inl e, w) \<Rightarrow> seq (leave h (Some e)) (\<lambda>suppress. if suppress then after_suppressed else raise e) w)"

text \<open>Code that does not change a part of the world, whatever happens.\<close>

definition conserves :: "('w \<Rightarrow> 'l) \<Rightarrow> ('w, 'a) proc \<Rightarrow> bool" where
  "conserves l m \<longleftrightarrow> (\<forall>L. triple (\<lambda>w. l w = L) m (\<lambda>_ w. l w = L) (\<lambda>_ w. l w = L))"

lemma conserves_step:
  assumes "conserves l m" and "\<And>x. triple (\<lambda>w. l w = L) (f x) Q E" and "\<And>e w. l w = L \<Longrightarrow> E e w"
  shows "triple (\<lambda>w. l w = L) (seq m f) Q E"
proof (rule triple_step)
  show "triple (\<lambda>w. l w = L) m (\<lambda>_ w. l w = L) (\<lambda>_ w. l w = L)" using assms(1) unfolding conserves_def by (rule spec)
qed (use assms(2,3) in auto)

lemma conserves_from_result: "conserves l (from_result r)"
  by (cases r) (simp_all add: conserves_def triple_def from_result_def)

text \<open>The rule of the \<open>with\<close> statement, for a value that is left without suppressing.\<close>

lemma triple_with:
  assumes "triple P enter I E"
    and "\<And>h. triple (I h) (body h) (\<lambda>_. J) (\<lambda>_. K)"
    and "\<And>h. triple J (leave h None) (\<lambda>_. Q) E"
    and "\<And>h e. triple K (leave h (Some e)) (\<lambda>suppress w. R w \<and> \<not> suppress) E"
    and "\<And>e w. R w \<Longrightarrow> E e w"
  shows "triple P (with_block enter leave alt body) (\<lambda>_. Q) E"
  unfolding with_block_def
proof (rule triple_seq [OF assms(1)])
  fix h
  have returned: "triple J (seq (leave h None) (\<lambda>_. return x)) (\<lambda>_. Q) E" for x
    by (rule triple_seq [OF assms(3)]) (simp add: triple_return)
  have raised: "triple K (seq (leave h (Some e)) (\<lambda>suppress. if suppress then alt else raise e)) (\<lambda>_. Q) E" for e
    by (rule triple_seq [OF assms(4)]) (simp add: triple_def raise_def assms(5))
  show "triple (I h) (\<lambda>w. case body h w of
         (Inr x, w) \<Rightarrow> seq (leave h None) (\<lambda>_. return x) w
       | (Inl e, w) \<Rightarrow> seq (leave h (Some e)) (\<lambda>suppress. if suppress then alt else raise e) w) (\<lambda>_. Q) E"
    unfolding triple_def [of "I h"]
  proof (intro allI impI)
    fix w assume "I h w"
    obtain r v where b: "body h w = (r, v)" by (metis surj_pair)
    show "case (case body h w of
         (Inr x, w) \<Rightarrow> seq (leave h None) (\<lambda>_. return x) w
       | (Inl e, w) \<Rightarrow> seq (leave h (Some e)) (\<lambda>suppress. if suppress then alt else raise e) w) of
         (Inr x, s') \<Rightarrow> Q s' | (Inl e, s') \<Rightarrow> E e s'"
    proof (cases r)
      case (Inl e)
      then have "K v" using tripleD(2) [OF assms(2) \<open>I h w\<close>] b by simp
      then show ?thesis using raised [of e] Inl b unfolding triple_def by simp
    next
      case (Inr x)
      then have "J v" using tripleD(1) [OF assms(2) \<open>I h w\<close>] b by simp
      then show ?thesis using returned [of x] Inr b unfolding triple_def by simp
    qed
  qed
qed

lemma triple_exc:
  assumes "triple P m Q E'" and "\<And>e s. E' e s \<Longrightarrow> E e s"
  shows "triple P m Q E"
  by (rule triple_cons [OF assms(1)]) (auto intro: assms(2))

lemma triple_mem:
  assumes "\<And>x. x \<in> A \<Longrightarrow> triple (\<lambda>s. f s = x) m Q E"
  shows "triple (\<lambda>s. f s \<in> A) m Q E"
  unfolding triple_def by (intro allI impI, erule assms [unfolded triple_def, rule_format]) simp

lemma seq_assoc: "seq (seq m f) g = seq m (\<lambda>x. seq (f x) g)"
  by (rule ext) (simp add: seq_def split: prod.split sum.split)

lemma seq_return [simp]: "seq (return x) f = f x"
  by (simp add: seq_def return_def)

lemma seq_raise [simp]: "seq (raise e) f = raise e"
  by (simp add: seq_def raise_def)

section \<open>Properties of traces\<close>

text \<open>Every step of a trace is allowed after the steps before it.\<close>

definition all_steps :: "('e list \<Rightarrow> 'e \<Rightarrow> bool) \<Rightarrow> 'e list \<Rightarrow> bool" where
  "all_steps P tr \<longleftrightarrow> (\<forall>pre e post. tr = pre @ e # post \<longrightarrow> P pre e)"

lemma all_steps_Nil [simp]: "all_steps P []"
  by (simp add: all_steps_def)

lemma all_steps_snoc [simp]: "all_steps P (tr @ [e]) \<longleftrightarrow> all_steps P tr \<and> P tr e"
proof (intro iffI conjI)
  assume l: "all_steps P (tr @ [e])"
  show "all_steps P tr"
    unfolding all_steps_def
  proof (intro allI impI)
    fix pre x post assume "tr = pre @ x # post"
    then have "tr @ [e] = pre @ x # (post @ [e])" by simp
    with l show "P pre x" unfolding all_steps_def by blast
  qed
  show "P tr e" using l unfolding all_steps_def by blast
next
  assume r: "all_steps P tr \<and> P tr e"
  show "all_steps P (tr @ [e])"
    unfolding all_steps_def
  proof (intro allI impI)
    fix pre x post assume eq: "tr @ [e] = pre @ x # post"
    show "P pre x"
    proof (cases post rule: rev_cases)
      case Nil
      with eq r show ?thesis by simp
    next
      case (snoc ys y)
      with eq have "tr = pre @ x # ys" by simp
      with r show ?thesis unfolding all_steps_def by blast
    qed
  qed
qed

lemma all_stepsD: "all_steps P tr \<Longrightarrow> tr = pre @ e # post \<Longrightarrow> P pre e"
  unfolding all_steps_def by blast

end
