(* ===== verification/Pipeline_Steps.thy ===== *)
theory Pipeline_Steps
  imports Findings Py_Effects
begin

text \<open>
  The review workflow (\<^verbatim>\<open>kenjutsu/pipeline/types.py\<close>, \<^verbatim>\<open>kenjutsu/pipeline/logic.py\<close> and
  \<^verbatim>\<open>kenjutsu/pipeline/steps.py\<close>).

  The business functions are a record \<open>logic\<close> of effectful functions, since \<open>steps.py\<close> calls them by
  module-level names that tests replace; \<open>stub_logic\<close> holds the functions of \<open>logic.py\<close>.  A
  DBOS step is a call handed to an executor: \<open>dispatch\<close> runs it and \<open>traced\<close> also records it.
  How DBOS recovers a workflow after a crash is not modelled.
\<close>

section \<open>Types\<close>

datatype pipeline_status =
    QUEUED | SHA_CHECKING | PROCESSING_DIFF | EXTRACTING_CONTEXT | RUNNING_DETERMINISTIC
  | RUNNING_LLM | SCORING_EVIDENCE | PUBLISHING | COMPLETE | FAILED | SUPERSEDED | ABORTED

record pr_metadata =
  pm_repo_id :: pystr
  pm_pr_number :: int
  pm_base_sha :: pystr
  pm_head_sha :: pystr
  pm_repo_url :: pystr

record review_request =
  rq_pr_metadata :: pr_metadata
  rq_diff_patches :: "pystr list"

record structural_context =
  cx_repo_id :: pystr
  cx_head_sha :: pystr
  cx_referenced_symbols :: "pystr list"
  cx_call_graph_edges :: "(pystr \<times> pystr) list"

record review_result =
  rr_status :: pystr
  rr_reason :: "pystr option"
  rr_finding_count :: int

section \<open>Business logic\<close>

record 's logic =
  lg_update_review_status :: "pystr \<Rightarrow> pipeline_status \<Rightarrow> ('s, unit) proc"
  lg_sha_guard :: "pr_metadata \<Rightarrow> ('s, bool) proc"
  lg_process_diff :: "pr_metadata \<Rightarrow> ('s, review_request) proc"
  lg_get_structural_context :: "review_request \<Rightarrow> ('s, structural_context) proc"
  lg_run_deterministic :: "review_request \<Rightarrow> structural_context \<Rightarrow> ('s, finding list) proc"
  lg_run_llm_review :: "review_request \<Rightarrow> structural_context \<Rightarrow> finding list \<Rightarrow> ('s, finding list) proc"
  lg_score_evidence :: "finding list \<Rightarrow> structural_context \<Rightarrow> ('s, finding list) proc"
  lg_publish :: "finding list \<Rightarrow> pr_metadata \<Rightarrow> ('s, review_result) proc"

definition stub_logic :: "'s logic" where
  "stub_logic = \<lparr>
     lg_update_review_status = (\<lambda>review_id status. return ()),
     lg_sha_guard = (\<lambda>pr. return True),
     lg_process_diff = (\<lambda>pr. return \<lparr>rq_pr_metadata = pr, rq_diff_patches = []\<rparr>),
     lg_get_structural_context = (\<lambda>req. return \<lparr>cx_repo_id = pm_repo_id (rq_pr_metadata req),
        cx_head_sha = pm_head_sha (rq_pr_metadata req), cx_referenced_symbols = [],
        cx_call_graph_edges = []\<rparr>),
     lg_run_deterministic = (\<lambda>req ctx. return []),
     lg_run_llm_review = (\<lambda>req ctx det. return []),
     lg_score_evidence = (\<lambda>findings ctx. return findings),
     lg_publish = (\<lambda>findings pr. return \<lparr>rr_status = u ''published'', rr_reason = None,
        rr_finding_count = int (length findings)\<rparr>)\<rparr>"

section \<open>Steps\<close>

datatype step_call =
    Call_Status pystr pipeline_status
  | Call_Guard pr_metadata
  | Call_Diff pr_metadata
  | Call_Context review_request
  | Call_Deterministic review_request structural_context
  | Call_Llm review_request structural_context "finding list"
  | Call_Score "finding list" structural_context
  | Call_Publish "finding list" pr_metadata

datatype step_value =
    Val_None | Val_Bool bool | Val_Request review_request | Val_Context structural_context
  | Val_Findings "finding list" | Val_Result review_result

type_synonym 's executor = "step_call \<Rightarrow> ('s, step_value) proc"

definition wrap :: "('a \<Rightarrow> step_value) \<Rightarrow> ('s, 'a) proc \<Rightarrow> ('s, step_value) proc" where
  "wrap c m = seq m (\<lambda>x. return (c x))"

fun dispatch :: "'s logic \<Rightarrow> 's executor" where
  "dispatch lg (Call_Status i st) = wrap (\<lambda>_. Val_None) (lg_update_review_status lg i st)"
| "dispatch lg (Call_Guard pr) = wrap Val_Bool (lg_sha_guard lg pr)"
| "dispatch lg (Call_Diff pr) = wrap Val_Request (lg_process_diff lg pr)"
| "dispatch lg (Call_Context req) = wrap Val_Context (lg_get_structural_context lg req)"
| "dispatch lg (Call_Deterministic req ctx) = wrap Val_Findings (lg_run_deterministic lg req ctx)"
| "dispatch lg (Call_Llm req ctx det) = wrap Val_Findings (lg_run_llm_review lg req ctx det)"
| "dispatch lg (Call_Score fs ctx) = wrap Val_Findings (lg_score_evidence lg fs ctx)"
| "dispatch lg (Call_Publish fs pr) = wrap Val_Result (lg_publish lg fs pr)"

text \<open>The value of a step, read back at its type.\<close>

definition val_bool :: "step_value \<Rightarrow> ('s, bool) proc" where
  "val_bool v = (case v of Val_Bool b \<Rightarrow> return b | _ \<Rightarrow> raise TypeError)"
definition val_request :: "step_value \<Rightarrow> ('s, review_request) proc" where
  "val_request v = (case v of Val_Request r \<Rightarrow> return r | _ \<Rightarrow> raise TypeError)"
definition val_context :: "step_value \<Rightarrow> ('s, structural_context) proc" where
  "val_context v = (case v of Val_Context c \<Rightarrow> return c | _ \<Rightarrow> raise TypeError)"
definition val_findings :: "step_value \<Rightarrow> ('s, finding list) proc" where
  "val_findings v = (case v of Val_Findings fs \<Rightarrow> return fs | _ \<Rightarrow> raise TypeError)"
definition val_result :: "step_value \<Rightarrow> ('s, review_result) proc" where
  "val_result v = (case v of Val_Result r \<Rightarrow> return r | _ \<Rightarrow> raise TypeError)"

definition step_update_status :: "'s executor \<Rightarrow> pystr \<Rightarrow> pipeline_status \<Rightarrow> ('s, unit) proc" where
  "step_update_status ex review_id status = seq (ex (Call_Status review_id status)) (\<lambda>_. return ())"
definition step_sha_guard :: "'s executor \<Rightarrow> pr_metadata \<Rightarrow> ('s, bool) proc" where
  "step_sha_guard ex pr = seq (ex (Call_Guard pr)) val_bool"
definition step_process_diff :: "'s executor \<Rightarrow> pr_metadata \<Rightarrow> ('s, review_request) proc" where
  "step_process_diff ex pr = seq (ex (Call_Diff pr)) val_request"
definition step_structural_context :: "'s executor \<Rightarrow> review_request \<Rightarrow> ('s, structural_context) proc" where
  "step_structural_context ex req = seq (ex (Call_Context req)) val_context"
definition step_deterministic ::
  "'s executor \<Rightarrow> review_request \<Rightarrow> structural_context \<Rightarrow> ('s, finding list) proc" where
  "step_deterministic ex req ctx = seq (ex (Call_Deterministic req ctx)) val_findings"
definition step_llm_review ::
  "'s executor \<Rightarrow> review_request \<Rightarrow> structural_context \<Rightarrow> finding list \<Rightarrow> ('s, finding list) proc" where
  "step_llm_review ex req ctx det = seq (ex (Call_Llm req ctx det)) val_findings"
definition step_score :: "'s executor \<Rightarrow> finding list \<Rightarrow> structural_context \<Rightarrow> ('s, finding list) proc" where
  "step_score ex findings ctx = seq (ex (Call_Score findings ctx)) val_findings"
definition step_publish :: "'s executor \<Rightarrow> finding list \<Rightarrow> pr_metadata \<Rightarrow> ('s, review_result) proc" where
  "step_publish ex findings pr = seq (ex (Call_Publish findings pr)) val_result"

section \<open>The workflow\<close>

definition publish_phase ::
  "'s executor \<Rightarrow> pr_metadata \<Rightarrow> pystr \<Rightarrow> finding list \<Rightarrow> ('s, review_result) proc" where
  "publish_phase ex pr review_id scored =
     seq (step_update_status ex review_id PUBLISHING) (\<lambda>_.
     seq (step_sha_guard ex pr) (\<lambda>current.
       if \<not> current then
         seq (step_update_status ex review_id SUPERSEDED) (\<lambda>_.
           return \<lparr>rr_status = u ''superseded'', rr_reason = Some (u ''sha_changed_before_publish''),
             rr_finding_count = 0\<rparr>)
       else
         seq (step_publish ex scored pr) (\<lambda>result.
         seq (step_update_status ex review_id COMPLETE) (\<lambda>_.
           return result))))"

definition review_phase :: "'s executor \<Rightarrow> pr_metadata \<Rightarrow> pystr \<Rightarrow> ('s, review_result) proc" where
  "review_phase ex pr review_id =
     seq (step_update_status ex review_id PROCESSING_DIFF) (\<lambda>_.
     seq (step_process_diff ex pr) (\<lambda>req.
     seq (step_update_status ex review_id EXTRACTING_CONTEXT) (\<lambda>_.
     seq (step_structural_context ex req) (\<lambda>ctx.
     seq (step_update_status ex review_id RUNNING_DETERMINISTIC) (\<lambda>_.
     seq (step_deterministic ex req ctx) (\<lambda>det.
     seq (step_update_status ex review_id RUNNING_LLM) (\<lambda>_.
     seq (step_llm_review ex req ctx det) (\<lambda>llm.
     seq (step_update_status ex review_id SCORING_EVIDENCE) (\<lambda>_.
     seq (step_score ex (det @ llm) ctx) (\<lambda>scored.
       publish_phase ex pr review_id scored))))))))))"

definition run_review_pipeline :: "'s executor \<Rightarrow> pr_metadata \<Rightarrow> pystr \<Rightarrow> ('s, review_result) proc" where
  "run_review_pipeline ex pr review_id =
     seq (step_update_status ex review_id SHA_CHECKING) (\<lambda>_.
     seq (step_sha_guard ex pr) (\<lambda>current.
       if \<not> current then
         seq (step_update_status ex review_id ABORTED) (\<lambda>_.
           return \<lparr>rr_status = u ''aborted'', rr_reason = Some (u ''stale_sha''), rr_finding_count = 0\<rparr>)
       else review_phase ex pr review_id))"

definition review_pr :: "'s executor \<Rightarrow> pr_metadata \<Rightarrow> pystr \<Rightarrow> ('s, review_result) proc" where
  "review_pr ex pr review_id = run_review_pipeline ex pr review_id"

section \<open>An executor that records\<close>

type_synonym step_event = "step_call \<times> step_value result"

definition traced :: "'s executor \<Rightarrow> ('s \<times> step_event list) executor" where
  "traced ex c = (\<lambda>(s, tr). case ex c s of (r, s') \<Rightarrow> (r, s', tr @ [(c, r)]))"

section \<open>What a run does\<close>

definition statuses :: "step_event list \<Rightarrow> pipeline_status list" where
  "statuses tr = concat (map (\<lambda>e. case fst e of Call_Status _ st \<Rightarrow> [st] | _ \<Rightarrow> []) tr)"

definition guards :: "step_event list \<Rightarrow> step_value result list" where
  "guards tr = concat (map (\<lambda>e. case fst e of Call_Guard _ \<Rightarrow> [snd e] | _ \<Rightarrow> []) tr)"

definition published :: "step_event list \<Rightarrow> (finding list \<times> step_value result) list" where
  "published tr = concat (map (\<lambda>e. case fst e of Call_Publish fs _ \<Rightarrow> [(fs, snd e)] | _ \<Rightarrow> []) tr)"

lemma statuses_simps [simp]:
  "statuses [] = []" "statuses ((Call_Status i st, r) # tr) = st # statuses tr"
  "statuses ((Call_Guard p, r) # tr) = statuses tr" "statuses ((Call_Diff p, r) # tr) = statuses tr"
  "statuses ((Call_Context q, r) # tr) = statuses tr"
  "statuses ((Call_Deterministic q c, r) # tr) = statuses tr"
  "statuses ((Call_Llm q c d, r) # tr) = statuses tr"
  "statuses ((Call_Score fs c, r) # tr) = statuses tr"
  "statuses ((Call_Publish fs p, r) # tr) = statuses tr"
  "statuses (tr @ tr') = statuses tr @ statuses tr'"
  by (simp_all add: statuses_def)

lemma guards_simps [simp]:
  "guards [] = []" "guards ((Call_Status i st, r) # tr) = guards tr"
  "guards ((Call_Guard p, r) # tr) = r # guards tr" "guards ((Call_Diff p, r) # tr) = guards tr"
  "guards ((Call_Context q, r) # tr) = guards tr"
  "guards ((Call_Deterministic q c, r) # tr) = guards tr"
  "guards ((Call_Llm q c d, r) # tr) = guards tr"
  "guards ((Call_Score fs c, r) # tr) = guards tr"
  "guards ((Call_Publish fs p, r) # tr) = guards tr"
  "guards (tr @ tr') = guards tr @ guards tr'"
  by (simp_all add: guards_def)

lemma published_simps [simp]:
  "published [] = []" "published ((Call_Status i st, r) # tr) = published tr"
  "published ((Call_Guard p, r) # tr) = published tr" "published ((Call_Diff p, r) # tr) = published tr"
  "published ((Call_Context q, r) # tr) = published tr"
  "published ((Call_Deterministic q c, r) # tr) = published tr"
  "published ((Call_Llm q c d, r) # tr) = published tr"
  "published ((Call_Score fs c, r) # tr) = published tr"
  "published ((Call_Publish fs p, r) # tr) = (fs, r) # published tr"
  "published (tr @ tr') = published tr @ published tr'"
  by (simp_all add: published_def)

definition work_statuses :: "pipeline_status list" where
  "work_statuses = [SHA_CHECKING, PROCESSING_DIFF, EXTRACTING_CONTEXT, RUNNING_DETERMINISTIC,
     RUNNING_LLM, SCORING_EVIDENCE, PUBLISHING]"

definition returned_well :: "review_result \<Rightarrow> step_event list \<Rightarrow> bool" where
  "returned_well res tr \<longleftrightarrow>
     list_all (\<lambda>e. \<not> isl (snd e)) tr
     \<and> (guards tr = [Inr (Val_Bool False)] \<and> statuses tr = [SHA_CHECKING, ABORTED] \<and> published tr = []
          \<and> rr_status res = u ''aborted'' \<and> rr_reason res = Some (u ''stale_sha'')
        \<or> guards tr = [Inr (Val_Bool True), Inr (Val_Bool False)]
          \<and> statuses tr = work_statuses @ [SUPERSEDED] \<and> published tr = []
          \<and> rr_status res = u ''superseded'' \<and> rr_reason res = Some (u ''sha_changed_before_publish'')
        \<or> guards tr = [Inr (Val_Bool True), Inr (Val_Bool True)]
          \<and> statuses tr = work_statuses @ [COMPLETE]
          \<and> (\<exists>fs. published tr = [(fs, Inr (Val_Result res))]))"

definition raised_well :: "py_error \<Rightarrow> step_event list \<Rightarrow> bool" where
  "raised_well e tr \<longleftrightarrow>
     tr \<noteq> [] \<and> snd (last tr) = Inl e \<and> list_all (\<lambda>e. \<not> isl (snd e)) (butlast tr)
     \<and> (prefix (statuses tr) [SHA_CHECKING, ABORTED]
        \<or> prefix (statuses tr) (work_statuses @ [SUPERSEDED])
        \<or> prefix (statuses tr) (work_statuses @ [COMPLETE]))
     \<and> length (published tr) \<le> 1"

text \<open>One traced step of the real logic: its value has the right type, or it raises.\<close>

abbreviation at_trace :: "step_event list \<Rightarrow> 's \<times> step_event list \<Rightarrow> bool" where
  "at_trace tr st \<equiv> snd st = tr"

lemma wrap_cases:
  "wrap c m s = (r, s') \<Longrightarrow> (\<exists>x. r = Inr (c x)) \<or> (\<exists>e. r = Inl e)"
  by (cases r) (auto simp: wrap_def seq_def return_def split: prod.splits sum.splits)

lemmas traced_defs =
  triple_def seq_def traced_def return_def raise_def wrap_def
  val_bool_def val_request_def val_context_def val_findings_def val_result_def

lemma traced_status:
  "triple (at_trace tr) (step_update_status (traced (dispatch lg)) i st)
     (\<lambda>_. at_trace (tr @ [(Call_Status i st, Inr Val_None)]))
     (\<lambda>e. at_trace (tr @ [(Call_Status i st, Inl e)]))"
  by (auto simp: step_update_status_def traced_defs split: prod.split sum.split)

lemma traced_guard:
  "triple (at_trace tr) (step_sha_guard (traced (dispatch lg)) pr)
     (\<lambda>b. at_trace (tr @ [(Call_Guard pr, Inr (Val_Bool b))]))
     (\<lambda>e. at_trace (tr @ [(Call_Guard pr, Inl e)]))"
  by (auto simp: step_sha_guard_def traced_defs split: prod.split sum.split)

lemma traced_diff:
  "triple (at_trace tr) (step_process_diff (traced (dispatch lg)) pr)
     (\<lambda>x. at_trace (tr @ [(Call_Diff pr, Inr (Val_Request x))]))
     (\<lambda>e. at_trace (tr @ [(Call_Diff pr, Inl e)]))"
  by (auto simp: step_process_diff_def traced_defs split: prod.split sum.split)

lemma traced_context:
  "triple (at_trace tr) (step_structural_context (traced (dispatch lg)) req)
     (\<lambda>x. at_trace (tr @ [(Call_Context req, Inr (Val_Context x))]))
     (\<lambda>e. at_trace (tr @ [(Call_Context req, Inl e)]))"
  by (auto simp: step_structural_context_def traced_defs split: prod.split sum.split)

lemma traced_deterministic:
  "triple (at_trace tr) (step_deterministic (traced (dispatch lg)) req ctx)
     (\<lambda>x. at_trace (tr @ [(Call_Deterministic req ctx, Inr (Val_Findings x))]))
     (\<lambda>e. at_trace (tr @ [(Call_Deterministic req ctx, Inl e)]))"
  by (auto simp: step_deterministic_def traced_defs split: prod.split sum.split)

lemma traced_llm:
  "triple (at_trace tr) (step_llm_review (traced (dispatch lg)) req ctx det)
     (\<lambda>x. at_trace (tr @ [(Call_Llm req ctx det, Inr (Val_Findings x))]))
     (\<lambda>e. at_trace (tr @ [(Call_Llm req ctx det, Inl e)]))"
  by (auto simp: step_llm_review_def traced_defs split: prod.split sum.split)

lemma traced_score:
  "triple (at_trace tr) (step_score (traced (dispatch lg)) fs ctx)
     (\<lambda>x. at_trace (tr @ [(Call_Score fs ctx, Inr (Val_Findings x))]))
     (\<lambda>e. at_trace (tr @ [(Call_Score fs ctx, Inl e)]))"
  by (auto simp: step_score_def traced_defs split: prod.split sum.split)

lemma traced_publish:
  "triple (at_trace tr) (step_publish (traced (dispatch lg)) fs pr)
     (\<lambda>x. at_trace (tr @ [(Call_Publish fs pr, Inr (Val_Result x))]))
     (\<lambda>e. at_trace (tr @ [(Call_Publish fs pr, Inl e)]))"
  by (auto simp: step_publish_def traced_defs split: prod.split sum.split)

lemmas traced_steps = traced_status traced_guard traced_diff traced_context traced_deterministic
  traced_llm traced_score traced_publish

definition clean :: "step_event list \<Rightarrow> bool" where
  "clean tr \<longleftrightarrow> list_all (\<lambda>e. \<not> isl (snd e)) tr \<and> published tr = []"

lemma clean_snoc [simp]:
  "clean []"
  "clean (tr @ [(c, Inr v)]) \<longleftrightarrow> clean tr \<and> published [(c, Inr v)] = []"
  by (auto simp: clean_def)

lemma raised_well_snoc:
  assumes "clean tr" and "prefix (statuses (tr @ [(c, Inl e)])) [SHA_CHECKING, ABORTED]
    \<or> prefix (statuses (tr @ [(c, Inl e)])) (work_statuses @ [SUPERSEDED])
    \<or> prefix (statuses (tr @ [(c, Inl e)])) (work_statuses @ [COMPLETE])"
  shows "raised_well e (tr @ [(c, Inl e)])"
  using assms by (cases c) (auto simp: raised_well_def clean_def)

lemmas publish_steps = triple_step [OF traced_status] triple_step [OF traced_guard] triple_step [OF traced_publish]
lemmas review_steps = triple_step [OF traced_status] triple_step [OF traced_diff]
  triple_step [OF traced_context] triple_step [OF traced_deterministic] triple_step [OF traced_llm]
  triple_step [OF traced_score]

lemma publish_phase_well:
  assumes "clean tr" "statuses tr = butlast work_statuses" "guards tr = [Inr (Val_Bool True)]"
  shows "triple (at_trace tr) (publish_phase (traced (dispatch lg)) pr i fs)
     (\<lambda>res st. returned_well res (snd st)) (\<lambda>e st. raised_well e (snd st))"
  unfolding publish_phase_def
  by (intro publish_steps triple_if triple_return)
    (use assms in \<open>simp_all add: raised_well_snoc work_statuses_def returned_well_def clean_def
       raised_well_def butlast_append\<close>)

lemma review_phase_well:
  assumes "clean tr" "statuses tr = [SHA_CHECKING]" "guards tr = [Inr (Val_Bool True)]"
  shows "triple (at_trace tr) (review_phase (traced (dispatch lg)) pr i)
     (\<lambda>res st. returned_well res (snd st)) (\<lambda>e st. raised_well e (snd st))"
  unfolding review_phase_def
  by (intro review_steps publish_phase_well)
    (use assms in \<open>simp_all add: raised_well_snoc work_statuses_def del: append_assoc\<close>)

lemma pipeline_well:
  "triple (at_trace []) (review_pr (traced (dispatch lg)) pr i)
     (\<lambda>res st. returned_well res (snd st)) (\<lambda>e st. raised_well e (snd st))"
  unfolding review_pr_def run_review_pipeline_def
  by (intro publish_steps triple_if triple_return review_phase_well)
    (simp_all add: raised_well_def returned_well_def work_statuses_def clean_def)

text \<open>Recording the steps does not change the run.\<close>

definition lifts :: "('s, 'a) proc \<Rightarrow> ('s \<times> 't, 'a) proc \<Rightarrow> bool" where
  "lifts m m' \<longleftrightarrow> (\<forall>s t. \<exists>t'. m' (s, t) = (fst (m s), snd (m s), t'))"

lemma lifts_seq: "lifts m m' \<Longrightarrow> (\<And>x. lifts (f x) (f' x)) \<Longrightarrow> lifts (seq m f) (seq m' f')"
  unfolding lifts_def
proof (intro allI)
  fix s t
  assume m: "\<forall>s t. \<exists>t'. m' (s, t) = (fst (m s), snd (m s), t')"
    and f: "\<And>x. \<forall>s t. \<exists>t'. f' x (s, t) = (fst (f x s), snd (f x s), t')"
  from m obtain t1 where t1: "m' (s, t) = (fst (m s), snd (m s), t1)" by blast
  show "\<exists>t'. seq m' f' (s, t) = (fst (seq m f s), snd (seq m f s), t')"
    using t1 f by (cases "m s"; cases "fst (m s)") (auto simp: seq_def)
qed

lemma lifts_basic: "lifts (return x) (return x)" "lifts (raise e) (raise e)"
  by (simp_all add: lifts_def return_def raise_def)

lemma lifts_if: "lifts m m' \<Longrightarrow> lifts n n' \<Longrightarrow> lifts (if b then m else n) (if b then m' else n')"
  by simp

lemma lifts_val:
  "lifts (val_bool v) (val_bool v)" "lifts (val_request v) (val_request v)"
  "lifts (val_context v) (val_context v)" "lifts (val_findings v) (val_findings v)"
  "lifts (val_result v) (val_result v)"
  by (cases v; simp add: val_bool_def val_request_def val_context_def val_findings_def
      val_result_def lifts_basic)+

lemma lifts_traced: "lifts (ex c) (traced ex c)"
  by (simp add: lifts_def traced_def split: prod.split)

lemmas step_defs = step_update_status_def step_sha_guard_def step_process_diff_def
  step_structural_context_def step_deterministic_def step_llm_review_def step_score_def
  step_publish_def
lemmas workflow_defs = review_pr_def run_review_pipeline_def review_phase_def publish_phase_def

lemma lifts_review: "lifts (review_pr ex pr i) (review_pr (traced ex) pr i)"
  unfolding workflow_defs step_defs
  by (intro lifts_seq lifts_if lifts_basic lifts_val lifts_traced)

text \<open>
  Claim C3.  Every run of the review workflow goes one of four ways, for every behaviour of the
  business functions.  The run with its steps recorded returns what the workflow returns.  When
  it returns, no step raised, and either the first guard refused, the statuses are
  \<open>sha_checking, aborted\<close>, and nothing was published; or the second guard refused, the statuses
  run through \<open>publishing\<close> to \<open>superseded\<close>, and nothing was published; or both guards
  passed, findings were published exactly once, its result is returned and the last status is
  \<open>complete\<close>.  When it raises, the exception is that of the last step, all earlier steps
  succeeded, and the statuses are a prefix of one of these sequences, so \<open>failed\<close> is never set.
\<close>

theorem pipeline_outcomes:
  "case review_pr (traced (dispatch lg)) pr review_id (s, []) of (r, s', tr) \<Rightarrow>
     review_pr (dispatch lg) pr review_id s = (r, s')
     \<and> (case r of Inr res \<Rightarrow> returned_well res tr | Inl e \<Rightarrow> raised_well e tr)"
proof -
  obtain r s' tr where run: "review_pr (traced (dispatch lg)) pr review_id (s, []) = (r, s', tr)"
    by (metis surj_pair)
  moreover have "review_pr (dispatch lg) pr review_id s = (r, s')"
    using lifts_review [of "dispatch lg" pr review_id] run unfolding lifts_def
    by (metis Pair_inject prod.collapse)
  moreover have "case r of Inr res \<Rightarrow> returned_well res tr | Inl e \<Rightarrow> raised_well e tr"
    using tripleD [OF pipeline_well [of lg pr review_id], of "(s, [])"] run
    by (cases r) auto
  ultimately show ?thesis by simp
qed

section \<open>Publishing is guarded\<close>

definition scored_from :: "step_event list \<Rightarrow> finding list \<Rightarrow> bool" where
  "scored_from tr fs \<longleftrightarrow> (\<exists>req ctx det llm.
     (Call_Deterministic req ctx, Inr (Val_Findings det)) \<in> set tr
     \<and> (Call_Llm req ctx det, Inr (Val_Findings llm)) \<in> set tr
     \<and> (Call_Score (det @ llm) ctx, Inr (Val_Findings fs)) \<in> set tr)"

definition publish_guarded :: "pr_metadata \<Rightarrow> step_event list \<Rightarrow> bool" where
  "publish_guarded pr tr \<longleftrightarrow> all_steps (\<lambda>pre e. \<forall>fs p. fst e = Call_Publish fs p \<longrightarrow>
     p = pr \<and> guards pre = [Inr (Val_Bool True), Inr (Val_Bool True)]
     \<and> pre \<noteq> [] \<and> last pre = (Call_Guard pr, Inr (Val_Bool True))
     \<and> published pre = [] \<and> scored_from pre fs) tr"

lemma publish_guarded_Nil [simp]: "publish_guarded pr []"
  by (simp add: publish_guarded_def)

lemma publish_guarded_snoc:
  "publish_guarded pr (tr @ [e]) \<longleftrightarrow> publish_guarded pr tr \<and>
     (\<forall>fs p. fst e = Call_Publish fs p \<longrightarrow>
        p = pr \<and> guards tr = [Inr (Val_Bool True), Inr (Val_Bool True)]
        \<and> tr \<noteq> [] \<and> last tr = (Call_Guard pr, Inr (Val_Bool True))
        \<and> published tr = [] \<and> scored_from tr fs)"
  by (simp add: publish_guarded_def)

lemma scored_from_snoc: "scored_from tr fs \<Longrightarrow> scored_from (tr @ [e]) fs"
  unfolding scored_from_def by fastforce

lemma publish_phase_guarded:
  assumes "publish_guarded pr tr" "published tr = []" "guards tr = [Inr (Val_Bool True)]" "scored_from tr fs"
  shows "triple (at_trace tr) (publish_phase (traced (dispatch lg)) pr i fs)
     (\<lambda>_ st. publish_guarded pr (snd st)) (\<lambda>_ st. publish_guarded pr (snd st))"
  unfolding publish_phase_def
  by (intro publish_steps triple_if triple_return)
    (use assms in \<open>simp_all add: publish_guarded_snoc scored_from_snoc del: append_assoc\<close>)

lemma review_phase_guarded:
  assumes "publish_guarded pr tr" "published tr = []" "guards tr = [Inr (Val_Bool True)]"
  shows "triple (at_trace tr) (review_phase (traced (dispatch lg)) pr i)
     (\<lambda>_ st. publish_guarded pr (snd st)) (\<lambda>_ st. publish_guarded pr (snd st))"
  unfolding review_phase_def
  by (intro review_steps publish_phase_guarded)
    (use assms in \<open>auto simp: publish_guarded_snoc scored_from_def simp del: append_assoc\<close>)

lemma pipeline_guarded:
  "triple (at_trace []) (review_pr (traced (dispatch lg)) pr i)
     (\<lambda>_ st. publish_guarded pr (snd st)) (\<lambda>_ st. publish_guarded pr (snd st))"
  unfolding review_pr_def run_review_pipeline_def
  by (intro publish_steps triple_if triple_return review_phase_guarded)
    (simp_all add: publish_guarded_snoc [of pr "[]", simplified] publish_guarded_snoc
      publish_guarded_snoc [of pr "[e]" for e, simplified]  publish_guarded_snoc [of pr "[e, f]" for e f, simplified])

text \<open>
  Claim C2.  Findings are published only behind two guards.  In every run of the workflow,
  whether it returns or raises, a call of the publish step is for the pull request under review,
  comes directly after a SHA guard that returned True, which is the second and the first also
  returned True, comes after no other publish call, and publishes what the scoring step returned
  for the deterministic findings followed by the LLM findings.
\<close>

theorem pipeline_publish_guarded:
  "publish_guarded pr (snd (snd (review_pr (traced (dispatch lg)) pr review_id (s, []))))"
proof -
  obtain r s' tr where run: "review_pr (traced (dispatch lg)) pr review_id (s, []) = (r, s', tr)"
    by (metis surj_pair)
  then show ?thesis
    using tripleD [OF pipeline_guarded [of lg pr review_id], of "(s, [])"] by (cases r) auto
qed

end
