(* ===== verification/Py_Float.thy ===== *)
theory Py_Float
  imports Kenjutsu_Prelude Complex_Main
begin

text \<open>
  Python floats: IEEE 754 doubles with rounding to nearest, ties to even, subnormal numbers and
  overflow to infinity.  A finite float is the rational number it stands for; the two zeros are
  one value, which no operation used by the program tells apart.
\<close>

section \<open>Rounding\<close>

fun nlog2 :: "nat \<Rightarrow> nat" where
  "nlog2 n = (if n < 2 then 0 else Suc (nlog2 (n div 2)))"

declare nlog2.simps [simp del]

definition rlog2 :: "rat \<Rightarrow> int" where
  "rlog2 x =
     (let (n, d) = quotient_of x; k = int (nlog2 (nat n)) - int (nlog2 (nat d))
      in if 2 powi k \<le> x then k else k - 1)"

definition round_even :: "rat \<Rightarrow> int" where
  "round_even x =
     (let f = \<lfloor>x\<rfloor>; r = x - of_int f
      in if r < 1 / 2 then f else if r > 1 / 2 then f + 1 else if even f then f else f + 1)"

definition fexp :: "rat \<Rightarrow> int" where
  "fexp x = max (rlog2 \<bar>x\<bar> - 52) (- 1074)"

definition fl :: "rat \<Rightarrow> rat" where
  "fl x = (if x = 0 then 0 else of_int (round_even (x / 2 powi fexp x)) * 2 powi fexp x)"

section \<open>Floats\<close>

datatype pyfloat = Fin rat | PInf | NInf | NaN

definition to_float :: "rat \<Rightarrow> pyfloat" where
  "to_float x = (if fl x \<ge> 2 ^ 1024 then PInf else if fl x \<le> - (2 ^ 1024) then NInf else Fin (fl x))"

fun fadd :: "pyfloat \<Rightarrow> pyfloat \<Rightarrow> pyfloat" where
  "fadd (Fin x) (Fin y) = to_float (x + y)"
| "fadd NaN _ = NaN"
| "fadd _ NaN = NaN"
| "fadd PInf NInf = NaN"
| "fadd NInf PInf = NaN"
| "fadd PInf _ = PInf"
| "fadd NInf _ = NInf"
| "fadd (Fin _) y = y"

fun fneg :: "pyfloat \<Rightarrow> pyfloat" where
  "fneg (Fin x) = Fin (- x)"
| "fneg PInf = NInf"
| "fneg NInf = PInf"
| "fneg NaN = NaN"

definition fsub :: "pyfloat \<Rightarrow> pyfloat \<Rightarrow> pyfloat" where
  "fsub x y = fadd x (fneg y)"

fun fle :: "pyfloat \<Rightarrow> pyfloat \<Rightarrow> bool" where
  "fle (Fin x) (Fin y) = (x \<le> y)"
| "fle NaN _ = False"
| "fle _ NaN = False"
| "fle NInf _ = True"
| "fle _ PInf = True"
| "fle _ _ = False"

definition flt :: "pyfloat \<Rightarrow> pyfloat \<Rightarrow> bool" where
  "flt x y = (fle x y \<and> \<not> fle y x)"

text \<open>\<open>x / y\<close>: a zero divisor raises; signs decide between the infinities.\<close>

fun fdiv :: "pyfloat \<Rightarrow> pyfloat \<Rightarrow> pyfloat result" where
  "fdiv x (Fin y) =
     (if y = 0 then Inl ZeroDivisionError
      else (case x of Fin a \<Rightarrow> Inr (to_float (a / y)) | NaN \<Rightarrow> Inr NaN
        | PInf \<Rightarrow> Inr (if y > 0 then PInf else NInf) | NInf \<Rightarrow> Inr (if y > 0 then NInf else PInf)))"
| "fdiv (Fin a) PInf = Inr (Fin 0)"
| "fdiv (Fin a) NInf = Inr (Fin 0)"
| "fdiv _ _ = Inr NaN"

section \<open>Facts about rounding\<close>

lemma nlog2_bounds: "0 < n \<Longrightarrow> 2 ^ nlog2 n \<le> n \<and> n < 2 ^ Suc (nlog2 n)"
proof (induction n rule: nlog2.induct)
  case (1 n)
  show ?case
  proof (cases "n < 2")
    case True
    with "1.prems" show ?thesis by (subst (1 2) nlog2.simps) simp
  next
    case False
    then have "2 ^ nlog2 (n div 2) \<le> n div 2 \<and> n div 2 < 2 ^ Suc (nlog2 (n div 2))"
      using "1.IH" by simp
    with False show ?thesis by (subst (1 2) nlog2.simps) auto
  qed
qed

lemma powi_nat: "(2 :: rat) powi int k = 2 ^ k"
  by simp

lemma powi_add2: "(2 :: rat) powi (a + b) = 2 powi a * 2 powi b"
  by (simp add: power_int_add)

lemma powi_pos [simp]: "0 < (2 :: rat) powi k"
  by simp

lemma rlog2_bounds:
  assumes "0 < x"
  shows "2 powi rlog2 x \<le> x \<and> x < 2 powi (rlog2 x + 1)"
proof -
  obtain n d where q: "quotient_of x = (n, d)" by fastforce
  have d: "0 < d" and x: "x = of_int n / of_int d"
    using q quotient_of_denom_pos quotient_of_div by blast+
  have n: "0 < n" using assms d x by (simp add: zero_less_divide_iff)
  define a b where "a = nlog2 (nat n)" and "b = nlog2 (nat d)"
  have A: "2 ^ a \<le> nat n" "nat n < 2 ^ Suc a" and B: "2 ^ b \<le> nat d" "nat d < 2 ^ Suc b"
    using nlog2_bounds [of "nat n"] nlog2_bounds [of "nat d"] n d by (simp_all add: a_def b_def)
  have "(2::int) ^ a \<le> n" "n < 2 ^ Suc a" "(2::int) ^ b \<le> d" "d < 2 ^ Suc b"
    using A B n d by (simp_all add: le_nat_iff nat_less_iff)
  then have A': "(2::rat) ^ a \<le> of_int n" "of_int n < (2::rat) ^ Suc a"
    and B': "(2::rat) ^ b \<le> of_int d" "of_int d < (2::rat) ^ Suc b"
    by (metis of_int_le_iff of_int_less_iff of_int_numeral of_int_power)+
  have dp: "0 < (of_int d :: rat)" using d by simp
  have k: "(2::rat) powi (int a - int b) = 2 ^ a / 2 ^ b"
    by (simp add: power_int_diff)
  have up: "x < 2 powi (int a - int b + 1)"
  proof -
    have "x < 2 ^ Suc a / of_int d" using A' dp by (simp add: x divide_strict_right_mono)
    also have "\<dots> \<le> 2 ^ Suc a / 2 ^ b" using B' dp by (intro divide_left_mono) auto
    finally show ?thesis by (simp add: power_int_add k mult.commute)
  qed
  have lo: "2 powi (int a - int b - 1) \<le> x"
  proof -
    have "2 powi (int a - int b - 1) = 2 ^ a / (2::rat) ^ Suc b"
      by (simp add: power_int_diff k)
    also have "\<dots> \<le> 2 ^ a / of_int d" using B' dp by (intro divide_left_mono) auto
    also have "\<dots> \<le> x" using A' dp by (simp add: x divide_right_mono)
    finally show ?thesis .
  qed
  show ?thesis
    using up lo by (auto simp: rlog2_def q Let_def a_def [symmetric] b_def [symmetric])
qed

lemma rlog2_mono: "0 < x \<Longrightarrow> x \<le> y \<Longrightarrow> rlog2 x \<le> rlog2 y"
proof (rule ccontr)
  assume xy: "0 < x" "x \<le> y" and "\<not> rlog2 x \<le> rlog2 y"
  then have "(2::rat) powi (rlog2 y + 1) \<le> 2 powi rlog2 x" by (intro power_int_increasing) auto
  then show False using xy rlog2_bounds [of x] rlog2_bounds [of y] by linarith
qed

lemma rlog2_less: "0 < x \<Longrightarrow> x < 2 powi k \<Longrightarrow> rlog2 x < k"
proof (rule ccontr)
  assume x: "0 < x" "x < 2 powi k" and "\<not> rlog2 x < k"
  then have "(2::rat) powi k \<le> 2 powi rlog2 x" by (intro power_int_increasing) auto
  then show False using x rlog2_bounds [of x] by linarith
qed

lemma round_even_int [simp]: "round_even (of_int n) = n"
  by (simp add: round_even_def)

lemma round_even_bounds: "\<lfloor>x\<rfloor> \<le> round_even x \<and> round_even x \<le> \<lfloor>x\<rfloor> + 1"
  by (simp add: round_even_def Let_def)

lemma round_even_mono: "x \<le> y \<Longrightarrow> round_even x \<le> round_even y"
proof -
  assume "x \<le> y"
  then have "\<lfloor>x\<rfloor> \<le> \<lfloor>y\<rfloor>" by (rule floor_mono)
  then consider "\<lfloor>x\<rfloor> = \<lfloor>y\<rfloor>" | "\<lfloor>x\<rfloor> + 1 \<le> \<lfloor>y\<rfloor>" by linarith
  then show ?thesis
  proof cases
    case 1
    with \<open>x \<le> y\<close> show ?thesis by (auto simp: round_even_def Let_def)
  next
    case 2
    then show ?thesis using round_even_bounds [of x] round_even_bounds [of y] by linarith
  qed
qed

lemma round_even_neg: "round_even (- x) = - round_even x"
proof (cases "x = of_int \<lfloor>x\<rfloor>")
  case True
  then show ?thesis by (metis of_int_minus round_even_int)
next
  case False
  then have "\<lfloor>- x\<rfloor> = - \<lfloor>x\<rfloor> - 1"
    by (intro floor_unique) (use floor_correct [of x] in \<open>auto simp: less_le\<close>)
  then show ?thesis by (auto simp: round_even_def Let_def)
qed

lemma fl_0 [simp]: "fl 0 = 0"
  by (simp add: fl_def)

lemma fl_neg: "fl (- x) = - fl x"
  by (simp add: fl_def fexp_def round_even_neg)

text \<open>The rationals that are doubles, up to overflow; rounding leaves them alone.\<close>

definition representable :: "rat \<Rightarrow> bool" where
  "representable x \<longleftrightarrow> (\<exists>m k. x = of_int m * 2 powi k \<and> \<bar>m\<bar> \<le> 2 ^ 53 \<and> - 1074 \<le> k)"

lemma fl_multiple:
  assumes "x = of_int n * 2 powi fexp x"
  shows "fl x = x"
proof (cases "x = 0")
  case False
  have "x / 2 powi fexp x = of_int n" using assms by (metis nonzero_mult_div_cancel_right powi_pos less_irrefl)
  with assms False show ?thesis by (simp add: fl_def)
qed simp

lemma fl_representable:
  assumes "representable x"
  shows "fl x = x"
proof (cases "x = 0")
  case False
  from assms obtain m k where x: "x = of_int m * 2 powi k" and m: "\<bar>m\<bar> \<le> 2 ^ 53" and k: "- 1074 \<le> k"
    by (auto simp: representable_def)
  show ?thesis
  proof (cases "\<bar>m\<bar> = 2 ^ 53")
    case True
    have "\<bar>x\<bar> = of_int \<bar>m\<bar> * 2 powi k" by (simp add: x abs_mult)
    then have ax: "\<bar>x\<bar> = 2 powi (k + 53)" by (simp add: True power_int_add)
    have "rlog2 \<bar>x\<bar> < k + 54" using False by (intro rlog2_less) (simp_all add: ax power_int_add)
    then have le: "fexp x \<le> k + 1" using k by (simp add: fexp_def)
    define j where "j = nat (k + 1 - fexp x)"
    have "2 powi k * 2 = (2::rat) ^ j * 2 powi fexp x"
      using le by (simp add: j_def flip: power_int_of_nat power_int_add) (simp add: power_int_add)
    moreover have "even m" using True by (metis even_abs_add_iff even_numeral even_power zero_less_numeral dvd_abs_iff)
    then obtain h where "m = 2 * h" by (rule evenE)
    ultimately have "x = of_int (h * 2 ^ j) * 2 powi fexp x" by (simp add: x mult_ac)
    then show ?thesis by (rule fl_multiple)
  next
    case lt: False
    have "\<bar>x\<bar> = of_int \<bar>m\<bar> * 2 powi k" by (simp add: x abs_mult)
    also have "\<dots> < 2 ^ 53 * 2 powi k"
      using m lt by (intro mult_strict_right_mono) (simp_all add: of_int_less_numeral_power_cancel_iff [symmetric])
    also have "\<dots> = 2 powi (k + 53)" by (simp add: power_int_add)
    finally have "rlog2 \<bar>x\<bar> < k + 53" using False by (intro rlog2_less) simp_all
    then have le: "fexp x \<le> k" using k by (simp add: fexp_def)
    have "(2::rat) powi k = 2 ^ nat (k - fexp x) * 2 powi fexp x"
      using le by (simp flip: power_int_of_nat power_int_add)
    then have "x = of_int (m * 2 ^ nat (k - fexp x)) * 2 powi fexp x" by (simp add: x)
    then show ?thesis by (rule fl_multiple)
  qed
qed simp

lemma fl_le_grid: "x \<le> of_int n * 2 powi fexp x \<Longrightarrow> fl x \<le> of_int n * 2 powi fexp x"
proof (cases "x = 0")
  case False
  assume "x \<le> of_int n * 2 powi fexp x"
  then have "x / 2 powi fexp x \<le> of_int n" by (simp add: pos_divide_le_eq)
  then have "round_even (x / 2 powi fexp x) \<le> n" using round_even_mono by fastforce
  then show ?thesis using False by (simp add: fl_def)
qed simp

lemma fl_ge_grid: "of_int n * 2 powi fexp x \<le> x \<Longrightarrow> of_int n * 2 powi fexp x \<le> fl x"
proof (cases "x = 0")
  case False
  assume "of_int n * 2 powi fexp x \<le> x"
  then have "of_int n \<le> x / 2 powi fexp x" by (simp add: pos_le_divide_eq)
  then have "n \<le> round_even (x / 2 powi fexp x)" using round_even_mono by fastforce
  then show ?thesis using False by (simp add: fl_def)
qed simp

lemma fl_nonneg: "0 \<le> x \<Longrightarrow> 0 \<le> fl x"
  using fl_ge_grid [of 0 x] by simp

lemma fl_mono_pos:
  assumes "0 < x" "x \<le> y"
  shows "fl x \<le> fl y"
proof (cases "fexp x = fexp y")
  case True
  have "round_even (x / 2 powi fexp x) \<le> round_even (y / 2 powi fexp x)"
    using assms by (intro round_even_mono divide_right_mono) simp_all
  then show ?thesis using assms by (simp add: fl_def True mult_right_mono)
next
  case False
  have "rlog2 x \<le> rlog2 y" using assms by (rule rlog2_mono)
  with False assms have less: "fexp x < fexp y" by (auto simp: fexp_def)
  then have ey: "fexp y = rlog2 y - 52" and lx: "rlog2 x + 1 \<le> rlog2 y"
    using assms by (auto simp: fexp_def max_def split: if_splits)
  have "x \<le> 2 powi (rlog2 x + 1)" using rlog2_bounds [of x] assms by simp
  also have "\<dots> \<le> 2 powi rlog2 y" using lx by (intro power_int_increasing) auto
  also have grid: "2 powi rlog2 y = of_int (2 ^ nat (rlog2 y - fexp x)) * (2::rat) powi fexp x"
    using less ey by (simp flip: power_int_of_nat power_int_add)
  finally have "fl x \<le> 2 powi rlog2 y" unfolding grid by (rule fl_le_grid)
  moreover have grid': "2 powi rlog2 y = of_int (2 ^ 52) * (2::rat) powi fexp y"
    by (simp add: ey power_int_diff)
  have "2 powi rlog2 y \<le> y" using rlog2_bounds [of y] assms by simp
  then have "2 powi rlog2 y \<le> fl y" unfolding grid' by (rule fl_ge_grid)
  ultimately show ?thesis by simp
qed

lemma fl_mono: "x \<le> y \<Longrightarrow> fl x \<le> fl y"
proof -
  assume xy: "x \<le> y"
  consider "0 < x" | "x \<le> 0" "0 \<le> y" | "y < 0" by linarith
  then show ?thesis
  proof cases
    case 1 then show ?thesis using xy by (rule fl_mono_pos)
  next
    case 2
    then have "0 \<le> fl (- x)" "0 \<le> fl y" by (simp_all add: fl_nonneg)
    then show ?thesis by (simp add: fl_neg)
  next
    case 3
    then have "fl (- y) \<le> fl (- x)" using xy by (intro fl_mono_pos) simp_all
    then show ?thesis by (simp add: fl_neg)
  qed
qed

lemma representable_int: "\<bar>n\<bar> \<le> 2 ^ 53 \<Longrightarrow> representable (of_int n)"
  unfolding representable_def by (intro exI [of _ n] exI [of _ 0]) simp

lemma fl_int: "\<bar>n\<bar> \<le> 2 ^ 53 \<Longrightarrow> fl (of_int n) = of_int n"
  by (intro fl_representable representable_int)

lemma to_float_small:
  assumes "\<bar>n\<bar> \<le> 2 ^ 53"
  shows "to_float (of_int n) = Fin (of_int n)"
proof -
  have "of_int n < (2::rat) ^ 1024" "- (2 ^ 1024) < (of_int n :: rat)"
  proof -
    have "\<bar>of_int n :: rat\<bar> \<le> 2 ^ 53" using assms by (metis of_int_abs of_int_le_iff of_int_numeral of_int_power)
    also have "\<dots> < 2 ^ 1024" by (rule power_strict_increasing) simp_all
    finally show "of_int n < (2::rat) ^ 1024" "- (2 ^ 1024) < (of_int n :: rat)"
      by (simp_all add: abs_less_iff)
  qed
  with fl_int [OF assms] show ?thesis by (simp add: to_float_def)
qed

lemma fl_numeral_1 [simp]: "fl 1 = 1"
  using fl_int [of 1] by simp

lemma fl_bound:
  assumes "\<bar>n\<bar> \<le> 2 ^ 53"
  shows "x \<le> of_int n \<Longrightarrow> fl x \<le> of_int n" and "of_int n \<le> x \<Longrightarrow> of_int n \<le> fl x"
  using fl_mono [of x "of_int n"] fl_mono [of "of_int n" x] fl_int [OF assms] by simp_all

lemma to_float_unit: "0 \<le> x \<Longrightarrow> x \<le> 1 \<Longrightarrow> to_float x = Fin (fl x) \<and> 0 \<le> fl x \<and> fl x \<le> 1"
proof -
  assume x: "0 \<le> x" "x \<le> 1"
  then have "0 \<le> fl x" "fl x \<le> 1" using fl_bound [of 0 x] fl_bound [of 1 x] by simp_all
  moreover from this have "fl x < 2 ^ 1024" by (rule_tac le_less_trans [of _ 1]) simp_all
  moreover have "- (2 ^ 1024) < fl x" using \<open>0 \<le> fl x\<close> by (rule_tac less_le_trans [of _ 0]) simp_all
  ultimately show ?thesis by (simp add: to_float_def)
qed

text \<open>Rounding gives a double, and leaves it alone.\<close>

lemma representable_fl: "representable (fl x)"
proof (cases "x = 0")
  case True
  then show ?thesis by (simp add: representable_def) (intro exI [of _ 0], simp)
next
  case False
  have "0 < \<bar>x\<bar>" using False by simp
  then have "\<bar>x\<bar> < 2 powi (rlog2 \<bar>x\<bar> + 1)" using rlog2_bounds by blast
  also have "\<dots> \<le> 2 powi (fexp x + 53)" by (intro power_int_increasing) (simp_all add: fexp_def)
  also have "\<dots> = 2 ^ 53 * 2 powi fexp x" by (simp add: power_int_add)
  finally have "\<bar>x\<bar> / 2 powi fexp x \<le> of_int (2 ^ 53)" by (simp add: pos_divide_le_eq)
  then have "\<bar>x / 2 powi fexp x\<bar> \<le> of_int (2 ^ 53)" by (simp add: abs_divide)
  then have b: "x / 2 powi fexp x \<le> of_int (2 ^ 53)" "of_int (- (2 ^ 53)) \<le> x / 2 powi fexp x"
  unfolding abs_le_iff by simp_all
  have "round_even (x / 2 powi fexp x) \<le> 2 ^ 53" "- (2 ^ 53) \<le> round_even (x / 2 powi fexp x)"
  using round_even_mono [OF b(1)] round_even_mono [OF b(2)] unfolding round_even_int by simp_all
  then have "\<bar>round_even (x / 2 powi fexp x)\<bar> \<le> 2 ^ 53" by linarith
  moreover have "- 1074 \<le> fexp x" by (simp add: fexp_def)
  ultimately show ?thesis using False unfolding representable_def fl_def by auto
qed

lemma fl_idem [simp]: "fl (fl x) = fl x"
  by (rule fl_representable [OF representable_fl])

lemma fl_double:
  assumes "fl x = x"
  shows "fl (2 * x) = 2 * x"
proof -
  obtain m k where x: "x = of_int m * 2 powi k" "\<bar>m\<bar> \<le> 2 ^ 53" "- 1074 \<le> k"
    using representable_fl [of x] assms unfolding representable_def by auto
  have "2 * x = of_int m * 2 powi (k + 1)" by (subst x(1)) (simp add: power_int_add)
  moreover have "- 1074 \<le> k + 1" using x(3) by simp
  ultimately have "representable (2 * x)" unfolding representable_def using x(2) by blast
  then show ?thesis by (rule fl_representable)
qed

text \<open>Rounding from an enclosure: the double \<open>m * 2 powi e\<close> is less than half a unit away.\<close>

lemma round_even_near: "\<bar>y - of_int m\<bar> < 1 / 2 \<Longrightarrow> round_even y = m"
proof -
  assume near: "\<bar>y - of_int m\<bar> < 1 / 2"
  then consider "\<lfloor>y\<rfloor> = m" "y - of_int \<lfloor>y\<rfloor> < 1 / 2" | "\<lfloor>y\<rfloor> = m - 1" "y - of_int \<lfloor>y\<rfloor> > 1 / 2"
  proof (cases "of_int m \<le> y")
    case True
    with near have "\<lfloor>y\<rfloor> = m" by (intro floor_unique) auto
    with near True that(1) show ?thesis by auto
  next
    case False
    with near have "\<lfloor>y\<rfloor> = m - 1" by (intro floor_unique) auto
    with near False that(2) show ?thesis by auto
  qed
  then show ?thesis by cases (simp_all add: round_even_def)
qed

lemma fl_near:
  assumes "2 powi (e + 52) \<le> x" "x < 2 powi (e + 53)" "- 1074 \<le> e"
    and "\<bar>x - of_int m * 2 powi e\<bar> < 2 powi e / 2"
  shows "fl x = of_int m * 2 powi e"
proof -
  have x: "0 < x" using assms(1) by (rule less_le_trans [OF powi_pos])
  have "rlog2 x < e + 53" using rlog2_less [OF x assms(2)] .
  moreover have "\<not> rlog2 x < e + 52"
  proof
    assume "rlog2 x < e + 52"
    then have "(2 :: rat) powi (rlog2 x + 1) \<le> 2 powi (e + 52)" by (intro power_int_increasing) auto
    with rlog2_bounds [OF x] assms(1) show False by simp
  qed
  ultimately have "rlog2 x = e + 52" by simp
  then have e: "fexp x = e" using x assms(3) by (simp add: fexp_def)
  have "\<bar>x / 2 powi e - of_int m\<bar> = \<bar>x - of_int m * 2 powi e\<bar> / 2 powi e"
    by (simp add: abs_divide field_simps flip: abs_divide [of _ "2 powi e :: rat", simplified])
  also have "\<dots> < 1 / 2" using assms(4) by (simp add: pos_divide_less_eq)
  finally have "round_even (x / 2 powi e) = m" by (rule round_even_near)
  then show ?thesis using x e by (simp add: fl_def)
qed

lemma fl_fixed_mantissa:
  assumes "fl x = x" "0 < x"
  obtains m where "x = of_int m * 2 powi fexp x" "0 < m" "m < 2 ^ 53"
proof -
  define m where "m = round_even (x / 2 powi fexp x)"
  have x: "x = of_int m * 2 powi fexp x" using assms by (simp add: fl_def m_def)
  have "x < 2 powi (rlog2 x + 1)" using rlog2_bounds assms by blast
  also have "\<dots> \<le> 2 powi (fexp x + 53)" using assms by (intro power_int_increasing) (simp_all add: fexp_def)
  also have "\<dots> = of_int (2 ^ 53) * 2 powi fexp x" by (simp add: power_int_add)
  finally have "of_int m * 2 powi fexp x < of_int (2 ^ 53) * (2 :: rat) powi fexp x"
    unfolding x [symmetric] .
  then have "(of_int m :: rat) < of_int (2 ^ 53)" by (rule mult_right_less_imp_less) simp
  then have "m < 2 ^ 53" unfolding of_int_less_iff .
  moreover have "0 < m" using x assms by (metis mult_nonpos_nonneg not_le of_int_le_0_iff order.strict_iff_not powi_pos)
  ultimately show ?thesis using that x by blast
qed

text \<open>A quotient of doubles below one stays below one after rounding.\<close>

text \<open>The largest double below one.\<close>

definition below_one :: rat where
  "below_one = of_int (2 ^ 53 - 1) / 2 ^ 53"

lemma fl_below_one: "fl below_one = below_one" "below_one < 1" "0 \<le> below_one"
proof -
  show "fl below_one = below_one"
  proof (rule fl_representable)
    have "(2 :: rat) powi (- 53) = 1 / 2 ^ 53" by (simp add: power_int_def power_divide)
    then have "below_one = of_int (2 ^ 53 - 1) * 2 powi (- 53)"
      by (simp only: below_one_def times_divide_eq_right mult_1_right)
    moreover have "\<bar>2 ^ 53 - 1 :: int\<bar> \<le> 2 ^ 53 \<and> - 1074 \<le> (- 53 :: int)" by simp
    ultimately show "representable below_one" unfolding representable_def by blast
  qed
qed (simp_all add: below_one_def)

lemma below_one_int:
  assumes "n * 2 ^ 53 \<le> m * (2 ^ 53 - 1)"
  shows "of_int n \<le> of_int m * below_one"
proof -
  have "(of_int (n * 2 ^ 53) :: rat) \<le> of_int (m * (2 ^ 53 - 1))"
    using assms by (simp only: of_int_le_iff)
  then have "of_int n * 2 ^ 53 \<le> (of_int m * of_int (2 ^ 53 - 1) :: rat)"
    by (simp only: of_int_mult of_int_power of_int_numeral)
  then show ?thesis by (simp add: below_one_def pos_le_divide_eq)
qed

lemma scaled_below_one:
  assumes "n * 2 ^ 53 \<le> m * (2 ^ 53 - 1)"
  shows "of_int n * 2 powi e \<le> of_int m * 2 powi e * below_one"
proof -
  have "of_int n * 2 powi e \<le> of_int m * below_one * 2 powi e"
    by (rule mult_right_mono [OF below_one_int [OF assms]]) simp
  then show ?thesis by (simp add: mult_ac)
qed

lemma int_pred_53: "n < m \<Longrightarrow> m < 2 ^ 53 \<Longrightarrow> n * 2 ^ 53 \<le> m * (2 ^ 53 - 1 :: int)"
proof -
  assume "n < m" "m < 2 ^ 53"
  then have "n * 2 ^ 53 \<le> (m - 1) * 2 ^ 53" by (intro mult_right_mono) simp_all
  also have "\<dots> \<le> m * (2 ^ 53 - 1)" using \<open>m < 2 ^ 53\<close> by (simp add: algebra_simps)
  finally show ?thesis .
qed

lemma int_pow_53: "n < 2 ^ j \<Longrightarrow> j \<le> 53 \<Longrightarrow> n * 2 ^ 53 \<le> 2 ^ j * (2 ^ 53 - 1 :: int)"
proof -
  assume n: "n < 2 ^ j" and "j \<le> 53"
  then have "(2 ^ j - 1) * 2 ^ 53 \<le> (2 ^ j * (2 ^ 53 - 1) :: int)"
    using power_increasing [of j 53 "2::int"] by (simp add: algebra_simps)
  moreover have "n * 2 ^ 53 \<le> (2 ^ j - 1) * 2 ^ 53" using n by (intro mult_right_mono) simp_all
  ultimately show ?thesis by simp
qed

text \<open>Two mantissas with the larger number on the finer or equal scale.\<close>

lemma fine_scale_below_one:
  assumes "c = of_int n * 2 powi ec" "d = of_int m * 2 powi ed" "m < 2 ^ 53" "ed \<le> ec" "c < d"
  shows "c \<le> d * below_one"
proof -
  have "2 powi ec = of_int (2 ^ nat (ec - ed)) * (2::rat) powi ed"
    using assms(4) by (simp flip: power_int_of_nat power_int_add)
  then have c: "c = of_int (n * 2 ^ nat (ec - ed)) * 2 powi ed" using assms(1) by simp
  then have "of_int (n * 2 ^ nat (ec - ed)) < (of_int m :: rat)"
    using assms(2,5) by (metis mult_less_cancel_right_pos powi_pos)
  then have "n * 2 ^ nat (ec - ed) < m" by (simp only: of_int_less_iff)
  from scaled_below_one [OF int_pred_53 [OF this assms(3)], of ed] show ?thesis
    by (simp only: c assms(2))
qed

text \<open>A number is below the next power of two by a factor.\<close>

lemma binade_below_one:
  assumes c: "c = of_int n * 2 powi ec" "0 < n" "0 < c" "rlog2 c - 52 \<le> ec"
  shows "c \<le> 2 powi (rlog2 c + 1) * below_one"
proof -
  have "1 * 2 powi ec \<le> of_int n * (2 :: rat) powi ec"
    using c(2) by (intro mult_right_mono) simp_all
  then have "2 powi ec \<le> c" by (simp add: c(1))
  then have "2 powi ec < (2 :: rat) powi (rlog2 c + 1)"
    using rlog2_bounds [OF c(3)] by linarith
  then have ec: "ec < rlog2 c + 1"
    using power_int_increasing [of "rlog2 c + 1" "ec" "2 :: rat"] by linarith
  define j where "j = nat (rlog2 c + 1 - ec)"
  have j: "j \<le> 53" "int j = rlog2 c + 1 - ec" using ec c(4) by (auto simp: j_def)
  have top: "2 powi (rlog2 c + 1) = of_int (2 ^ j) * (2::rat) powi ec"
    using j(2) by (simp flip: power_int_of_nat power_int_add)
  have "of_int n < (of_int (2 ^ j) :: rat)"
    using rlog2_bounds [OF c(3)] c(1) top by (metis mult_less_cancel_right_pos powi_pos)
  then have "n < 2 ^ j" by (simp only: of_int_less_iff)
  from scaled_below_one [OF int_pow_53 [OF this j(1)], of ec] show ?thesis
    unfolding top by (simp only: c(1) [symmetric])
qed

lemma fl_quotient_below_one:
  assumes c: "fl c = c" "0 \<le> c" and d: "fl d = d" and less: "c < d"
  shows "fl (c / d) < 1"
proof (cases "c = 0")
  case False
  then have pos: "0 < c" "0 < d" using c less by simp_all
  obtain n where n: "c = of_int n * 2 powi fexp c" "0 < n" "n < 2 ^ 53"
    using fl_fixed_mantissa [OF c(1) pos(1)] by metis
  obtain m where m: "d = of_int m * 2 powi fexp d" "0 < m" "m < 2 ^ 53"
    using fl_fixed_mantissa [OF d pos(2)] by metis
  have ec: "rlog2 c - 52 \<le> fexp c" "- 1074 \<le> fexp c" "fexp c = rlog2 c - 52 \<or> fexp c = - 1074"
    and ed: "fexp d = rlog2 d - 52 \<or> fexp d = - 1074"
    using pos by (auto simp: fexp_def)
  have "c \<le> d * below_one"
  proof (cases "fexp d \<le> fexp c")
    case True
    from fine_scale_below_one [OF n(1) m(1,3) True less] show ?thesis .
  next
    case False
    then have "rlog2 c + 1 \<le> rlog2 d" using ec ed by linarith
    then have "2 powi (rlog2 c + 1) \<le> (2 :: rat) powi rlog2 d"
      by (intro power_int_increasing) simp_all
    then have "2 powi (rlog2 c + 1) \<le> d" using rlog2_bounds [OF pos(2)] by linarith
    then have "2 powi (rlog2 c + 1) * below_one \<le> d * below_one" by (rule mult_right_mono [OF _ fl_below_one(3)])
    with binade_below_one [OF n(1,2) pos(1) ec(1)] show ?thesis by (rule order_trans)
  qed
  then have "c / d \<le> below_one" using pos by (simp add: pos_divide_le_eq mult.commute)
  then have "fl (c / d) \<le> fl below_one" by (rule fl_mono)
  with fl_below_one show ?thesis by simp
qed simp

end
