(* ===== verification/Sha_Guard.thy ===== *)
theory Sha_Guard
  imports Py_Effects Py_Float
begin

text \<open>
  The SHA guards (\<^verbatim>\<open>kenjutsu/pipeline/sha_guard.py\<close>).  The state is the module's cache with the
  outside world \<open>'w\<close>; GitHub, the clock and \<open>asyncio.sleep\<close> are the operations of a record
  \<open>github\<close>, and may do anything.  A network exception of the client is \<open>NetworkError\<close>
  (\<open>TimeoutException\<close>, \<open>ConnectError\<close>, \<open>NetworkError\<close> of httpx), the ones the code catches.
\<close>

section \<open>Data\<close>

datatype guard_result = CURRENT | STALE | API_ERROR

record pr_ref =
  pf_repo_owner :: pystr
  pf_repo_name :: pystr
  pf_pr_number :: int
  pf_expected_head_sha :: pystr

record gh_request =
  gq_url :: pystr
  gq_authorization :: pystr
  gq_if_none_match :: "pystr option"

text \<open>\<open>gr_head_sha\<close> is what \<open>response.json()["head"]["sha"]\<close> gives or raises.\<close>

record gh_response =
  gr_status :: nat
  gr_head_sha :: "pystr result"
  gr_etag :: "pystr option"

record 'w github =
  gh_get :: "gh_request \<Rightarrow> ('w, gh_response) proc"
  gh_now :: "'w \<Rightarrow> pyfloat \<times> 'w"
  gh_sleep :: "pyfloat \<Rightarrow> 'w \<Rightarrow> 'w"

type_synonym pr_key = "pystr \<times> pystr \<times> int"
type_synonym sha_entry = "pystr \<times> pyfloat \<times> pystr option"
type_synonym 'w guard_state = "(pr_key \<rightharpoonup> sha_entry) \<times> 'w"

definition max_retries :: nat where "max_retries = 3"
definition sha_cache_ttl :: pyfloat where "sha_cache_ttl = Fin 5"

section \<open>The cache\<close>

definition cache_key :: "pr_ref \<Rightarrow> pr_key" where
  "cache_key pr = (pf_repo_owner pr, pf_repo_name pr, pf_pr_number pr)"

definition get_cached :: "'w github \<Rightarrow> pr_ref \<Rightarrow> ('w guard_state, (pystr \<times> pystr option) option) proc" where
  "get_cached gh pr = (\<lambda>(cache, w).
     case cache (cache_key pr) of
       None \<Rightarrow> (Inr None, cache, w)
     | Some (sha, fetched_at, etag) \<Rightarrow>
         (case gh_now gh w of (now, w') \<Rightarrow>
            (Inr (if flt (fsub now fetched_at) sha_cache_ttl then Some (sha, etag) else None), cache, w')))"

definition set_cached :: "'w github \<Rightarrow> pr_ref \<Rightarrow> pystr \<Rightarrow> pystr option \<Rightarrow> ('w guard_state, unit) proc" where
  "set_cached gh pr sha etag = (\<lambda>(cache, w).
     case gh_now gh w of (now, w') \<Rightarrow> (Inr (), cache(cache_key pr \<mapsto> (sha, now, etag)), w'))"

definition evict_cached :: "pr_ref \<Rightarrow> ('w guard_state, unit) proc" where
  "evict_cached pr = (\<lambda>(cache, w). (Inr (), cache(cache_key pr := None), w))"

section \<open>The check\<close>

definition github_get :: "'w github \<Rightarrow> gh_request \<Rightarrow> ('w guard_state, gh_response) proc" where
  "github_get gh req = (\<lambda>(cache, w). case gh_get gh req w of (r, w') \<Rightarrow> (r, cache, w'))"

definition async_sleep :: "'w github \<Rightarrow> pyfloat \<Rightarrow> ('w guard_state, unit) proc" where
  "async_sleep gh d = (\<lambda>(cache, w). (Inr (), cache, gh_sleep gh d w))"

definition of_result :: "'a result \<Rightarrow> ('s, 'a) proc" where
  "of_result r = (\<lambda>s. (r, s))"

definition compare_sha :: "pr_ref \<Rightarrow> pystr \<Rightarrow> guard_result" where
  "compare_sha pr sha = (if sha = pf_expected_head_sha pr then CURRENT else STALE)"

definition pulls_url :: "pr_ref \<Rightarrow> pystr" where
  "pulls_url pr = u ''https://api.github.com/repos/'' @ pf_repo_owner pr @ u ''/'' @ pf_repo_name pr
     @ u ''/pulls/'' @ int_str (pf_pr_number pr)"

definition retry_delay :: "nat \<Rightarrow> pyfloat" where
  "retry_delay attempt = Fin (2 ^ attempt)"

text \<open>What one attempt does with a response: \<open>None\<close> is \<open>continue\<close>.\<close>

definition handle_response ::
  "'w github \<Rightarrow> pr_ref \<Rightarrow> sha_entry option \<Rightarrow> nat \<Rightarrow> gh_response \<Rightarrow> ('w guard_state, guard_result option) proc"
where
  "handle_response gh pr stale_entry attempt response =
     (if gr_status response = 200 then
        seq (of_result (gr_head_sha response)) (\<lambda>current_sha.
        seq (set_cached gh pr current_sha (gr_etag response)) (\<lambda>_.
          return (Some (compare_sha pr current_sha))))
      else if gr_status response = 304 then
        (case stale_entry of
           None \<Rightarrow> return (Some API_ERROR)
         | Some (old_sha, _, old_etag) \<Rightarrow>
             seq (set_cached gh pr old_sha old_etag) (\<lambda>_. return (Some (compare_sha pr old_sha))))
      else if gr_status response = 403 \<or> gr_status response = 429 then return (Some API_ERROR)
      else if gr_status response \<ge> 500 \<and> attempt < max_retries - 1 then
        seq (async_sleep gh (retry_delay attempt)) (\<lambda>_. return None)
      else return (Some API_ERROR))"

text \<open>\<open>try: ... except (TimeoutException, ConnectError, NetworkError): ...\<close>\<close>

definition catch_network :: "('s, 'a) proc \<Rightarrow> ('s, 'a) proc \<Rightarrow> ('s, 'a) proc" where
  "catch_network m h = (\<lambda>s. case m s of (Inl NetworkError, s') \<Rightarrow> h s' | x \<Rightarrow> x)"

definition attempt_once ::
  "'w github \<Rightarrow> pr_ref \<Rightarrow> gh_request \<Rightarrow> sha_entry option \<Rightarrow> nat \<Rightarrow> ('w guard_state, guard_result option) proc"
where
  "attempt_once gh pr req stale_entry attempt =
     catch_network
       (seq (github_get gh req) (handle_response gh pr stale_entry attempt))
       (if attempt < max_retries - 1
        then seq (async_sleep gh (retry_delay attempt)) (\<lambda>_. return None)
        else return None)"

fun attempt_loop ::
  "'w github \<Rightarrow> pr_ref \<Rightarrow> gh_request \<Rightarrow> sha_entry option \<Rightarrow> nat list \<Rightarrow> ('w guard_state, guard_result) proc"
where
  "attempt_loop gh pr req stale_entry [] = return API_ERROR"
| "attempt_loop gh pr req stale_entry (attempt # attempts) =
     seq (attempt_once gh pr req stale_entry attempt) (\<lambda>outcome.
       case outcome of
         Some result \<Rightarrow> return result
       | None \<Rightarrow> attempt_loop gh pr req stale_entry attempts)"

definition read_cache :: "pr_ref \<Rightarrow> ('w guard_state, sha_entry option) proc" where
  "read_cache pr = (\<lambda>(cache, w). (Inr (cache (cache_key pr)), cache, w))"

definition github_headers :: "pr_ref \<Rightarrow> pystr \<Rightarrow> sha_entry option \<Rightarrow> gh_request" where
  "github_headers pr github_token stale_entry =
     \<lparr>gq_url = pulls_url pr, gq_authorization = u ''Bearer '' @ github_token,
      gq_if_none_match = (case stale_entry of
         Some (_, _, Some etag) \<Rightarrow> if etag \<noteq> [] then Some etag else None
       | _ \<Rightarrow> None)\<rparr>"

definition check_sha_current :: "'w github \<Rightarrow> pr_ref \<Rightarrow> pystr \<Rightarrow> ('w guard_state, guard_result) proc" where
  "check_sha_current gh pr github_token =
     seq (get_cached gh pr) (\<lambda>cached.
       case cached of
         Some (cached_sha, _) \<Rightarrow> return (compare_sha pr cached_sha)
       | None \<Rightarrow>
           seq (read_cache pr) (\<lambda>stale_entry.
             attempt_loop gh pr (github_headers pr github_token stale_entry) stale_entry [0..<max_retries]))"

definition entry_guard :: "'w github \<Rightarrow> pr_ref \<Rightarrow> pystr \<Rightarrow> ('w guard_state, guard_result) proc" where
  "entry_guard gh pr github_token = check_sha_current gh pr github_token"

definition exit_guard :: "'w github \<Rightarrow> pr_ref \<Rightarrow> pystr \<Rightarrow> ('w guard_state, guard_result) proc" where
  "exit_guard gh pr github_token =
     seq (evict_cached pr) (\<lambda>_. check_sha_current gh pr github_token)"

section \<open>Recording the exchange with GitHub\<close>

type_synonym exchange = "gh_request \<times> gh_response result"

definition logging :: "'w github \<Rightarrow> ('w \<times> exchange list) github" where
  "logging gh = \<lparr>
     gh_get = (\<lambda>req (w, es). case gh_get gh req w of (r, w') \<Rightarrow> (r, w', es @ [(req, r)])),
     gh_now = (\<lambda>(w, es). case gh_now gh w of (t, w') \<Rightarrow> (t, w', es)),
     gh_sleep = (\<lambda>d (w, es). (gh_sleep gh d w, es))\<rparr>"

text \<open>
  The contract of one exchange.  \<open>retryable\<close>: the code may try again after it.  \<open>settles\<close>: it
  decides the result, and what it does to the cache.
\<close>

definition retryable :: "gh_response result \<Rightarrow> bool" where
  "retryable x \<longleftrightarrow> x = Inl NetworkError
     \<or> (\<exists>r. x = Inr r \<and> (gr_status r \<ge> 500 \<or> gr_status r = 200 \<and> gr_head_sha r = Inl NetworkError))"

definition settles ::
  "pr_ref \<Rightarrow> sha_entry option \<Rightarrow> (pr_key \<rightharpoonup> sha_entry) \<Rightarrow> gh_response result \<Rightarrow> guard_result
     \<Rightarrow> (pr_key \<rightharpoonup> sha_entry) \<Rightarrow> bool" where
  "settles pr stale cache x res cache' \<longleftrightarrow>
     (\<exists>r. x = Inr r \<and>
       (gr_status r = 200 \<and> (\<exists>sha t. gr_head_sha r = Inr sha \<and> res = compare_sha pr sha
            \<and> cache' = cache(cache_key pr \<mapsto> (sha, t, gr_etag r)))
        \<or> gr_status r = 304 \<and> (\<exists>sha t t' etag. stale = Some (sha, t, etag) \<and> res = compare_sha pr sha
            \<and> cache' = cache(cache_key pr \<mapsto> (sha, t', etag)))
        \<or> gr_status r \<noteq> 200 \<and> (gr_status r = 304 \<longrightarrow> stale = None) \<and> res = API_ERROR \<and> cache' = cache))"

definition raises_with :: "gh_response result \<Rightarrow> py_error \<Rightarrow> bool" where
  "raises_with x e \<longleftrightarrow> x = Inl e \<or> (\<exists>r. x = Inr r \<and> gr_status r = 200 \<and> gr_head_sha r = Inl e)"

abbreviation guard_at ::
  "(pr_key \<rightharpoonup> sha_entry) \<Rightarrow> exchange list \<Rightarrow> ('w \<times> exchange list) guard_state \<Rightarrow> bool" where
  "guard_at cache es st \<equiv> fst st = cache \<and> snd (snd st) = es"

lemma handle_response_triple:
  "triple (guard_at cache es) (handle_response (logging gh) pr stale k r)
     (\<lambda>outcome st. snd (snd st) = es \<and> (case outcome of
          Some res \<Rightarrow> settles pr stale cache (Inr r) res (fst st)
        | None \<Rightarrow> retryable (Inr r) \<and> fst st = cache))
     (\<lambda>e st. guard_at cache es st \<and> raises_with (Inr r) e)"
  by (rule tripleI)
    (auto simp: handle_response_def seq_def return_def of_result_def set_cached_def async_sleep_def
      logging_def settles_def retryable_def raises_with_def
      split: prod.split_asm sum.split_asm if_split_asm option.split_asm)

lemma triple_catch:
  assumes "triple P m Q F" and "\<And>e s. e \<noteq> NetworkError \<Longrightarrow> F e s \<Longrightarrow> E e s" and "triple (F NetworkError) h Q E"
  shows "triple P (catch_network m h) Q E"
proof (unfold triple_def, intro allI impI)
  fix s assume P: "P s"
  obtain r t where m: "m s = (r, t)" by (metis surj_pair)
  show "case catch_network m h s of (Inr x, s') \<Rightarrow> Q x s' | (Inl e, s') \<Rightarrow> E e s'"
  proof (cases r)
    case (Inr x)
    then show ?thesis using tripleD(1) [OF assms(1) P] m by (simp add: catch_network_def)
  next
    case (Inl e)
    then have "F e t" using tripleD(2) [OF assms(1) P] m by simp
    then show ?thesis
      using assms(2,3) m Inl by (cases e) (simp_all add: catch_network_def triple_def)
  qed
qed

lemma github_get_triple:
  "triple (guard_at cache es) (github_get (logging gh) req)
     (\<lambda>r. guard_at cache (es @ [(req, Inr r)])) (\<lambda>e. guard_at cache (es @ [(req, Inl e)]))"
  by (rule tripleI) (auto simp: github_get_def logging_def split: prod.split_asm)

lemma wait_triple:
  "triple (guard_at cache es)
     (if b then seq (async_sleep (logging gh) d) (\<lambda>_. return None) else return None)
     (\<lambda>outcome st. outcome = None \<and> guard_at cache es st) E"
  by (rule tripleI) (auto simp: seq_def return_def async_sleep_def logging_def split: if_split_asm)

lemma attempt_once_triple:
  fixes gh :: "'w github"
  shows "triple (guard_at cache es) (attempt_once (logging gh) pr req stale k)
     (\<lambda>outcome st. \<exists>x. snd (snd st) = es @ [(req, x)] \<and> (case outcome of
          Some res \<Rightarrow> settles pr stale cache x res (fst st)
        | None \<Rightarrow> retryable x \<and> fst st = cache))
     (\<lambda>e st. \<exists>x. guard_at cache (es @ [(req, x)]) st \<and> raises_with x e)"
    (is "triple _ _ ?Q ?E")
  unfolding attempt_once_def
proof (rule triple_catch)
  show "triple (guard_at cache es) (seq (github_get (logging gh) req) (handle_response (logging gh) pr stale k)) ?Q ?E"
  proof (rule triple_step [OF github_get_triple])
    show "triple (guard_at cache (es @ [(req, Inr r)])) (handle_response (logging gh) pr stale k r) ?Q ?E" for r
      by (rule triple_cons [OF handle_response_triple]) blast+
  qed (auto simp: raises_with_def)
  show "triple (?E NetworkError)
     (if k < max_retries - 1 then seq (async_sleep (logging gh) (retry_delay k)) (\<lambda>_. return None) else return None) ?Q ?E"
  proof (rule triple_ex)
    fix x :: "gh_response result"
    have "raises_with x NetworkError \<Longrightarrow> retryable x" by (auto simp: raises_with_def retryable_def)
    then show "triple (\<lambda>st. guard_at cache (es @ [(req, x)]) st \<and> raises_with x NetworkError)
       (if k < max_retries - 1 then seq (async_sleep (logging gh) (retry_delay k)) (\<lambda>_. return None) else return None) ?Q ?E"
      by (cases "raises_with x NetworkError") (rule triple_cons [OF wait_triple], auto simp: triple_def)
  qed
qed

text \<open>What a whole check answers, from the exchanges \<open>xs\<close> it made.\<close>

definition answered ::
  "pr_ref \<Rightarrow> sha_entry option \<Rightarrow> nat \<Rightarrow> (pr_key \<rightharpoonup> sha_entry) \<Rightarrow> gh_response result list \<Rightarrow> guard_result
     \<Rightarrow> (pr_key \<rightharpoonup> sha_entry) \<Rightarrow> bool" where
  "answered pr stale n cache xs res cache' \<longleftrightarrow>
     length xs \<le> n
     \<and> (xs \<noteq> [] \<and> (\<forall>y \<in> set (butlast xs). retryable y) \<and> settles pr stale cache (last xs) res cache'
        \<or> (\<forall>y \<in> set xs. retryable y) \<and> length xs = n \<and> res = API_ERROR \<and> cache' = cache)"

lemma answered_Cons:
  "retryable x \<Longrightarrow> answered pr stale n cache xs res cache' \<Longrightarrow> answered pr stale (Suc n) cache (x # xs) res cache'"
  by (cases xs) (auto simp: answered_def)

lemma answered_settles: "settles pr stale cache x res cache' \<Longrightarrow> answered pr stale (Suc n) cache [x] res cache'"
  by (simp add: answered_def)

definition loop_returned ::
  "pr_ref \<Rightarrow> sha_entry option \<Rightarrow> gh_request \<Rightarrow> (pr_key \<rightharpoonup> sha_entry) \<Rightarrow> exchange list \<Rightarrow> nat
     \<Rightarrow> guard_result \<Rightarrow> ('w \<times> exchange list) guard_state \<Rightarrow> bool" where
  "loop_returned pr stale req cache es n res st \<longleftrightarrow>
     (\<exists>xs. snd (snd st) = es @ map (Pair req) xs \<and> answered pr stale n cache xs res (fst st))"

definition loop_raised ::
  "gh_request \<Rightarrow> (pr_key \<rightharpoonup> sha_entry) \<Rightarrow> exchange list \<Rightarrow> nat \<Rightarrow> py_error \<Rightarrow> ('w \<times> exchange list) guard_state \<Rightarrow> bool"
where
  "loop_raised req cache es n e st \<longleftrightarrow>
     (\<exists>xs. xs \<noteq> [] \<and> length xs \<le> n \<and> guard_at cache (es @ map (Pair req) xs) st
        \<and> raises_with (last xs) e \<and> (\<forall>y \<in> set (butlast xs). retryable y))"

text \<open>What holds after the exchanges that follow a retryable one holds after all of them.\<close>

lemma loop_returned_Cons:
  assumes "retryable x" and "loop_returned pr stale req cache (es @ [(req, x)]) n res st"
  shows "loop_returned pr stale req cache es (Suc n) res st"
proof -
  obtain xs where "snd (snd st) = (es @ [(req, x)]) @ map (Pair req) xs" "answered pr stale n cache xs res (fst st)"
    using assms(2) by (auto simp: loop_returned_def)
  with assms(1) show ?thesis
    unfolding loop_returned_def by (intro exI [of _ "x # xs"]) (simp add: answered_Cons)
qed

lemma loop_raised_Cons:
  assumes "retryable x" and "loop_raised req cache (es @ [(req, x)]) n e st"
  shows "loop_raised req cache es (Suc n) e st"
proof -
  obtain xs where "xs \<noteq> []" "length xs \<le> n" "guard_at cache ((es @ [(req, x)]) @ map (Pair req) xs) st"
    "raises_with (last xs) e" "\<forall>y \<in> set (butlast xs). retryable y"
    using assms(2) unfolding loop_raised_def by blast
  with assms(1) show ?thesis unfolding loop_raised_def by (intro exI [of _ "x # xs"]) simp
qed

lemma loop_settled:
  "snd (snd st) = es @ [(req, x)] \<Longrightarrow> settles pr stale cache x res (fst st) \<Longrightarrow> loop_returned pr stale req cache es (Suc n) res st"
  unfolding loop_returned_def by (intro exI [of _ "[x]"]) (simp add: answered_settles)

lemma loop_raised_once:
  "guard_at cache (es @ [(req, x)]) st \<Longrightarrow> raises_with x e \<Longrightarrow> loop_raised req cache es (Suc n) e st"
  unfolding loop_raised_def by (intro exI [of _ "[x]"]) simp

lemma attempt_loop_triple:
  fixes gh :: "'w github"
  shows "triple (guard_at cache es) (attempt_loop (logging gh) pr req stale ks)
     (loop_returned pr stale req cache es (length ks)) (loop_raised req cache es (length ks))"
proof (induction ks arbitrary: es)
  case Nil
  show ?case
    by (auto intro!: triple_return exI [of _ "[]"] simp: loop_returned_def answered_def)
next
  case (Cons k ks)
  let ?Q = "loop_returned pr stale req cache es (length (k # ks))" and ?E = "loop_raised req cache es (length (k # ks))"
  have rest: "triple (guard_at cache (es @ [(req, x)])) (attempt_loop (logging gh) pr req stale ks) ?Q ?E"
    if "retryable x" for x
    by (rule triple_cons [OF Cons.IH]) (use that in \<open>auto intro: loop_returned_Cons loop_raised_Cons\<close>)
  show ?case
    unfolding attempt_loop.simps
  proof (rule triple_step [OF attempt_once_triple], rule triple_ex)
    fix outcome and x :: "gh_response result"
    show "triple (\<lambda>st. snd (snd st) = es @ [(req, x)] \<and> (case outcome of
          Some res \<Rightarrow> settles pr stale cache x res (fst st)
        | None \<Rightarrow> retryable x \<and> fst st = cache))
      (case outcome of Some result \<Rightarrow> return result | None \<Rightarrow> attempt_loop (logging gh) pr req stale ks) ?Q ?E"
    proof (cases outcome)
      case (Some res)
      then show ?thesis by (auto intro!: triple_return loop_settled)
    next
      case None
      then show ?thesis
        by (cases "retryable x") (simp, rule triple_cons [OF rest], auto simp: triple_def)
    qed
  qed (auto intro: loop_raised_once)
qed

text \<open>With nothing cached for the pull request, a check asks GitHub, without an etag.\<close>

definition fresh_request :: "pr_ref \<Rightarrow> pystr \<Rightarrow> gh_request" where
  "fresh_request pr token = \<lparr>gq_url = pulls_url pr, gq_authorization = u ''Bearer '' @ token,
     gq_if_none_match = None\<rparr>"

lemma exit_guard_asks:
  "exit_guard gh pr token (cache, w) =
     attempt_loop gh pr (fresh_request pr token) None [0..<max_retries] (cache(cache_key pr := None), w)"
  by (simp add: exit_guard_def check_sha_current_def seq_def evict_cached_def get_cached_def
      read_cache_def github_headers_def fresh_request_def)

lemma exit_guard_run:
  assumes "exit_guard (logging gh) pr token (cache, w, []) = (r, cache', w', es)"
  shows "\<exists>xs. es = map (Pair (fresh_request pr token)) xs \<and> length xs \<le> 3 \<and>
     (case r of Inr res \<Rightarrow> answered pr None 3 (cache(cache_key pr := None)) xs res cache'
      | Inl e \<Rightarrow> xs \<noteq> [] \<and> cache' = cache(cache_key pr := None) \<and> raises_with (last xs) e
          \<and> (\<forall>y \<in> set (butlast xs). retryable y))"
proof -
  let ?c = "cache(cache_key pr := None)"
  have run: "attempt_loop (logging gh) pr (fresh_request pr token) None [0..<max_retries] (?c, w, [])
      = (r, cache', w', es)"
    using assms by (simp add: exit_guard_asks)
  note T = tripleD [OF attempt_loop_triple
      [of ?c "[]" gh pr "fresh_request pr token" None "[0..<max_retries]"], of "(?c, w, [])"]
  show ?thesis
  proof (cases r)
    case (Inr res)
    with T(1) run show ?thesis by (auto simp: max_retries_def answered_def loop_returned_def)
  next
    case (Inl e)
    with T(2) run show ?thesis by (auto simp: max_retries_def loop_raised_def)
  qed
qed

lemma retryable_no_sha: "retryable (Inr r) \<Longrightarrow> gr_status r = 200 \<Longrightarrow> gr_head_sha r \<noteq> Inr sha"
  by (auto simp: retryable_def)

lemma answered_fresh:
  assumes "answered pr None n c xs res c'"
  shows "\<forall>y \<in> set (butlast xs). retryable y"
    and "res \<noteq> API_ERROR \<Longrightarrow> \<exists>resp sha t. xs \<noteq> [] \<and> last xs = Inr resp \<and> gr_status resp = 200
      \<and> gr_head_sha resp = Inr sha \<and> res = compare_sha pr sha \<and> c' = c(cache_key pr \<mapsto> (sha, t, gr_etag resp))"
    and "res = API_ERROR \<Longrightarrow> c' = c \<and> (\<forall>x \<in> set xs. \<forall>resp sha. x = Inr resp \<longrightarrow> gr_status resp = 200
      \<longrightarrow> gr_head_sha resp \<noteq> Inr sha)"
proof -
  show "\<forall>y \<in> set (butlast xs). retryable y"
    using assms by (auto simp: answered_def dest: in_set_butlastD)
  show "\<exists>resp sha t. xs \<noteq> [] \<and> last xs = Inr resp \<and> gr_status resp = 200
      \<and> gr_head_sha resp = Inr sha \<and> res = compare_sha pr sha \<and> c' = c(cache_key pr \<mapsto> (sha, t, gr_etag resp))"
    if "res \<noteq> API_ERROR"
    using assms that by (auto simp: answered_def settles_def)
  assume api: "res = API_ERROR"
  have last: "c' = c \<and> (\<forall>resp sha. x = Inr resp \<longrightarrow> gr_status resp = 200 \<longrightarrow> gr_head_sha resp \<noteq> Inr sha)"
    if "settles pr None c x res c'" for x
    using that api by (auto simp: settles_def compare_sha_def split: if_splits)
  show "c' = c \<and> (\<forall>x \<in> set xs. \<forall>resp sha. x = Inr resp \<longrightarrow> gr_status resp = 200
      \<longrightarrow> gr_head_sha resp \<noteq> Inr sha)"
    using assms unfolding answered_def
  proof (elim conjE disjE)
    assume xs: "xs \<noteq> []" "\<forall>y \<in> set (butlast xs). retryable y" "settles pr None c (last xs) res c'"
    then have "set xs = insert (last xs) (set (butlast xs))"
      by (metis append_butlast_last_id list.simps(15) rotate1.simps(2) set_rotate1)
    with xs last [OF xs(3)] retryable_no_sha show ?thesis by fastforce
  next
    assume "\<forall>y \<in> set xs. retryable y" "c' = c"
    with retryable_no_sha show ?thesis by fastforce
  qed
qed

text \<open>
  Claim C6.  The exit guard answers from GitHub and nothing else.  Whatever the cache held, the
  client answers and the clock shows, one call makes at most three requests, all for the pull
  request and without an etag; \<open>CURRENT\<close> means the last of them was answered 200 with the expected
  SHA, \<open>STALE\<close> that it was answered 200 with another SHA; with \<open>API_ERROR\<close> no answer carried a
  SHA; and every request but the last failed in a way that may be retried.  The entry of the
  pull request is left to a SHA that this call read, or empty; other entries are untouched.
\<close>

theorem exit_guard_fresh:
  assumes "exit_guard (logging gh) pr token (cache, w, []) = (r, cache', w', es)"
  shows "length es \<le> 3 \<and> (\<forall>e \<in> set es. fst e = fresh_request pr token)
    \<and> (\<forall>e \<in> set (butlast es). retryable (snd e))
    \<and> (r = Inr CURRENT \<longrightarrow> (\<exists>resp. es \<noteq> [] \<and> snd (last es) = Inr resp \<and> gr_status resp = 200
          \<and> gr_head_sha resp = Inr (pf_expected_head_sha pr)))
    \<and> (r = Inr STALE \<longrightarrow> (\<exists>resp sha. es \<noteq> [] \<and> snd (last es) = Inr resp \<and> gr_status resp = 200
          \<and> gr_head_sha resp = Inr sha \<and> sha \<noteq> pf_expected_head_sha pr))
    \<and> (r = Inr API_ERROR \<longrightarrow> (\<forall>e \<in> set es. \<forall>resp sha. snd e = Inr resp \<longrightarrow> gr_status resp = 200
          \<longrightarrow> gr_head_sha resp \<noteq> Inr sha))
    \<and> (\<forall>k. k \<noteq> cache_key pr \<longrightarrow> cache' k = cache k)
    \<and> (\<forall>sha t etag. cache' (cache_key pr) = Some (sha, t, etag) \<longrightarrow>
          (\<exists>resp. snd (last es) = Inr resp \<and> gr_status resp = 200 \<and> gr_head_sha resp = Inr sha))"
proof -
  let ?c = "cache(cache_key pr := None)"
  obtain xs where xs: "es = map (Pair (fresh_request pr token)) xs" "length xs \<le> 3"
    and r: "case r of Inr res \<Rightarrow> answered pr None 3 ?c xs res cache'
      | Inl e \<Rightarrow> xs \<noteq> [] \<and> cache' = ?c \<and> raises_with (last xs) e \<and> (\<forall>y \<in> set (butlast xs). retryable y)"
    using exit_guard_run [OF assms] by blast
  have log: "es \<noteq> [] \<longleftrightarrow> xs \<noteq> []" "xs \<noteq> [] \<Longrightarrow> snd (last es) = last xs"
    by (auto simp: xs(1) last_map)
  have ret: "\<forall>e \<in> set (butlast es). retryable (snd e)"
    using r answered_fresh(1) by (cases r) (auto simp: xs(1) simp flip: map_butlast)
  have len: "length es \<le> 3 \<and> (\<forall>e \<in> set es. fst e = fresh_request pr token)"
    using xs by auto
  consider (raised) e where "r = Inl e" | (failed) "r = Inr API_ERROR" | (read) res where "r = Inr res" "res \<noteq> API_ERROR"
    by (cases r) auto
  then show ?thesis
  proof cases
    case raised
    with r len ret show ?thesis by simp
  next
    case failed
    with r answered_fresh(3) [of pr 3 ?c xs API_ERROR cache'] len ret show ?thesis by (simp add: xs(1))
  next
    case read
    with r answered_fresh(2) [of pr 3 ?c xs res cache'] obtain resp sha t where "xs \<noteq> []" "last xs = Inr resp"
      "gr_status resp = 200" "gr_head_sha resp = Inr sha" "res = compare_sha pr sha"
      "cache' = ?c(cache_key pr \<mapsto> (sha, t, gr_etag resp))" by auto
    with read log len ret show ?thesis by (auto simp: compare_sha_def)
  qed
qed

text \<open>A GitHub that answers from a script and a clock that \<open>sleep\<close> advances.\<close>

definition scripted :: "(gh_response result list \<times> rat) github" where
  "scripted = \<lparr>
     gh_get = (\<lambda>req (script, now). case script of
        [] \<Rightarrow> (Inl NetworkError, [], now) | x # rest \<Rightarrow> (x, rest, now)),
     gh_now = (\<lambda>(script, now). (Fin now, script, now)),
     gh_sleep = (\<lambda>d (script, now). (script, case d of Fin x \<Rightarrow> now + x | _ \<Rightarrow> now))\<rparr>"

definition sample_ref :: "string \<Rightarrow> pr_ref" where
  "sample_ref sha = \<lparr>pf_repo_owner = u ''o'', pf_repo_name = u ''r'', pf_pr_number = 7,
     pf_expected_head_sha = u sha\<rparr>"

definition ok_response :: "string \<Rightarrow> gh_response result" where
  "ok_response sha = Inr \<lparr>gr_status = 200, gr_head_sha = Inr (u sha), gr_etag = None\<rparr>"

definition server_error :: "gh_response result" where
  "server_error = Inr \<lparr>gr_status = 503, gr_head_sha = Inl OtherError, gr_etag = None\<rparr>"

lemmas guard_eval = exit_guard_asks attempt_once_def catch_network_def handle_response_def
  github_get_def logging_def scripted_def seq_def return_def of_result_def set_cached_def
  async_sleep_def compare_sha_def max_retries_def retry_delay_def ok_response_def server_error_def

lemma sample_exit_guard:
  "exit_guard (logging scripted) (sample_ref ''b'') (u ''t'')
     (\<lambda>_. Some (u ''a'', Fin 0, None), ([server_error, Inl NetworkError, ok_response ''b''], 1), [])
   = (Inr CURRENT, (\<lambda>_. Some (u ''a'', Fin 0, None))(cache_key (sample_ref ''b'') := None,
        cache_key (sample_ref ''b'') \<mapsto> (u ''b'', Fin 4, None)), ([], 4),
      map (Pair (fresh_request (sample_ref ''b'') (u ''t''))) [server_error, Inl NetworkError, ok_response ''b''])"
  by (simp add: guard_eval upt_rec sample_ref_def)

theorem exit_guard_fresh_witness:
  "\<exists>es cache' w'. exit_guard (logging scripted) (sample_ref ''b'') (u ''t'')
     (\<lambda>_. Some (u ''a'', Fin 0, None), ([server_error, Inl NetworkError, ok_response ''b''], 1), [])
       = (Inr CURRENT, cache', w', es)
     \<and> length es = 3 \<and> (\<exists>resp. snd (last es) = Inr resp \<and> gr_head_sha resp = Inr (u ''b''))"
  using exit_guard_fresh [OF sample_exit_guard] sample_exit_guard
  by (simp add: ok_response_def)

section \<open>The cache holds only what GitHub said\<close>

definition url_of_key :: "pr_key \<Rightarrow> pystr" where
  "url_of_key k = (case k of (owner, name, number) \<Rightarrow>
     u ''https://api.github.com/repos/'' @ owner @ u ''/'' @ name @ u ''/pulls/'' @ int_str number)"

lemma url_of_cache_key: "url_of_key (cache_key pr) = pulls_url pr"
  by (simp add: url_of_key_def cache_key_def pulls_url_def)

definition seen :: "exchange list \<Rightarrow> pystr \<Rightarrow> pystr \<Rightarrow> bool" where
  "seen es url sha \<longleftrightarrow> (\<exists>e \<in> set es. gq_url (fst e) = url
     \<and> (\<exists>resp. snd e = Inr resp \<and> gr_status resp = 200 \<and> gr_head_sha resp = Inr sha))"

lemma seen_append [simp]: "seen (es @ es') url sha \<longleftrightarrow> seen es url sha \<or> seen es' url sha"
  by (auto simp: seen_def)

definition backed :: "(pr_key \<rightharpoonup> sha_entry) \<Rightarrow> exchange list \<Rightarrow> bool" where
  "backed cache es \<longleftrightarrow> (\<forall>k sha t etag. cache k = Some (sha, t, etag) \<longrightarrow> seen es (url_of_key k) sha)"

lemma backed_append: "backed cache es \<Longrightarrow> backed cache (es @ es')"
  by (auto simp: backed_def)

lemma backed_update:
  "backed cache es \<Longrightarrow> seen es (pulls_url pr) sha \<Longrightarrow> backed (cache(cache_key pr \<mapsto> (sha, t, etag))) es"
  by (auto simp: backed_def url_of_cache_key)

lemma answered_backed:
  assumes "answered pr (cache (cache_key pr)) n cache xs res cache'" and "backed cache es" and "gq_url req = pulls_url pr"
  shows "backed cache' (es @ map (Pair req) xs)
    \<and> (res \<noteq> API_ERROR \<longrightarrow> (\<exists>sha. seen (es @ map (Pair req) xs) (pulls_url pr) sha \<and> res = compare_sha pr sha))"
proof -
  let ?es = "es @ map (Pair req) xs"
  have b: "backed cache ?es" using assms(2) by (rule backed_append)
  have "backed cache' ?es \<and> (res \<noteq> API_ERROR \<longrightarrow> (\<exists>sha. seen ?es (pulls_url pr) sha \<and> res = compare_sha pr sha))"
    if st: "settles pr (cache (cache_key pr)) cache (last xs) res cache'" and ne: "xs \<noteq> []"
  proof -
    obtain r where r: "last xs = Inr r" using st by (auto simp: settles_def)
    consider sha t where "gr_status r = 200" "gr_head_sha r = Inr sha" "res = compare_sha pr sha"
        "cache' = cache(cache_key pr \<mapsto> (sha, t, gr_etag r))"
      | sha t t' etag where "cache (cache_key pr) = Some (sha, t, etag)" "res = compare_sha pr sha"
        "cache' = cache(cache_key pr \<mapsto> (sha, t', etag))"
      | "res = API_ERROR" "cache' = cache"
      using st unfolding settles_def r by auto
    then show ?thesis
    proof cases
      case 1
      have "(req, Inr r) \<in> set ?es" using ne r by (metis Un_iff image_eqI last_in_set set_append set_map)
      with 1 assms(3) have "seen ?es (pulls_url pr) sha"
        unfolding seen_def by (intro bexI [of _ "(req, Inr r)"]) auto
      with 1 b show ?thesis by (auto intro: backed_update)
    next
      case 2
      then have "seen ?es (pulls_url pr) sha" using b unfolding backed_def url_of_cache_key [symmetric] by blast
      with 2 b show ?thesis by (auto intro: backed_update)
    qed (use b in simp)
  qed
  with b assms(1) show ?thesis by (auto simp: answered_def)
qed

lemma get_cached_logging:
  "\<exists>c v. get_cached (logging gh) pr (cache, w, es) = (Inr c, cache, v, es)
     \<and> (\<forall>sha etag. c = Some (sha, etag) \<longrightarrow> (\<exists>t. cache (cache_key pr) = Some (sha, t, etag)))"
proof (cases "cache (cache_key pr)")
  case None
  then show ?thesis by (simp add: get_cached_def)
next
  case (Some p)
  obtain now v where "gh_now gh w = (now, v)" by fastforce
  with Some show ?thesis by (cases p) (simp add: get_cached_def logging_def)
qed

text \<open>
  Claim C38.  A verdict is never made up.  If every cached SHA was read from GitHub for its pull
  request, then this stays so under a check of any pull request with any answers, and a
  check that answers \<open>CURRENT\<close> or \<open>STALE\<close>, from the cache, from a 304 or from a 200, compares a SHA
  that GitHub gave for this pull request, in this call or before it; the entry guard makes at
  most three requests.
\<close>

theorem guard_backed:
  fixes gh :: "'w github"
  assumes "backed cache es" and "entry_guard (logging gh) pr token (cache, w, es) = (r, cache', w', es')"
  shows "backed cache' es' \<and> prefix es es' \<and> length es' \<le> length es + 3
    \<and> (\<forall>res. r = Inr res \<and> res \<noteq> API_ERROR \<longrightarrow> (\<exists>sha. seen es' (pulls_url pr) sha \<and> res = compare_sha pr sha))"
proof -
  obtain c v where gc: "get_cached (logging gh) pr (cache, w, es) = (Inr c, cache, v, es)"
    and hit: "\<And>sha etag. c = Some (sha, etag) \<Longrightarrow> \<exists>t. cache (cache_key pr) = Some (sha, t, etag)"
    using get_cached_logging [of gh pr cache w es] by blast
  show ?thesis
  proof (cases c)
    case (Some p)
    then obtain sha etag t where "p = (sha, etag)" "cache (cache_key pr) = Some (sha, t, etag)"
      using hit by (cases p) auto
    moreover from this have "seen es (pulls_url pr) sha"
      using assms(1) unfolding backed_def url_of_cache_key [symmetric] by blast
    ultimately show ?thesis
      using assms gc Some by (auto simp: entry_guard_def check_sha_current_def seq_def return_def)
  next
    case None
    let ?req = "github_headers pr token (cache (cache_key pr))"
    have run: "attempt_loop (logging gh) pr ?req (cache (cache_key pr)) [0..<max_retries] (cache, v, es) = (r, cache', w', es')"
      using assms(2) gc None by (simp add: entry_guard_def check_sha_current_def seq_def read_cache_def)
    note T = tripleD [OF attempt_loop_triple
        [of cache es gh pr ?req "cache (cache_key pr)" "[0..<max_retries]"], of "(cache, v, es)"]
    show ?thesis
    proof (cases r)
      case (Inl e)
      with T(2) run obtain xs where "es' = es @ map (Pair ?req) xs" "length xs \<le> 3" "cache' = cache"
        by (auto simp: max_retries_def loop_raised_def)
      with Inl assms(1) show ?thesis by (auto intro: backed_append)
    next
      case (Inr res)
      with T(1) run obtain xs where xs: "es' = es @ map (Pair ?req) xs"
        "answered pr (cache (cache_key pr)) 3 cache xs res cache'"
        by (auto simp: max_retries_def loop_returned_def)
      then have "length xs \<le> 3" by (simp add: answered_def)
      with xs Inr answered_backed [OF xs(2) assms(1), of ?req] show ?thesis
        by (auto simp: github_headers_def)
    qed
  qed
qed

theorem guard_backed_witness:
  "backed [cache_key (sample_ref ''b'') \<mapsto> (u ''b'', Fin 1, None)]
     [(fresh_request (sample_ref ''b'') (u ''t''), ok_response ''b'')]"
  using guard_backed [of "Map.empty" "[]" scripted "sample_ref ''b''" "u ''t''" "([ok_response ''b''], 1)"]
  by (simp add: entry_guard_def check_sha_current_def get_cached_def read_cache_def
      github_headers_def guard_eval upt_rec fresh_request_def backed_def [of Map.empty])

text \<open>
  The cache is not keyed by the expected SHA: within five seconds of a check, the entry guard
  of a review of the next push compares the new head with the cached old one and answers
  \<open>STALE\<close>, without a request, although the review is of the current head.
\<close>

lemma cached_sha_aborts_newer_push:
  "entry_guard (logging scripted) (sample_ref ''b'') (u ''t'')
     ([cache_key (sample_ref ''a'') \<mapsto> (u ''a'', Fin 1, None)], ([ok_response ''b''], 3), [])
   = (Inr STALE, [cache_key (sample_ref ''a'') \<mapsto> (u ''a'', Fin 1, None)], ([ok_response ''b''], 3), [])"
proof -
  have "fl 2 = 2" using fl_int [of 2] by simp
  moreover have "\<not> (2::rat) ^ 1024 \<le> 2" "\<not> (2::rat) \<le> - (2 ^ 1024)"
    by (simp_all add: not_le power_strict_increasing_iff [of 2 1, simplified])
  ultimately have "fsub (Fin 3) (Fin 1) = Fin 2"
    by (simp add: fsub_def to_float_def)
  then show ?thesis
    by (simp add: entry_guard_def check_sha_current_def get_cached_def guard_eval cache_key_def
        sample_ref_def sha_cache_ttl_def flt_def)
qed

end
