(* ===== verification/Rate_Limits.thy ===== *)
theory Rate_Limits
  imports Py_Effects Py_Float
begin

text \<open>
  The sliding-window rate limiter and the cost tracker of \<^verbatim>\<open>kenjutsu/pipeline/queue.py\<close>.  Times,
  costs and caps are Python floats; what the clock shows is an argument of \<open>acquire\<close>.  The lock
  of the limiter is not modelled: its body never suspends, so a call is one step.
\<close>

section \<open>The rate limiter\<close>

record rate_limiter =
  rl_calls :: int
  rl_period :: pyfloat
  rl_timestamps :: "pyfloat list"

definition new_rate_limiter :: "int \<Rightarrow> pyfloat \<Rightarrow> rate_limiter" where
  "new_rate_limiter calls period = \<lparr>rl_calls = calls, rl_period = period, rl_timestamps = []\<rparr>"

definition acquire :: "pyfloat \<Rightarrow> (rate_limiter, unit) proc" where
  "acquire now = (\<lambda>rl.
     let cutoff = fsub now (rl_period rl);
         kept = dropWhile (\<lambda>t. fle t cutoff) (rl_timestamps rl)
     in if int (length kept) \<ge> rl_calls rl
        then (Inl RateLimitedError, rl\<lparr>rl_timestamps := kept\<rparr>)
        else (Inr (), rl\<lparr>rl_timestamps := kept @ [now]\<rparr>))"

text \<open>Calls at the given times, one after the other, with their results.\<close>

fun acquire_all :: "pyfloat list \<Rightarrow> rate_limiter \<Rightarrow> unit result list" where
  "acquire_all [] rl = []"
| "acquire_all (now # nows) rl = (case acquire now rl of (r, rl') \<Rightarrow> r # acquire_all nows rl')"

text \<open>
  The reference: remember every accepted call, and accept when fewer than \<open>calls\<close> of them lie
  after the start of the window.
\<close>

definition in_window :: "pyfloat \<Rightarrow> pyfloat \<Rightarrow> pyfloat list \<Rightarrow> pyfloat list" where
  "in_window now period accepted = filter (\<lambda>t. \<not> fle t (fsub now period)) accepted"

fun window_all :: "int \<Rightarrow> pyfloat \<Rightarrow> pyfloat list \<Rightarrow> pyfloat list \<Rightarrow> unit result list" where
  "window_all calls period accepted [] = []"
| "window_all calls period accepted (now # nows) =
     (if int (length (in_window now period accepted)) < calls
      then Inr () # window_all calls period (accepted @ [now]) nows
      else Inl RateLimitedError # window_all calls period accepted nows)"

lemma to_float_mono: "x \<le> y \<Longrightarrow> fle (to_float x) (to_float y)"
  using fl_mono [of x y] by (auto simp: to_float_def)

lemma to_float_not_NaN: "to_float x \<noteq> NaN"
  by (simp add: to_float_def)

lemma fle_trans: "fle x y \<Longrightarrow> fle y z \<Longrightarrow> fle x z"
  by (cases x; cases y; cases z) simp_all

lemma cutoff_mono: "s \<le> t \<Longrightarrow> fle (fsub (Fin s) (Fin p)) (fsub (Fin t) (Fin p))"
  by (simp add: fsub_def to_float_mono)

lemma filter_sorted_suffix:
  "sorted_wrt fle ts \<Longrightarrow> dropWhile (\<lambda>t. fle t c) ts = filter (\<lambda>t. \<not> fle t c) ts"
proof (induction ts)
  case (Cons t ts)
  show ?case
  proof (cases "fle t c")
    case True
    with Cons show ?thesis by simp
  next
    case False
    with Cons.prems have "\<forall>x \<in> set ts. \<not> fle x c" using fle_trans by auto
    then show ?thesis using False by (simp add: filter_id_conv)
  qed
qed simp

definition finite_clock :: "pyfloat list \<Rightarrow> bool" where
  "finite_clock ts \<longleftrightarrow> (\<exists>rs. ts = map Fin rs \<and> sorted rs)"

lemma finite_clock_Cons:
  "finite_clock (t # ts) \<longleftrightarrow> (\<exists>r. t = Fin r) \<and> (\<forall>s \<in> set ts. fle t s) \<and> finite_clock ts"
proof
  assume "finite_clock (t # ts)"
  then obtain rs where "t # ts = map Fin rs" "sorted rs" unfolding finite_clock_def by (elim exE conjE)
  then show "(\<exists>r. t = Fin r) \<and> (\<forall>s \<in> set ts. fle t s) \<and> finite_clock ts"
    by (cases rs) (auto simp: finite_clock_def)
next
  assume *: "(\<exists>r. t = Fin r) \<and> (\<forall>s \<in> set ts. fle t s) \<and> finite_clock ts"
  then obtain r rs where r: "t = Fin r" "ts = map Fin rs" "sorted rs" by (auto simp: finite_clock_def)
  from * have "\<forall>s \<in> set ts. fle t s" by blast
  then have "\<forall>s \<in> set rs. r \<le> s" by (simp add: r)
  then have "t # ts = map Fin (r # rs) \<and> sorted (r # rs)" using r by simp
  then show "finite_clock (t # ts)" unfolding finite_clock_def by (rule exI)
qed

text \<open>
  The invariant: the limiter holds the accepted calls but for some that lie before every later
  cutoff, and they are in order and before the coming calls.
\<close>

definition limiter_inv :: "rat \<Rightarrow> pyfloat list \<Rightarrow> pyfloat list \<Rightarrow> pyfloat list \<Rightarrow> bool" where
  "limiter_inv p gone ts nows \<longleftrightarrow> sorted_wrt fle (gone @ ts)
     \<and> (\<forall>g \<in> set gone. \<forall>n \<in> set nows. fle g (fsub n (Fin p)))
     \<and> (\<forall>t \<in> set (gone @ ts). \<forall>n \<in> set nows. fle t n)"

lemma limiter_window:
  assumes "limiter_inv p gone ts (now # nows)"
  shows "in_window now (Fin p) (gone @ ts) = dropWhile (\<lambda>t. fle t (fsub now (Fin p))) ts"
proof -
  have "filter (\<lambda>t. \<not> fle t (fsub now (Fin p))) gone = []"
    using assms by (simp add: limiter_inv_def filter_empty_conv)
  moreover have "sorted_wrt fle ts" using assms by (simp add: limiter_inv_def sorted_wrt_append)
  ultimately show ?thesis by (simp add: in_window_def filter_sorted_suffix)
qed

lemma limiter_evict:
  assumes "limiter_inv p gone ts (now # nows)" "finite_clock (now # nows)"
  defines "c \<equiv> fsub now (Fin p)"
  shows "limiter_inv p (gone @ takeWhile (\<lambda>t. fle t c) ts) (dropWhile (\<lambda>t. fle t c) ts) nows"
proof -
  obtain r where now: "now = Fin r" and later: "\<forall>n \<in> set nows. fle now n" and clock: "finite_clock nows"
    using assms(2) by (auto simp: finite_clock_Cons)
  have cuts: "\<forall>n \<in> set nows. fle c (fsub n (Fin p))"
    using later clock cutoff_mono by (auto simp: now c_def finite_clock_def)
  have "fle g (fsub n (Fin p))" if g: "g \<in> set (gone @ takeWhile (\<lambda>t. fle t c) ts)" and n: "n \<in> set nows" for g n
  proof -
    have "fle g c" using g assms(1) by (auto simp: limiter_inv_def c_def dest: set_takeWhileD)
    then show ?thesis using cuts n fle_trans by blast
  qed
  then show ?thesis using assms(1) by (simp add: limiter_inv_def)
qed

lemma limiter_accept:
  assumes "limiter_inv p gone ts nows" "\<forall>n \<in> set nows. fle now n" "\<forall>t \<in> set (gone @ ts). fle t now"
  shows "limiter_inv p gone (ts @ [now]) nows"
proof -
  have "sorted_wrt fle ((gone @ ts) @ [now])"
    using assms(1,3) unfolding limiter_inv_def by (subst sorted_wrt_append) simp
  then show ?thesis using assms(1,2) by (auto simp: limiter_inv_def)
qed

lemma acquire_all_window:
  assumes "finite_clock nows" "limiter_inv p gone (rl_timestamps rl) nows" "rl_period rl = Fin p"
  shows "acquire_all nows rl = window_all (rl_calls rl) (Fin p) (gone @ rl_timestamps rl) nows"
  using assms
proof (induction nows arbitrary: gone rl)
  case (Cons now nows)
  let ?c = "fsub now (Fin p)" and ?ts = "rl_timestamps rl"
  let ?gone = "gone @ takeWhile (\<lambda>t. fle t ?c) ?ts" and ?kept = "dropWhile (\<lambda>t. fle t ?c) ?ts"
  note win = limiter_window [OF Cons.prems(2)]
  note evicted = limiter_evict [OF Cons.prems(2,1)]
  have clock: "finite_clock nows" and later: "\<forall>n \<in> set nows. fle now n"
    using Cons.prems(1) by (auto simp: finite_clock_Cons)
  have all: "?gone @ ?kept = gone @ ?ts" by simp
  have before: "\<forall>t \<in> set (?gone @ ?kept). fle t now"
    unfolding all using Cons.prems(2) by (simp add: limiter_inv_def)
  show ?case
  proof (cases "int (length ?kept) \<ge> rl_calls rl")
    case True
    with Cons.IH [OF clock, of ?gone "rl\<lparr>rl_timestamps := ?kept\<rparr>"] evicted Cons.prems(3) win show ?thesis
      by (simp add: acquire_def Let_def)
  next
    case False
    have "takeWhile (\<lambda>t. fle t ?c) ?ts @ ?kept @ [now] = ?ts @ [now]"
      by (metis append.assoc takeWhile_dropWhile_id)
    with Cons.IH [OF clock, of ?gone "rl\<lparr>rl_timestamps := ?kept @ [now]\<rparr>"] limiter_accept [OF evicted later before]
      False Cons.prems(3) win
    show ?thesis by (simp add: acquire_def Let_def)
  qed
qed simp

text \<open>
  Claim C15.  The sliding window is exact.  For any budget, any period and any calls at times that
  do not go back, the limiter that evicts from the front of its queue accepts and refuses exactly
  like the one that remembers every accepted call and counts those after the start of the
  window; the start is the float difference of the time and the period, with its rounding.
\<close>

theorem rate_limiter_exact:
  assumes "finite_clock nows" and "period = Fin p"
  shows "acquire_all nows (new_rate_limiter calls period) = window_all calls period [] nows"
  using acquire_all_window [of nows p "[]" "new_rate_limiter calls period"] assms
  by (simp add: new_rate_limiter_def limiter_inv_def)

lemma sample_window:
  "window_all 2 (Fin 10) [] [Fin 0, Fin 5, Fin 9, Fin 10, Fin 12]
     = [Inr (), Inr (), Inl RateLimitedError, Inr (), Inl RateLimitedError]"
  using to_float_small [of "- 10"] to_float_small [of "- 5"] to_float_small [of "- 1"]
    to_float_small [of 0] to_float_small [of 2]
  by (simp add: in_window_def fsub_def)

theorem rate_limiter_exact_witness:
  "acquire_all [Fin 0, Fin 5, Fin 9, Fin 10, Fin 12] (new_rate_limiter 2 (Fin 10))
     = [Inr (), Inr (), Inl RateLimitedError, Inr (), Inl RateLimitedError]"
proof -
  have "[Fin 0, Fin 5, Fin 9, Fin 10, Fin 12] = map Fin [0, 5, 9, 10, 12]" by simp
  then have "finite_clock [Fin 0, Fin 5, Fin 9, Fin 10, Fin 12]"
    unfolding finite_clock_def by (intro exI [of _ "[0, 5, 9, 10, 12]"]) simp
  from rate_limiter_exact [OF this, of "Fin 10" 10 2] show ?thesis
    by (simp only: sample_window simp_thms)
qed

section \<open>The cost tracker\<close>

record cost_status =
  cs_tenant_id :: pystr
  cs_current_cost :: pyfloat
  cs_cap :: pyfloat
  cs_alert_triggered :: bool
  cs_hard_stop :: bool

record cost_tracker =
  ct_costs :: "pystr \<rightharpoonup> pyfloat"
  ct_caps :: "pystr \<rightharpoonup> pyfloat"

definition soft_threshold :: pyfloat where
  "soft_threshold = to_float (8 / 10)"

definition new_cost_tracker :: cost_tracker where
  "new_cost_tracker = \<lparr>ct_costs = Map.empty, ct_caps = Map.empty\<rparr>"

definition set_cap :: "pystr \<Rightarrow> pyfloat \<Rightarrow> (cost_tracker, unit) proc" where
  "set_cap tenant_id cap = (\<lambda>ct. (Inr (), ct\<lparr>ct_caps := (ct_caps ct)(tenant_id \<mapsto> cap)\<rparr>))"

definition get_default :: "('k \<rightharpoonup> 'v) \<Rightarrow> 'k \<Rightarrow> 'v \<Rightarrow> 'v" where
  "get_default m k d = (case m k of Some v \<Rightarrow> v | None \<Rightarrow> d)"

definition check_cost :: "pystr \<Rightarrow> (cost_tracker, cost_status) proc" where
  "check_cost tenant_id = (\<lambda>ct.
     let current = get_default (ct_costs ct) tenant_id (Fin 0);
         cap = get_default (ct_caps ct) tenant_id PInf
     in if cap = PInf
        then (Inr \<lparr>cs_tenant_id = tenant_id, cs_current_cost = current, cs_cap = cap,
                   cs_alert_triggered = False, cs_hard_stop = False\<rparr>, ct)
        else (case fdiv current cap of
            Inl e \<Rightarrow> (Inl e, ct)
          | Inr ratio \<Rightarrow>
              (Inr \<lparr>cs_tenant_id = tenant_id, cs_current_cost = current, cs_cap = cap,
                   cs_alert_triggered = fle soft_threshold ratio,
                   cs_hard_stop = fle (Fin 1) ratio\<rparr>, ct)))"

definition record_cost :: "pystr \<Rightarrow> pyfloat \<Rightarrow> (cost_tracker, cost_status) proc" where
  "record_cost tenant_id cost = (\<lambda>ct.
     check_cost tenant_id (ct\<lparr>ct_costs := (ct_costs ct)(tenant_id \<mapsto>
       fadd (get_default (ct_costs ct) tenant_id (Fin 0)) cost)\<rparr>))"

lemma quotient_at_least_one:
  assumes "fl c = c" "0 \<le> c" "fl cap = cap" "0 < cap"
  shows "fle (Fin 1) (to_float (c / cap)) \<longleftrightarrow> cap \<le> c"
proof (cases "cap \<le> c")
  case True
  then have "1 \<le> c / cap" using assms by (simp add: pos_le_divide_eq)
  then have "1 \<le> fl (c / cap)" using fl_mono [of 1 "c / cap"] by simp
  moreover from this have "\<not> fl (c / cap) \<le> - (2 ^ 1024)"
    by (metis dual_order.trans neg_le_0_iff_le not_one_le_zero zero_le_numeral zero_le_power)
  ultimately show ?thesis using True by (simp add: to_float_def)
next
  case False
  then have "c / cap \<le> 1" using assms by simp
  then have "to_float (c / cap) = Fin (fl (c / cap))"
    using assms to_float_unit [of "c / cap"] by simp
  moreover have "fl (c / cap) < 1" using assms False by (intro fl_quotient_below_one) simp_all
  ultimately show ?thesis using False by simp
qed

text \<open>
  Claim C19.  The hard stop is exact at the cap, whatever the division rounds.  For a tenant with a
  positive finite cap and a finite cost that is not negative, both doubles, \<open>check\<close> returns
  without touching the tracker, the hard stop fires if and only if the cost has reached the cap,
  and the alert fires whenever the hard stop does.
\<close>

theorem cost_cap_exact:
  assumes "ct_caps ct tenant = Some (Fin cap)" "ct_costs ct tenant = Some (Fin c)"
    and "fl c = c" "0 \<le> c" "fl cap = cap" "0 < cap"
  shows "\<exists>status. check_cost tenant ct = (Inr status, ct)
    \<and> cs_current_cost status = Fin c \<and> cs_cap status = Fin cap
    \<and> (cs_hard_stop status \<longleftrightarrow> cap \<le> c)
    \<and> (cs_hard_stop status \<longrightarrow> cs_alert_triggered status)"
proof -
  have "fl (8 / 10) \<le> 1" using fl_bound(1) [of 1 "8 / 10"] by simp
  then have soft: "fle soft_threshold (Fin 1)"
    using to_float_unit [of "8 / 10"] by (simp add: soft_threshold_def)
  have "fle soft_threshold (to_float (c / cap))" if "cap \<le> c"
    using that quotient_at_least_one [OF assms(3-6)] soft fle_trans by blast
  then show ?thesis
    using assms quotient_at_least_one [OF assms(3-6)]
    by (simp add: check_cost_def get_default_def Let_def)
qed

theorem cost_cap_exact_witness:
  "\<exists>status. check_cost (u ''t'') \<lparr>ct_costs = [u ''t'' \<mapsto> Fin 3], ct_caps = [u ''t'' \<mapsto> Fin 3]\<rparr>
      = (Inr status, \<lparr>ct_costs = [u ''t'' \<mapsto> Fin 3], ct_caps = [u ''t'' \<mapsto> Fin 3]\<rparr>)
    \<and> cs_hard_stop status"
proof -
  have "fl 3 = 3" using fl_int [of 3] by simp
  then show ?thesis
    using cost_cap_exact [of "\<lparr>ct_costs = [u ''t'' \<mapsto> Fin 3], ct_caps = [u ''t'' \<mapsto> Fin 3]\<rparr>" "u ''t''" 3 3]
    by auto
qed

text \<open>A cap of zero, the natural way to block a tenant, makes every check raise.\<close>

lemma zero_cap_raises:
  "fst (check_cost t (snd (set_cap t (Fin 0) ct))) = Inl ZeroDivisionError"
  by (simp add: check_cost_def set_cap_def get_default_def Let_def)

lemma no_cap_no_stop:
  "ct_caps ct t = None \<Longrightarrow> \<exists>status. check_cost t ct = (Inr status, ct)
     \<and> \<not> cs_hard_stop status \<and> \<not> cs_alert_triggered status"
  by (simp add: check_cost_def get_default_def Let_def)

lemma record_cost_frame [frame]:
  "t' \<noteq> t \<Longrightarrow> ct_costs (snd (record_cost t x ct)) t' = ct_costs ct t'"
  "ct_caps (snd (record_cost t x ct)) = ct_caps ct"
  by (simp_all add: record_cost_def check_cost_def Let_def split: sum.split)

end
