(* ===== verification/Work_Queue.thy ===== *)
theory Work_Queue
  imports Latest_Wins Py_Effects
begin

text \<open>
  The supersession registry and the concurrency limits of \<^verbatim>\<open>kenjutsu/pipeline/queue.py\<close>.

  An \<open>asyncio.Event\<close> is an index into a heap of flags, since the review coroutine and the
  registry share it.  An \<open>asyncio.Semaphore\<close> is an object of another heap: its counter and its
  queue of futures, as the class is written in Python 3.12.  Who is inside or in line is kept with the
  tasks, not in the semaphore, and every task keeps the semaphore that it was given.
\<close>

section \<open>The supersession registry\<close>

record review_key =
  rk_repo_id :: pystr
  rk_pr_number :: int

record registry =
  rg_events :: "review_key \<rightharpoonup> nat"
  rg_superseded :: "review_key set"
  rg_flags :: "bool list"

definition new_registry :: registry where
  "new_registry = \<lparr>rg_events = Map.empty, rg_superseded = {}, rg_flags = []\<rparr>"

text \<open>\<open>register\<close> returns the new event: the next index of the heap.\<close>

definition register :: "review_key \<Rightarrow> registry \<Rightarrow> nat \<times> registry" where
  "register key rg =
     (let rg' = (case rg_events rg key of
            Some e \<Rightarrow> rg\<lparr>rg_flags := (rg_flags rg)[e := True],
                        rg_superseded := insert key (rg_superseded rg)\<rparr>
          | None \<Rightarrow> rg);
          new_event = length (rg_flags rg')
      in (new_event, rg'\<lparr>rg_flags := rg_flags rg' @ [False],
                        rg_events := (rg_events rg')(key \<mapsto> new_event)\<rparr>))"

definition complete :: "review_key \<Rightarrow> registry \<Rightarrow> registry" where
  "complete key rg = rg\<lparr>rg_events := (rg_events rg)(key := None),
     rg_superseded := rg_superseded rg - {key}\<rparr>"

definition is_cancelled :: "review_key \<Rightarrow> registry \<Rightarrow> bool" where
  "is_cancelled key rg \<longleftrightarrow> key \<in> rg_superseded rg"

definition event_set :: "registry \<Rightarrow> nat \<Rightarrow> bool" where
  "event_set rg e \<longleftrightarrow> e < length (rg_flags rg) \<and> rg_flags rg ! e"

text \<open>
  The registry together with every event it has handed out.  The reviews that may still publish
  are those whose event is not set.
\<close>

type_synonym registry_run = "registry \<times> (review_key \<times> nat) list"

definition admit_event :: "review_key \<Rightarrow> unit \<Rightarrow> registry_run \<Rightarrow> registry_run" where
  "admit_event k x s = (case register k (fst s) of (e, rg) \<Rightarrow> (rg, snd s @ [(k, e)]))"

definition held_event :: "review_key \<Rightarrow> unit \<Rightarrow> registry_run \<Rightarrow> nat" where
  "held_event k x s = fst (register k (fst s))"

definition live_events :: "registry_run \<Rightarrow> review_key \<Rightarrow> nat set" where
  "live_events s k = {e. (k, e) \<in> set (snd s) \<and> \<not> event_set (fst s) e}"

definition event_inv :: "registry_run \<Rightarrow> bool" where
  "event_inv s \<longleftrightarrow>
     (\<forall>(k, e) \<in> set (snd s). e < length (rg_flags (fst s))
        \<and> (\<not> event_set (fst s) e \<longrightarrow> rg_events (fst s) k = Some e))
     \<and> (\<forall>k e. rg_events (fst s) k = Some e \<longrightarrow> (k, e) \<in> set (snd s))
     \<and> (\<forall>k k' e. (k, e) \<in> set (snd s) \<longrightarrow> (k', e) \<in> set (snd s) \<longrightarrow> k = k')"

lemma nth_update_at: "d < length xs \<Longrightarrow> xs[i := v] ! d = (if i = d then v else xs ! d)"
  by (cases "i = d") simp_all

lemma register_facts:
  assumes "register k rg = (e, rg')"
  shows "e = length (rg_flags rg)" "length (rg_flags rg') = Suc (length (rg_flags rg))"
    and "rg_events rg' = (rg_events rg)(k \<mapsto> e)"
    and "event_set rg' d \<longleftrightarrow> event_set rg d \<or> (rg_events rg k = Some d \<and> d < length (rg_flags rg))"
  using assms
  by (auto simp: register_def Let_def event_set_def nth_append nth_update_at split: option.split_asm if_splits)

lemma event_invD:
  assumes "event_inv s"
  shows "(j, d) \<in> set (snd s) \<Longrightarrow> d < length (rg_flags (fst s))"
    and "(j, d) \<in> set (snd s) \<Longrightarrow> \<not> event_set (fst s) d \<Longrightarrow> rg_events (fst s) j = Some d"
    and "rg_events (fst s) j = Some d \<Longrightarrow> (j, d) \<in> set (snd s)"
    and "(j, d) \<in> set (snd s) \<Longrightarrow> (j', d) \<in> set (snd s) \<Longrightarrow> j = j'"
  using assms by (auto simp: event_inv_def)

text \<open>A registration sets the events handed out for its key, and no other event.\<close>

lemma register_flags:
  assumes "register k (fst s) = (e, rg')" "event_inv s"
  shows "\<not> event_set rg' e" and "(k, d) \<in> set (snd s) \<Longrightarrow> event_set rg' d"
    and "(j, d) \<in> set (snd s) \<Longrightarrow> j \<noteq> k \<Longrightarrow> event_set rg' d \<longleftrightarrow> event_set (fst s) d"
proof -
  note F = register_facts [OF assms(1)] and inv = event_invD [OF assms(2)]
  show "\<not> event_set rg' e" using F(1) F(4) [of e] by (simp add: event_set_def)
  show "event_set rg' d" if "(k, d) \<in> set (snd s)"
    using inv(2) [OF that] F(4) [of d] inv(1) [OF that] by auto
  show "event_set rg' d \<longleftrightarrow> event_set (fst s) d" if "(j, d) \<in> set (snd s)" "j \<noteq> k"
    using F(4) [of d] inv(3) [of k d] inv(4) [of j d k] that by blast
qed

lemma register_inv:
  assumes reg: "register k (fst s) = (e, rg')" and "event_inv s"
  shows "event_inv (rg', snd s @ [(k, e)])"
proof -
  note F = register_facts [OF reg] and inv = event_invD [OF assms(2)] and flags = register_flags [OF assms]
  have fresh: "(j, d) \<in> set (snd s) \<Longrightarrow> d < e" for j d using inv(1) F(1) by simp
  have here: "d < length (rg_flags rg') \<and> (\<not> event_set rg' d \<longrightarrow> rg_events rg' j = Some d)"
    if "(j, d) \<in> set (snd s @ [(k, e)])" for j d
  proof (cases "(j, d) \<in> set (snd s)")
    case True
    then have "rg_events rg' j = Some d" if "\<not> event_set rg' d"
      using that flags(2,3) inv(2) F(3) by (cases "j = k") auto
    with True show ?thesis using inv(1) F(2) by (auto intro: less_SucI)
  qed (use that F in auto)
  have in_h: "(j, d) \<in> set (snd s @ [(k, e)])" if "rg_events rg' j = Some d" for j d
    using that inv(3) F(3) by (cases "j = k") auto
  have one: "i = j" if "(i, d) \<in> set (snd s @ [(k, e)])" "(j, d) \<in> set (snd s @ [(k, e)])" for i j d
    using that fresh inv(4) by (cases "d = e") auto
  show ?thesis unfolding event_inv_def fst_conv snd_conv using here in_h one by blast
qed

interpretation events: latest_wins event_inv live_events admit_event held_event "\<lambda>k x s. True"
proof unfold_locales
  fix s :: registry_run and k :: review_key and x :: unit
  assume inv: "event_inv s"
  obtain e rg' where reg: "register k (fst s) = (e, rg')" by fastforce
  have admit: "admit_event k x s = (rg', snd s @ [(k, e)])" by (simp add: admit_event_def reg)
  note flags = register_flags [OF reg inv]
  show "live_events (admit_event k x s) k = {held_event k x s}"
    using flags(1,2) unfolding live_events_def admit held_event_def by (auto simp: reg)
  show "live_events (admit_event k x s) k' = live_events s k'" if "k' \<noteq> k" for k'
    using that flags(3) unfolding live_events_def admit by auto
  show "event_inv (admit_event k x s)" unfolding admit by (rule register_inv [OF reg inv])
qed

text \<open>
  Claim C18.  The latest registration of a pull request wins.  After any sequence of registrations
  in a new registry, of all the cancel events handed out for a pull request exactly the last
  one is not set: every superseded review is told to abort, and no current one is.
\<close>

theorem registry_cancels_superseded:
  "live_events (admit_all admit_event rs (new_registry, [])) k
     = last_holder held_event admit_event k rs (new_registry, []) {}"
proof -
  have inv: "event_inv (new_registry, [])" by (simp add: event_inv_def new_registry_def)
  have ok: "all_ok (\<lambda>k x s. True) admit_event rs s" for s :: registry_run
    by (induction rs arbitrary: s) simp_all
  have "live_events (new_registry, []) k = {}" by (simp add: live_events_def)
  with events.live_admit_all [OF inv ok] show ?thesis by simp
qed

text \<open>
  Completion is by key, not by event.  A superseded review that cleans up with \<open>complete\<close> takes
  the event of its successor out of the registry, and the next registration does not set it:
  two reviews of one pull request are then live.
\<close>

lemma complete_drops_successor:
  "let (e0, r0) = register k new_registry; (e1, r1) = register k r0;
       (e2, r3) = register k (complete k r1)
   in e1 \<noteq> e2 \<and> event_set r3 e0 \<and> \<not> event_set r3 e1 \<and> \<not> event_set r3 e2"
  by (simp add: register_def complete_def new_registry_def event_set_def Let_def nth_append)

section \<open>Semaphores\<close>

text \<open>
  An \<open>asyncio.Semaphore\<close>: its counter and its deque of futures, each with the task that awaits it.
  \<open>release\<close> gives a slot to the first future that is not done, which stays in the deque until its task
  runs; a task that is cancelled while it waits leaves a withdrawn future until it runs.
\<close>

datatype future = Waiting | Woken | Withdrawn

record 't semaphore =
  sm_value :: nat
  sm_waiters :: "('t \<times> future) list"

text \<open>\<open>asyncio.Semaphore(n)\<close> refuses a negative counter.\<close>

definition new_semaphore :: "int \<Rightarrow> 't semaphore result" where
  "new_semaphore n = (if n < 0 then Inl ValueError else Inr \<lparr>sm_value = nat n, sm_waiters = []\<rparr>)"

definition sem_locked :: "'t semaphore \<Rightarrow> bool" where
  "sem_locked sem \<longleftrightarrow> sm_value sem = 0 \<or> list_ex (\<lambda>w. snd w \<noteq> Withdrawn) (sm_waiters sem)"

fun wake_first :: "('t \<times> future) list \<Rightarrow> ('t \<times> future) list option" where
  "wake_first [] = None"
| "wake_first ((t, f) # ws) =
     (if f = Waiting then Some ((t, Woken) # ws) else map_option (Cons (t, f)) (wake_first ws))"

text \<open>\<open>_wake_up_next\<close>, which is called only when the counter is positive.\<close>

definition wake_up_next :: "'t semaphore \<Rightarrow> 't semaphore" where
  "wake_up_next sem =
     (if sm_value sem = 0 then sem
      else case wake_first (sm_waiters sem) of
          None \<Rightarrow> sem
        | Some ws \<Rightarrow> sem\<lparr>sm_value := sm_value sem - 1, sm_waiters := ws\<rparr>)"

text \<open>\<open>acquire\<close> up to its \<open>await\<close>: True when the task has entered, False when it waits.\<close>

definition sem_acquire :: "'t \<Rightarrow> 't semaphore \<Rightarrow> bool \<times> 't semaphore" where
  "sem_acquire t sem =
     (if sem_locked sem then (False, sem\<lparr>sm_waiters := sm_waiters sem @ [(t, Waiting)]\<rparr>)
      else (True, sem\<lparr>sm_value := sm_value sem - 1\<rparr>))"

definition sem_release :: "'t semaphore \<Rightarrow> 't semaphore" where
  "sem_release sem = wake_up_next (sem\<lparr>sm_value := sm_value sem + 1\<rparr>)"

text \<open>
  The rest of \<open>acquire\<close>, when the task runs again: woken, it enters; cancelled, it gives a slot back
  that it was given.  Both drop its future and wake further waiters.  How many, depends on the version of
  Python (at most one, or as many as there are slots): it is the parameter \<open>wakes\<close>.
\<close>

definition drop_waiter :: "'t \<Rightarrow> 't semaphore \<Rightarrow> 't semaphore" where
  "drop_waiter t sem = sem\<lparr>sm_waiters := filter (\<lambda>w. fst w \<noteq> t) (sm_waiters sem)\<rparr>"

definition sem_resume :: "nat \<Rightarrow> 't \<Rightarrow> 't semaphore \<Rightarrow> 't semaphore" where
  "sem_resume wakes t sem = (wake_up_next ^^ wakes) (drop_waiter t sem)"

definition sem_abort :: "nat \<Rightarrow> 't \<Rightarrow> 't semaphore \<Rightarrow> 't semaphore" where
  "sem_abort wakes t sem = (wake_up_next ^^ wakes)
     (if (t, Woken) \<in> set (sm_waiters sem) then drop_waiter t (sem\<lparr>sm_value := sm_value sem + 1\<rparr>)
      else drop_waiter t sem)"

definition sem_cancel :: "'t \<Rightarrow> 't semaphore \<Rightarrow> 't semaphore" where
  "sem_cancel t sem = sem\<lparr>sm_waiters := map (\<lambda>w. if w = (t, Waiting) then (t, Withdrawn) else w) (sm_waiters sem)\<rparr>"

section \<open>The tenant queue\<close>

text \<open>
  The semaphores are objects of a heap, and the dictionary and the tasks refer to them.  A task is one
  call of \<open>for_tenant\<close>: it is in line or inside, and keeps the tenant and its local variable \<open>sem\<close>.
  No semaphore knows who is inside.  A negative maximum makes every call raise, and no task gets in.
  \<open>GlobalQueue\<close> is the case of one tenant.
\<close>

datatype place = In_Line pystr nat | Inside pystr nat

record 't tenant_queue =
  tq_max_concurrency :: int
  tq_semaphores :: "pystr \<rightharpoonup> nat"
  tq_heap :: "'t semaphore list"
  tq_tasks :: "'t \<rightharpoonup> place"

definition new_tenant_queue :: "int \<Rightarrow> 't tenant_queue" where
  "new_tenant_queue n = \<lparr>tq_max_concurrency = n, tq_semaphores = Map.empty, tq_heap = [], tq_tasks = Map.empty\<rparr>"

definition semaphore_for :: "pystr \<Rightarrow> 't tenant_queue \<Rightarrow> (nat \<times> 't tenant_queue) result" where
  "semaphore_for tenant_id q =
     (case tq_semaphores q tenant_id of
        Some i \<Rightarrow> Inr (i, q)
      | None \<Rightarrow> and_then (new_semaphore (tq_max_concurrency q)) (\<lambda>sem.
          Inr (length (tq_heap q), q\<lparr>tq_heap := tq_heap q @ [sem],
            tq_semaphores := (tq_semaphores q)(tenant_id \<mapsto> length (tq_heap q))\<rparr>)))"

definition put :: "nat \<Rightarrow> 't semaphore \<Rightarrow> 't \<Rightarrow> place option \<Rightarrow> 't tenant_queue \<Rightarrow> 't tenant_queue" where
  "put i sem t p q = q\<lparr>tq_heap := (tq_heap q)[i := sem], tq_tasks := (tq_tasks q)(t := p)\<rparr>"

text \<open>\<open>for_tenant\<close> up to the body of the \<open>with\<close> statement or to the \<open>await\<close>.\<close>

definition enter_tenant :: "'t \<Rightarrow> pystr \<Rightarrow> 't tenant_queue \<Rightarrow> 't tenant_queue" where
  "enter_tenant t tenant_id q =
     (case semaphore_for tenant_id q of
        Inl e \<Rightarrow> q
      | Inr (i, q) \<Rightarrow> (case sem_acquire t (tq_heap q ! i) of (entered, sem) \<Rightarrow>
          put i sem t (Some (if entered then Inside tenant_id i else In_Line tenant_id i)) q))"

text \<open>
  The steps of the scheduler: a task enters; a woken one runs; one leaves, normally or by an exception;
  one that waits is cancelled; a cancelled one runs.  None when the step is not possible.
\<close>

datatype 't queue_op = Enter 't pystr | Resume 't nat | Leave 't pystr | Cancel 't | Abort 't nat

definition has_future :: "'t tenant_queue \<Rightarrow> nat \<Rightarrow> 't \<Rightarrow> future \<Rightarrow> bool" where
  "has_future q i t f \<longleftrightarrow> (t, f) \<in> set (sm_waiters (tq_heap q ! i))"

fun queue_do :: "'t queue_op \<Rightarrow> 't tenant_queue \<Rightarrow> 't tenant_queue option" where
  "queue_do (Enter t tenant_id) q = (if tq_tasks q t = None then Some (enter_tenant t tenant_id q) else None)"
| "queue_do (Resume t wakes) q =
     (case tq_tasks q t of
        Some (In_Line tenant_id i) \<Rightarrow>
          if has_future q i t Woken \<and> 0 < wakes then Some (put i (sem_resume wakes t (tq_heap q ! i)) t (Some (Inside tenant_id i)) q)
          else None
      | _ \<Rightarrow> None)"
| "queue_do (Leave t tenant_id) q =
     (case tq_tasks q t of
        Some (Inside tenant i) \<Rightarrow> if tenant = tenant_id then Some (put i (sem_release (tq_heap q ! i)) t None q) else None
      | _ \<Rightarrow> None)"
| "queue_do (Cancel t) q =
     (case tq_tasks q t of
        Some (In_Line tenant_id i) \<Rightarrow>
          if has_future q i t Waiting then Some (put i (sem_cancel t (tq_heap q ! i)) t (Some (In_Line tenant_id i)) q) else None
      | _ \<Rightarrow> None)"
| "queue_do (Abort t wakes) q =
     (case tq_tasks q t of
        Some (In_Line tenant_id i) \<Rightarrow>
          if has_future q i t Withdrawn \<or> has_future q i t Woken \<and> 0 < wakes
          then Some (put i (sem_abort wakes t (tq_heap q ! i)) t None q) else None
      | _ \<Rightarrow> None)"

primrec queue_run :: "'t queue_op list \<Rightarrow> 't tenant_queue \<Rightarrow> 't tenant_queue option" where
  "queue_run [] q = Some q"
| "queue_run (x # xs) q = Option.bind (queue_do x q) (queue_run xs)"

text \<open>The tasks of a tenant: inside, in line, and of those in line the woken and the waiting ones.\<close>

definition running :: "'t tenant_queue \<Rightarrow> pystr \<Rightarrow> 't set" where
  "running q tenant_id = {t. \<exists>i. tq_tasks q t = Some (Inside tenant_id i)}"

definition in_line :: "'t tenant_queue \<Rightarrow> pystr \<Rightarrow> 't set" where
  "in_line q tenant_id = {t. \<exists>i. tq_tasks q t = Some (In_Line tenant_id i)}"

definition with_future :: "future \<Rightarrow> 't tenant_queue \<Rightarrow> pystr \<Rightarrow> 't set" where
  "with_future f q tenant_id = {t. \<exists>i. tq_tasks q t = Some (In_Line tenant_id i) \<and> has_future q i t f}"

section \<open>Semaphores in balance\<close>

definition futures :: "'t semaphore \<Rightarrow> future set" where
  "futures sem = snd ` set (sm_waiters sem)"

definition woken_count :: "'t semaphore \<Rightarrow> nat" where
  "woken_count sem = length (filter (\<lambda>w. snd w = Woken) (sm_waiters sem))"

text \<open>Nobody waits beside a free slot, unless a woken task has still to run.\<close>

definition no_lost_slot :: "'t semaphore \<Rightarrow> bool" where
  "no_lost_slot sem \<longleftrightarrow> (Waiting \<in> futures sem \<and> 0 < sm_value sem \<longrightarrow> Woken \<in> futures sem)"

definition balanced :: "nat \<Rightarrow> 't set \<Rightarrow> 't set \<Rightarrow> 't semaphore \<Rightarrow> bool" where
  "balanced n inside line sem \<longleftrightarrow> sm_value sem + card inside + woken_count sem = n
     \<and> distinct (map fst (sm_waiters sem)) \<and> set (map fst (sm_waiters sem)) = line \<and> no_lost_slot sem"

lemma wake_first_None: "wake_first ws = None \<longleftrightarrow> Waiting \<notin> snd ` set ws"
  by (induction ws rule: wake_first.induct) auto

lemma wake_first_Some:
  "wake_first ws = Some ws' \<Longrightarrow> map fst ws' = map fst ws \<and> Woken \<in> snd ` set ws'
     \<and> length (filter (\<lambda>w. snd w = Woken) ws') = Suc (length (filter (\<lambda>w. snd w = Woken) ws))"
  by (induction ws arbitrary: ws' rule: wake_first.induct) (auto split: if_split_asm)

lemma wake_up_next_effect:
  "map fst (sm_waiters (wake_up_next sem)) = map fst (sm_waiters sem)"
  "sm_value (wake_up_next sem) + woken_count (wake_up_next sem) = sm_value sem + woken_count sem"
  "no_lost_slot (wake_up_next sem)"
  using wake_first_None [of "sm_waiters sem"] wake_first_Some [of "sm_waiters sem"]
  by (auto simp: wake_up_next_def woken_count_def no_lost_slot_def futures_def split: option.split)

lemma wake_up_more_effect:
  "map fst (sm_waiters ((wake_up_next ^^ m) sem)) = map fst (sm_waiters sem)"
  "sm_value ((wake_up_next ^^ m) sem) + woken_count ((wake_up_next ^^ m) sem) = sm_value sem + woken_count sem"
  "no_lost_slot sem \<or> 0 < m \<Longrightarrow> no_lost_slot ((wake_up_next ^^ m) sem)"
  by (induction m) (simp_all add: wake_up_next_effect)

lemma balanced_wake_up:
  assumes "sm_value sem + card inside + woken_count sem = n" "distinct (map fst (sm_waiters sem))"
    and "set (map fst (sm_waiters sem)) = line" "no_lost_slot sem \<or> 0 < m"
  shows "balanced n inside line ((wake_up_next ^^ m) sem)"
  using assms wake_up_more_effect(1,2) [of m sem] wake_up_more_effect(3) [of sem m]
  unfolding balanced_def by simp

lemma drop_waiter_keys:
  "distinct (map fst (sm_waiters sem)) \<Longrightarrow> distinct (map fst (sm_waiters (drop_waiter t sem)))"
  "set (map fst (sm_waiters (drop_waiter t sem))) = set (map fst (sm_waiters sem)) - {t}"
  "sm_value (drop_waiter t sem) = sm_value sem"
  by (auto simp: drop_waiter_def distinct_map_filter)

lemma woken_filter:
  "distinct (map fst ws) \<Longrightarrow> (t, f) \<in> set ws \<Longrightarrow>
     length (filter (\<lambda>w. snd w = Woken) (filter (\<lambda>w. fst w \<noteq> t) ws)) + (if f = Woken then 1 else 0)
       = length (filter (\<lambda>w. snd w = Woken) ws)"
proof (induction ws)
  case (Cons w ws)
  show ?case
  proof (cases "fst w = t")
    case True
    with Cons.prems(1) have "t \<notin> fst ` set ws" by simp
    then have fresh: "\<forall>v \<in> set ws. fst v \<noteq> t" by auto
    then have "(t, f) \<notin> set ws" by (metis fst_conv)
    with Cons.prems(2) have "w = (t, f)" by simp
    moreover have "filter (\<lambda>w. fst w \<noteq> t) ws = ws" using fresh by (simp add: filter_id_conv)
    ultimately show ?thesis by simp
  next
    case False
    with Cons show ?thesis by auto
  qed
qed simp

lemma drop_waiter_woken:
  "distinct (map fst (sm_waiters sem)) \<Longrightarrow> (t, f) \<in> set (sm_waiters sem) \<Longrightarrow>
     woken_count (drop_waiter t sem) + (if f = Woken then 1 else 0) = woken_count sem"
  unfolding woken_count_def drop_waiter_def using woken_filter [of "sm_waiters sem" t f] by simp

lemma drop_waiter_futures:
  "Waiting \<in> futures (drop_waiter t sem) \<Longrightarrow> Waiting \<in> futures sem"
  "(t, Woken) \<notin> set (sm_waiters sem) \<Longrightarrow> Woken \<in> futures sem \<Longrightarrow> Woken \<in> futures (drop_waiter t sem)"
  unfolding futures_def drop_waiter_def by (auto simp: image_iff) (metis fst_conv snd_conv)

lemma acquire_balanced:
  assumes "balanced n R L sem" "t \<notin> R" "t \<notin> L" "finite R" "sem_acquire t sem = (entered, sem')"
  shows "balanced n (if entered then insert t R else R) (if entered then L else insert t L) sem'"
proof (cases "sem_locked sem")
  case True
  let ?new = "sem\<lparr>sm_waiters := sm_waiters sem @ [(t, Waiting)]\<rparr>"
  have new: "entered = False" "sem' = ?new" using assms(5) True by (simp_all add: sem_acquire_def)
  have "Woken \<in> futures sem" if "0 < sm_value sem"
  proof -
    obtain w where "w \<in> set (sm_waiters sem)" "snd w \<noteq> Withdrawn"
      using True \<open>0 < sm_value sem\<close> unfolding sem_locked_def list_ex_iff by auto
    then have "Woken \<in> futures sem \<or> Waiting \<in> futures sem"
      unfolding futures_def by (cases "snd w") (auto intro: rev_image_eqI)
    then show ?thesis using assms(1) that by (auto simp: balanced_def no_lost_slot_def)
  qed
  then have "no_lost_slot ?new" by (auto simp: no_lost_slot_def futures_def)
  with assms(1,3) show ?thesis by (auto simp: new balanced_def woken_count_def)
next
  case False
  then have "Waiting \<notin> futures sem" "0 < sm_value sem"
    by (auto simp: sem_locked_def list_ex_iff futures_def)
  moreover have "sem' = sem\<lparr>sm_value := sm_value sem - 1\<rparr>" "entered" using assms(5) False by (simp_all add: sem_acquire_def)
  ultimately show ?thesis using assms(1,2,4) by (simp add: balanced_def woken_count_def no_lost_slot_def futures_def)
qed

lemma resume_balanced:
  assumes "balanced n R L sem" "t \<notin> R" "finite R" "(t, Woken) \<in> set (sm_waiters sem)" "0 < wakes"
  shows "balanced n (insert t R) (L - {t}) (sem_resume wakes t sem)"
  unfolding sem_resume_def
  using assms drop_waiter_keys [where sem = sem and t = t] drop_waiter_woken [of sem t Woken]
  by (intro balanced_wake_up) (simp_all add: balanced_def)

lemma release_balanced:
  assumes "balanced n R L sem" "t \<in> R" "finite R"
  shows "balanced n (R - {t}) L (sem_release sem)"
proof -
  have "card R = Suc (card (R - {t}))" by (rule card.remove [OF assms(3,2)])
  then have "balanced n (R - {t}) L ((wake_up_next ^^ 1) (sem\<lparr>sm_value := sm_value sem + 1\<rparr>))"
    using assms(1) by (intro balanced_wake_up) (simp_all add: balanced_def woken_count_def)
  then show ?thesis by (simp add: sem_release_def)
qed

lemma sem_cancel_effect:
  "sm_value (sem_cancel t sem) = sm_value sem"
  "map fst (sm_waiters (sem_cancel t sem)) = map fst (sm_waiters sem)"
  "woken_count (sem_cancel t sem) = woken_count sem"
  "Waiting \<in> futures (sem_cancel t sem) \<Longrightarrow> Waiting \<in> futures sem"
  "Woken \<in> futures (sem_cancel t sem) \<longleftrightarrow> Woken \<in> futures sem"
proof -
  let ?c = "\<lambda>w. if w = (t, Waiting) then (t, Withdrawn) else w"
  have "map fst (map ?c ws) = map fst ws" "length (filter (\<lambda>w. snd w = Woken) (map ?c ws)) = length (filter (\<lambda>w. snd w = Woken) ws)"
    and "Waiting \<in> snd ` set (map ?c ws) \<Longrightarrow> Waiting \<in> snd ` set ws" "Woken \<in> snd ` set (map ?c ws) \<longleftrightarrow> Woken \<in> snd ` set ws" for ws
    by (induction ws) (auto split: if_split_asm)
  then show "sm_value (sem_cancel t sem) = sm_value sem"
    "map fst (sm_waiters (sem_cancel t sem)) = map fst (sm_waiters sem)"
    "woken_count (sem_cancel t sem) = woken_count sem"
    "Waiting \<in> futures (sem_cancel t sem) \<Longrightarrow> Waiting \<in> futures sem"
    "Woken \<in> futures (sem_cancel t sem) \<longleftrightarrow> Woken \<in> futures sem"
    unfolding sem_cancel_def woken_count_def futures_def by simp_all
qed

lemma cancel_balanced:
  assumes "balanced n R L sem"
  shows "balanced n R L (sem_cancel t sem)"
proof -
  have "set (map fst (sm_waiters (sem_cancel t sem))) = set (map fst (sm_waiters sem))"
    by (simp only: sem_cancel_effect)
  then show ?thesis
    using assms by (auto simp: balanced_def no_lost_slot_def sem_cancel_effect dest: sem_cancel_effect(4))
qed

lemma abort_balanced:
  assumes "balanced n R L sem"
    and "(t, Withdrawn) \<in> set (sm_waiters sem) \<or> (t, Woken) \<in> set (sm_waiters sem) \<and> 0 < wakes"
  shows "balanced n R (L - {t}) (sem_abort wakes t sem)"
proof (cases "(t, Woken) \<in> set (sm_waiters sem)")
  case True
  let ?up = "sem\<lparr>sm_value := sm_value sem + 1\<rparr>"
  have once: "(t, Withdrawn) \<notin> set (sm_waiters sem)"
    using assms(1) True by (auto simp: balanced_def dest: eq_key_imp_eq_value)
  then show ?thesis
    using True assms drop_waiter_keys [where sem = ?up and t = t] drop_waiter_woken [of ?up t Woken]
    unfolding sem_abort_def by (simp, intro balanced_wake_up) (simp_all add: balanced_def woken_count_def)
next
  case False
  have "no_lost_slot (drop_waiter t sem)"
    using assms(1) drop_waiter_futures [of t sem] False by (auto simp: balanced_def no_lost_slot_def drop_waiter_keys)
  then show ?thesis
    using False assms drop_waiter_keys [where sem = sem and t = t] drop_waiter_woken [of sem t Withdrawn]
    unfolding sem_abort_def by (simp, intro balanced_wake_up) (simp_all add: balanced_def)
qed

section \<open>Reachable queues\<close>

definition place_at :: "pystr \<Rightarrow> nat \<Rightarrow> place option \<Rightarrow> bool" where
  "place_at tenant_id i p \<longleftrightarrow> p \<in> {None, Some (In_Line tenant_id i), Some (Inside tenant_id i)}"

definition queue_inv :: "int \<Rightarrow> 't tenant_queue \<Rightarrow> bool" where
  "queue_inv n q \<longleftrightarrow> tq_max_concurrency q = n \<and> finite (dom (tq_tasks q))
     \<and> (\<forall>tenant_id i. tq_semaphores q tenant_id = Some i \<longrightarrow>
          i < length (tq_heap q) \<and> balanced (nat n) (running q tenant_id) (in_line q tenant_id) (tq_heap q ! i))
     \<and> (\<forall>a b i. tq_semaphores q a = Some i \<longrightarrow> tq_semaphores q b = Some i \<longrightarrow> a = b)
     \<and> (\<forall>t tenant_id i. tq_tasks q t = Some (In_Line tenant_id i) \<or> tq_tasks q t = Some (Inside tenant_id i)
          \<longrightarrow> tq_semaphores q tenant_id = Some i)"

lemma queue_invD:
  assumes "queue_inv n q"
  shows "tq_semaphores q tenant_id = Some i \<Longrightarrow> i < length (tq_heap q)"
    and "tq_semaphores q tenant_id = Some i \<Longrightarrow> balanced (nat n) (running q tenant_id) (in_line q tenant_id) (tq_heap q ! i)"
    and "tq_tasks q t = Some (In_Line tenant_id i) \<Longrightarrow> tq_semaphores q tenant_id = Some i"
    and "tq_tasks q t = Some (Inside tenant_id i) \<Longrightarrow> tq_semaphores q tenant_id = Some i"
    and "finite (running q tenant_id)"
proof -
  show "finite (running q tenant_id)"
    by (rule finite_subset [of _ "dom (tq_tasks q)"]) (use assms in \<open>auto simp: running_def queue_inv_def\<close>)
qed (use assms in \<open>auto simp: queue_inv_def\<close>)

lemma put_inv:
  assumes inv: "queue_inv n q" and i: "tq_semaphores q tenant_id = Some i"
    and p: "place_at tenant_id i (tq_tasks q t)" "place_at tenant_id i p"
    and sem: "balanced (nat n) (running (put i sem t p q) tenant_id) (in_line (put i sem t p q) tenant_id) sem"
  shows "queue_inv n (put i sem t p q)"
proof -
  have sets: "running (put i sem t p q) b = running q b" "in_line (put i sem t p q) b = in_line q b" if "b \<noteq> tenant_id" for b
    using that p by (auto simp: running_def in_line_def put_def place_at_def)
  have ne: "j \<noteq> i" if "tq_semaphores q b = Some j" "b \<noteq> tenant_id" for b j
    using inv i that by (auto simp: queue_inv_def)
  have "j < length (tq_heap (put i sem t p q))
      \<and> balanced (nat n) (running (put i sem t p q) b) (in_line (put i sem t p q) b) (tq_heap (put i sem t p q) ! j)"
    if "tq_semaphores q b = Some j" for b j
  proof (cases "b = tenant_id")
    case True
    with that i sem queue_invD(1) [OF inv i] show ?thesis by (simp add: put_def)
  next
    case False
    with that ne [OF that] sets [OF False] queue_invD(1,2) [OF inv that] show ?thesis by (simp add: put_def)
  qed
  moreover have "finite (dom (tq_tasks (put i sem t p q)))" using inv by (simp add: put_def queue_inv_def)
  moreover have "tq_semaphores q b = Some j"
    if "tq_tasks (put i sem t p q) x = Some (In_Line b j) \<or> tq_tasks (put i sem t p q) x = Some (Inside b j)" for x b j
    using that i p(2) inv by (auto simp: put_def queue_inv_def place_at_def split: if_split_asm)
  ultimately show ?thesis using inv by (auto simp: queue_inv_def put_def)
qed

lemma put_sets:
  "running (put i sem t (Some (Inside a i)) q) a = insert t (running q a)"
  "in_line (put i sem t (Some (Inside a i)) q) a = in_line q a - {t}"
  "running (put i sem t (Some (In_Line a i)) q) a = running q a - {t}"
  "in_line (put i sem t (Some (In_Line a i)) q) a = insert t (in_line q a)"
  "running (put i sem t None q) a = running q a - {t}"
  "in_line (put i sem t None q) a = in_line q a - {t}"
  by (auto simp: running_def in_line_def put_def)

lemma new_queue_inv: "queue_inv n (new_tenant_queue n)"
  by (simp add: queue_inv_def new_tenant_queue_def)

lemma semaphore_for_inv:
  assumes "queue_inv n q" "semaphore_for a q = Inr (i, q')"
  shows "queue_inv n q'" "tq_semaphores q' a = Some i" "tq_tasks q' = tq_tasks q"
proof -
  have "queue_inv n q' \<and> tq_semaphores q' a = Some i \<and> tq_tasks q' = tq_tasks q"
  proof (cases "tq_semaphores q a")
    case (Some j)
    with assms show ?thesis by (simp add: semaphore_for_def)
  next
    case None
    with assms have none: "running q a = {}" "in_line q a = {}"
      by (auto simp: running_def in_line_def dest: queue_invD(3,4))
    have same: "running (q\<lparr>tq_heap := h, tq_semaphores := m\<rparr>) b = running q b"
      "in_line (q\<lparr>tq_heap := h, tq_semaphores := m\<rparr>) b = in_line q b" for h m b
      by (simp_all add: running_def in_line_def)
    from None assms(2) have q': "0 \<le> n" "i = length (tq_heap q)"
      "q' = q\<lparr>tq_heap := tq_heap q @ [\<lparr>sm_value = nat n, sm_waiters = []\<rparr>], tq_semaphores := (tq_semaphores q)(a \<mapsto> length (tq_heap q))\<rparr>"
      using assms(1) by (auto simp: semaphore_for_def new_semaphore_def queue_inv_def split: if_split_asm)
    have "j < length (tq_heap q') \<and> balanced (nat n) (running q' b) (in_line q' b) (tq_heap q' ! j)"
      if "tq_semaphores q' b = Some j" for b j
      using that none queue_invD(1,2) [OF assms(1), of b j]
      by (auto simp: q' same nth_append balanced_def woken_count_def no_lost_slot_def futures_def split: if_split_asm)
    moreover have "b = c" if "tq_semaphores q' b = Some j" "tq_semaphores q' c = Some j" for b c j
      using that queue_invD(1) [OF assms(1), of b j] queue_invD(1) [OF assms(1), of c j] assms(1)
      by (auto simp: q' queue_inv_def split: if_split_asm)
    moreover have "tq_semaphores q' b = Some j"
      if "tq_tasks q' x = Some (In_Line b j) \<or> tq_tasks q' x = Some (Inside b j)" for x b j
      using that None queue_invD(3,4) [OF assms(1), of x b j] by (auto simp: q')
    moreover have "tq_max_concurrency q' = n" "finite (dom (tq_tasks q'))" "tq_semaphores q' a = Some i" "tq_tasks q' = tq_tasks q"
      using assms(1) by (simp_all add: q' queue_inv_def)
    ultimately show ?thesis unfolding queue_inv_def by blast
  qed
  then show "queue_inv n q'" "tq_semaphores q' a = Some i" "tq_tasks q' = tq_tasks q" by simp_all
qed

lemma place_at_intros [simp]:
  "place_at a i None" "place_at a i (Some (In_Line a i))" "place_at a i (Some (Inside a i))"
  by (simp_all add: place_at_def)

lemma enter_inv:
  assumes "queue_inv n q" "tq_tasks q t = None"
  shows "queue_inv n (enter_tenant t a q)"
proof (cases "semaphore_for a q")
  case (Inr x)
  obtain i q' where x: "x = (i, q')" by (cases x)
  obtain entered sem where acq: "sem_acquire t (tq_heap q' ! i) = (entered, sem)" by (cases "sem_acquire t (tq_heap q' ! i)")
  note sf = semaphore_for_inv [OF assms(1) Inr [unfolded x]]
  have out: "t \<notin> running q' a" "t \<notin> in_line q' a" using assms(2) sf(3) by (auto simp: running_def in_line_def)
  have "queue_inv n (put i sem t (Some (if entered then Inside a i else In_Line a i)) q')"
  proof (rule put_inv [OF sf(1,2)])
    show "place_at a i (tq_tasks q' t)" "place_at a i (Some (if entered then Inside a i else In_Line a i))"
      using assms(2) sf(3) by (cases entered, simp_all)+
    show "balanced (nat n) (running (put i sem t (Some (if entered then Inside a i else In_Line a i)) q') a)
        (in_line (put i sem t (Some (if entered then Inside a i else In_Line a i)) q') a) sem"
      using acquire_balanced [OF queue_invD(2) [OF sf(1,2)] out queue_invD(5) [OF sf(1)] acq] out
      by (cases entered) (simp_all add: put_sets)
  qed
  then show ?thesis by (simp add: enter_tenant_def Inr x acq)
qed (simp add: enter_tenant_def assms(1))

lemma queue_do_inv:
  assumes inv: "queue_inv n q" and step: "queue_do x q = Some q'"
  shows "queue_inv n q'"
proof (cases x)
  case (Enter t a)
  with step inv show ?thesis by (auto intro: enter_inv split: if_split_asm)
next
  case (Resume t wakes)
  with step obtain a i where at: "tq_tasks q t = Some (In_Line a i)" "has_future q i t Woken" "0 < wakes"
    and q': "q' = put i (sem_resume wakes t (tq_heap q ! i)) t (Some (Inside a i)) q"
    by (auto split: option.splits place.splits if_split_asm)
  note i = queue_invD(3) [OF inv at(1)]
  have "t \<notin> running q a" using at(1) by (simp add: running_def)
  from resume_balanced [OF queue_invD(2) [OF inv i] this queue_invD(5) [OF inv] at(2) [unfolded has_future_def] at(3)]
  show ?thesis unfolding q' by (intro put_inv [OF inv i]) (simp_all add: at put_sets)
next
  case (Leave t a)
  with step obtain i where at: "tq_tasks q t = Some (Inside a i)"
    and q': "q' = put i (sem_release (tq_heap q ! i)) t None q"
    by (auto split: option.splits place.splits if_split_asm)
  note i = queue_invD(4) [OF inv at]
  have "t \<in> running q a" "in_line q a - {t} = in_line q a" using at by (auto simp: running_def in_line_def)
  with release_balanced [OF queue_invD(2) [OF inv i] _ queue_invD(5) [OF inv], of t]
  show ?thesis unfolding q' by (intro put_inv [OF inv i]) (simp_all add: at put_sets)
next
  case (Cancel t)
  with step obtain a i where at: "tq_tasks q t = Some (In_Line a i)"
    and q': "q' = put i (sem_cancel t (tq_heap q ! i)) t (Some (In_Line a i)) q"
    by (auto split: option.splits place.splits if_split_asm)
  note i = queue_invD(3) [OF inv at]
  have "running q a - {t} = running q a" "insert t (in_line q a) = in_line q a" using at by (auto simp: running_def in_line_def)
  with cancel_balanced [OF queue_invD(2) [OF inv i], of t]
  show ?thesis unfolding q' by (intro put_inv [OF inv i]) (simp_all add: at put_sets)
next
  case (Abort t wakes)
  with step obtain a i where at: "tq_tasks q t = Some (In_Line a i)" "has_future q i t Withdrawn \<or> has_future q i t Woken \<and> 0 < wakes"
    and q': "q' = put i (sem_abort wakes t (tq_heap q ! i)) t None q"
    by (auto split: option.splits place.splits if_split_asm)
  note i = queue_invD(3) [OF inv at(1)]
  have "running q a - {t} = running q a" using at by (auto simp: running_def)
  with abort_balanced [OF queue_invD(2) [OF inv i] at(2) [unfolded has_future_def]]
  show ?thesis unfolding q' by (intro put_inv [OF inv i]) (simp_all add: at put_sets)
qed

lemma queue_run_inv: "queue_inv n q \<Longrightarrow> queue_run xs q = Some q' \<Longrightarrow> queue_inv n q'"
proof (induction xs arbitrary: q)
  case (Cons x xs)
  then show ?case by (cases "queue_do x q") (auto dest: queue_do_inv)
qed simp

lemmas reached_inv = queue_run_inv [OF new_queue_inv]

section \<open>The cap\<close>

lemma with_future_eq:
  assumes "queue_inv n q" "tq_semaphores q a = Some i"
  shows "with_future f q a = {t. (t, f) \<in> set (sm_waiters (tq_heap q ! i))}"
proof -
  have line: "in_line q a = fst ` set (sm_waiters (tq_heap q ! i))"
    using queue_invD(2) [OF assms] by (simp add: balanced_def)
  have "(\<exists>j. tq_tasks q t = Some (In_Line a j) \<and> has_future q j t f) \<longleftrightarrow> (t, f) \<in> set (sm_waiters (tq_heap q ! i))" for t
  proof
    assume "(t, f) \<in> set (sm_waiters (tq_heap q ! i))"
    moreover from this have "t \<in> in_line q a" unfolding line by force
    ultimately show "\<exists>j. tq_tasks q t = Some (In_Line a j) \<and> has_future q j t f"
      using queue_invD(3) [OF assms(1), of t a] assms(2) by (auto simp: in_line_def has_future_def)
  qed (use queue_invD(3) [OF assms(1), of t a] assms(2) in \<open>auto simp: has_future_def\<close>)
  then show ?thesis by (auto simp: with_future_def)
qed

lemma card_woken:
  assumes "queue_inv n q" "tq_semaphores q a = Some i"
  shows "finite (with_future Woken q a)" "card (with_future Woken q a) = woken_count (tq_heap q ! i)"
proof -
  let ?ws = "filter (\<lambda>w. snd w = Woken) (sm_waiters (tq_heap q ! i))"
  have set: "with_future Woken q a = set (map fst ?ws)"
    unfolding with_future_eq [OF assms] by force
  have "distinct (map fst ?ws)" using queue_invD(2) [OF assms] by (simp add: balanced_def distinct_map_filter)
  then have "card (set (map fst ?ws)) = length ?ws" by (simp only: distinct_card length_map)
  then show "finite (with_future Woken q a)" "card (with_future Woken q a) = woken_count (tq_heap q ! i)"
    unfolding set woken_count_def by simp_all
qed

lemma no_semaphore_no_tasks:
  assumes "queue_inv n q" "tq_semaphores q a = None"
  shows "running q a = {}" "with_future f q a = {}"
  using queue_invD(3,4) [OF assms(1), of _ a] assms(2) by (auto simp: running_def with_future_def)

lemma futures_iff: "f \<in> futures sem \<longleftrightarrow> (\<exists>t. (t, f) \<in> set (sm_waiters sem))"
  unfolding futures_def by force

lemma sem_locked_iff: "sem_locked sem \<longleftrightarrow> sm_value sem = 0 \<or> Woken \<in> futures sem \<or> Waiting \<in> futures sem"
proof -
  have "(\<exists>w \<in> set (sm_waiters sem). snd w \<noteq> Withdrawn) \<longleftrightarrow> Woken \<in> futures sem \<or> Waiting \<in> futures sem"
    unfolding futures_def image_iff by (metis future.exhaust future.distinct(3,5))
  then show ?thesis by (simp add: sem_locked_def list_ex_iff)
qed

lemma slots_accounted:
  assumes "queue_inv n q" "tq_semaphores q a = Some i"
  shows "sm_value (tq_heap q ! i) + card (running q a) + card (with_future Woken q a) = nat n"
    and "with_future Waiting q a \<noteq> {} \<Longrightarrow> with_future Woken q a = {} \<Longrightarrow> sm_value (tq_heap q ! i) = 0"
  using queue_invD(2) [OF assms] card_woken [OF assms]
  by (auto simp: balanced_def no_lost_slot_def futures_iff with_future_eq [OF assms])

lemma enters_at_once:
  assumes "queue_inv n q" "tq_tasks q t = None" "0 \<le> n"
  shows "t \<in> running (enter_tenant t a q) a \<longleftrightarrow>
      card (running q a) < nat n \<and> with_future Woken q a = {} \<and> with_future Waiting q a = {}"
proof -
  obtain i q' where sf: "semaphore_for a q = Inr (i, q')"
    using assms(1,3) by (cases "tq_semaphores q a") (auto simp: semaphore_for_def new_semaphore_def queue_inv_def)
  note inv = semaphore_for_inv [OF assms(1) sf]
  have "with_future f q' a = with_future f q a" "running q' a = running q a" for f
  proof -
    show "running q' a = running q a" using inv(3) by (simp add: running_def)
    have "with_future f q' a = {}" if "tq_semaphores q a = None"
    proof -
      have "in_line q' a = {}" using that queue_invD(3) [OF assms(1), of _ a] inv(3) by (auto simp: in_line_def)
      then show ?thesis by (auto simp: with_future_def in_line_def)
    qed
    then show "with_future f q' a = with_future f q a"
      using no_semaphore_no_tasks(2) [OF assms(1), of a f] sf
      by (cases "tq_semaphores q a") (auto simp: semaphore_for_def)
  qed
  note same = this
  let ?sem = "tq_heap q' ! i"
  have "t \<in> running (enter_tenant t a q) a \<longleftrightarrow> \<not> sem_locked ?sem"
    by (simp add: enter_tenant_def sf sem_acquire_def running_def put_def)
  also have "sem_locked ?sem \<longleftrightarrow> sm_value ?sem = 0 \<or> with_future Woken q a \<noteq> {} \<or> with_future Waiting q a \<noteq> {}"
    by (simp add: sem_locked_iff futures_iff with_future_eq [OF inv(1,2)] flip: same(1))
  finally show ?thesis
    using slots_accounted(1) [OF inv(1,2)] by (auto simp: same)
qed

text \<open>
  Claim C16.  However the tasks enter, wait, run, leave and are cancelled, each tenant has at most \<open>n\<close>
  tasks inside, and its free slots, its tasks inside and its woken tasks add up to \<open>n\<close>: no slot is lost
  or made up.  While a task waits, all \<open>n\<close> slots are taken by tasks inside, unless a woken task has yet
  to run.  And a task enters at once exactly when fewer than \<open>n\<close> are inside and nobody is in line
  that has not been cancelled.  The global queue is the case of one tenant.
\<close>

theorem tenant_queue_cap:
  assumes "queue_run xs (new_tenant_queue n) = Some q"
  shows "finite (running q a) \<and> card (running q a) + card (with_future Woken q a) \<le> nat n
    \<and> (\<forall>i. tq_semaphores q a = Some i \<longrightarrow>
         sm_value (tq_heap q ! i) + card (running q a) + card (with_future Woken q a) = nat n)
    \<and> (with_future Waiting q a \<noteq> {} \<longrightarrow> with_future Woken q a = {} \<longrightarrow> card (running q a) = nat n)
    \<and> (\<forall>t. tq_tasks q t = None \<longrightarrow> 0 \<le> n \<longrightarrow> (\<exists>q'. queue_do (Enter t a) q = Some q' \<and>
         (t \<in> running q' a \<longleftrightarrow> card (running q a) < nat n \<and> with_future Woken q a = {} \<and> with_future Waiting q a = {})))"
proof -
  note inv = reached_inv [OF assms]
  show ?thesis
  proof (cases "tq_semaphores q a")
    case None
    with no_semaphore_no_tasks [OF inv None] enters_at_once [OF inv] show ?thesis by simp
  next
    case (Some i)
    have "with_future Waiting q a \<noteq> {} \<longrightarrow> with_future Woken q a = {} \<longrightarrow> card (running q a) = nat n"
    proof (intro impI)
      assume "with_future Waiting q a \<noteq> {}" "with_future Woken q a = {}"
      with slots_accounted(1) [OF inv Some] slots_accounted(2) [OF inv Some this] show "card (running q a) = nat n" by simp
    qed
    moreover have "card (running q a) + card (with_future Woken q a) \<le> nat n"
      using slots_accounted(1) [OF inv Some] by linarith
    ultimately show ?thesis
      using Some slots_accounted(1) [OF inv Some] queue_invD(5) [OF inv, of a] enters_at_once [OF inv] by simp
  qed
qed

text \<open>One slot: a task inside, one in line, and one of another tenant.\<close>

definition sample_ops :: "nat queue_op list" where
  "sample_ops = [Enter 1 (u ''a''), Enter 2 (u ''a''), Enter 3 (u ''b'')]"

definition sample_queue :: "nat tenant_queue" where
  "sample_queue =
     \<lparr>tq_max_concurrency = 1, tq_semaphores = [u ''a'' \<mapsto> 0, u ''b'' \<mapsto> 1],
      tq_heap = [\<lparr>sm_value = 0, sm_waiters = [(2, Waiting)]\<rparr>, \<lparr>sm_value = 0, sm_waiters = []\<rparr>],
      tq_tasks = [1 \<mapsto> Inside (u ''a'') 0, 2 \<mapsto> In_Line (u ''a'') 0, 3 \<mapsto> Inside (u ''b'') 1]\<rparr>"

lemma sample_queue_reached: "queue_run sample_ops (new_tenant_queue 1) = Some sample_queue"
  by (simp add: sample_ops_def sample_queue_def new_tenant_queue_def enter_tenant_def semaphore_for_def new_semaphore_def
      sem_acquire_def sem_locked_def put_def and_then_def)

lemma sample_queue_sets:
  "running sample_queue (u ''a'') = {1}" "running sample_queue (u ''b'') = {3}"
  "with_future Waiting sample_queue (u ''a'') = {2}" "with_future Woken sample_queue (u ''a'') = {}"
  by (auto simp: running_def with_future_def has_future_def sample_queue_def split: if_split_asm)

theorem tenant_queue_cap_witness:
  "card (running sample_queue (u ''a'')) = nat 1 \<and> running sample_queue (u ''a'') = {1} \<and> running sample_queue (u ''b'') = {3}"
  using tenant_queue_cap [OF sample_queue_reached, of "u ''a''"] sample_queue_sets by simp

section \<open>Nobody waits forever\<close>

text \<open>The waiting tasks ahead of one in line.\<close>

definition ahead_in :: "'t \<Rightarrow> ('t \<times> future) list \<Rightarrow> nat" where
  "ahead_in t ws = length (filter (\<lambda>w. snd w = Waiting) (takeWhile (\<lambda>w. fst w \<noteq> t) ws))"

definition ahead :: "'t \<Rightarrow> 't tenant_queue \<Rightarrow> nat" where
  "ahead t q = (case tq_tasks q t of Some (In_Line tenant_id i) \<Rightarrow> ahead_in t (sm_waiters (tq_heap q ! i)) | _ \<Rightarrow> 0)"

fun is_leave :: "pystr \<Rightarrow> 't queue_op \<Rightarrow> bool" where
  "is_leave a (Leave t b) = (b = a)"
| "is_leave a _ = False"

text \<open>A step by which \<open>t\<close> stays woken or is woken, or has \<open>k\<close> tasks fewer ahead.\<close>

definition approaches :: "'t \<Rightarrow> nat \<Rightarrow> 't semaphore \<Rightarrow> 't semaphore \<Rightarrow> bool" where
  "approaches t k sem sem' \<longleftrightarrow>
     ((t, Woken) \<in> set (sm_waiters sem) \<longrightarrow> (t, Woken) \<in> set (sm_waiters sem'))
     \<and> ((t, Waiting) \<in> set (sm_waiters sem) \<longrightarrow> (t, Woken) \<in> set (sm_waiters sem')
         \<or> (t, Waiting) \<in> set (sm_waiters sem') \<and> ahead_in t (sm_waiters sem') + k \<le> ahead_in t (sm_waiters sem))"

lemma approaches_refl [simp]: "approaches t 0 sem sem"
  by (simp add: approaches_def)

lemma approaches_trans: "approaches t j sem sem' \<Longrightarrow> approaches t k sem' sem'' \<Longrightarrow> approaches t (j + k) sem sem''"
  by (fastforce simp: approaches_def)

lemma wake_first_approaches:
  "wake_first ws = Some ws' \<Longrightarrow> distinct (map fst ws) \<Longrightarrow>
     ((t, Woken) \<in> set ws \<longrightarrow> (t, Woken) \<in> set ws')
     \<and> ((t, Waiting) \<in> set ws \<longrightarrow> (t, Woken) \<in> set ws' \<or> (t, Waiting) \<in> set ws' \<and> ahead_in t ws' + 1 \<le> ahead_in t ws)"
proof (induction ws arbitrary: ws' rule: wake_first.induct)
  case (2 x f ws)
  show ?case
  proof (cases "f = Waiting")
    case True
    with 2 show ?thesis by (auto simp: ahead_in_def)
  next
    case False
    with "2.prems" obtain vs where vs: "wake_first ws = Some vs" "ws' = (x, f) # vs" by auto
    have "t \<notin> fst ` set ws" if "t = x" using "2.prems"(2) that by auto
    then have "(t, g) \<notin> set ws" if "t = x" for g using that by force
    with 2 False vs show ?thesis by (auto simp: ahead_in_def)
  qed
qed simp

lemma wake_up_next_approaches:
  assumes "distinct (map fst (sm_waiters sem))"
  shows "approaches t (if 0 < sm_value sem then 1 else 0) sem (wake_up_next sem)"
  using wake_first_approaches [of "sm_waiters sem" _ t] wake_first_None [of "sm_waiters sem"] assms
  by (force simp: approaches_def wake_up_next_def split: option.split)

lemma wake_up_more_approaches:
  assumes "distinct (map fst (sm_waiters sem))"
  shows "approaches t 0 sem ((wake_up_next ^^ m) sem)"
proof (induction m)
  case (Suc m)
  have "distinct (map fst (sm_waiters ((wake_up_next ^^ m) sem)))" using assms by (simp add: wake_up_more_effect)
  from approaches_trans [OF Suc.IH wake_up_next_approaches [OF this, of t]]
  show ?case by (auto simp: approaches_def split: if_split_asm)
qed simp

lemma acquire_approaches: "sem_acquire x sem = (entered, sem') \<Longrightarrow> approaches t 0 sem sem'"
  by (auto simp: sem_acquire_def approaches_def ahead_in_def takeWhile_append1 split: if_split_asm)

lemma release_approaches:
  assumes "distinct (map fst (sm_waiters sem))"
  shows "approaches t 1 sem (sem_release sem)"
proof -
  have "approaches t 0 sem (sem\<lparr>sm_value := sm_value sem + 1\<rparr>)" by (simp add: approaches_def)
  from approaches_trans [OF this] wake_up_next_approaches [of "sem\<lparr>sm_value := sm_value sem + 1\<rparr>" t] assms
  show ?thesis by (simp add: sem_release_def)
qed

lemma drop_waiter_approaches:
  assumes "t \<noteq> x"
  shows "approaches t 0 sem (drop_waiter x (sem\<lparr>sm_value := v\<rparr>))" "approaches t 0 sem (drop_waiter x sem)"
proof -
  have "ahead_in t (filter (\<lambda>w. fst w \<noteq> x) ws) \<le> ahead_in t ws" for ws
    using assms by (induction ws) (auto simp: ahead_in_def)
  then show "approaches t 0 sem (drop_waiter x (sem\<lparr>sm_value := v\<rparr>))" "approaches t 0 sem (drop_waiter x sem)"
    using assms by (auto simp: approaches_def drop_waiter_def)
qed

lemma resume_approaches:
  assumes "t \<noteq> x" "distinct (map fst (sm_waiters sem))"
  shows "approaches t 0 sem (sem_resume m x sem)"
  using approaches_trans [OF drop_waiter_approaches(2) [OF assms(1)] wake_up_more_approaches] drop_waiter_keys(1) [OF assms(2)]
  by (fastforce simp: sem_resume_def)

lemma abort_approaches:
  assumes "t \<noteq> x" "distinct (map fst (sm_waiters sem))"
  shows "approaches t 0 sem (sem_abort m x sem)"
  using approaches_trans [OF drop_waiter_approaches(2) [OF assms(1)] wake_up_more_approaches]
    approaches_trans [OF drop_waiter_approaches(1) [OF assms(1)] wake_up_more_approaches]
    drop_waiter_keys(1) [of sem] drop_waiter_keys(1) [of "sem\<lparr>sm_value := sm_value sem + 1\<rparr>"] assms(2)
  by (fastforce simp: sem_abort_def)

lemma cancel_approaches:
  assumes "t \<noteq> x"
  shows "approaches t 0 sem (sem_cancel x sem)"
proof -
  let ?c = "\<lambda>w. if w = (x, Waiting) then (x, Withdrawn) else w"
  have "ahead_in t (map ?c ws) \<le> ahead_in t ws" "f \<noteq> Withdrawn \<Longrightarrow> (t, f) \<in> set ws \<Longrightarrow> (t, f) \<in> set (map ?c ws)" for ws f
    using assms by (induction ws) (auto simp: ahead_in_def)
  from this(1) [of "sm_waiters sem"] this(2) [of Waiting "sm_waiters sem"] this(2) [of Woken "sm_waiters sem"]
  show ?thesis unfolding approaches_def sem_cancel_def by simp
qed

text \<open>A task in line is served by every step, unless the step is its own cancellation or abort.\<close>

lemma put_other:
  "t \<noteq> x \<Longrightarrow> tq_tasks (put j sem x p q) t = tq_tasks q t"
  "i < length (tq_heap q) \<Longrightarrow> tq_heap (put j sem x p q) ! i = (if i = j then sem else tq_heap q ! i)"
  by (auto simp: put_def nth_list_update)

lemma step_approaches:
  assumes inv: "queue_inv n q" and step: "queue_do x q = Some q'"
    and t: "tq_tasks q t = Some (In_Line a i)" and kept: "x \<noteq> Cancel t" "\<nexists>m. x = Abort t m"
  shows "t \<in> running q' a \<or> tq_tasks q' t = Some (In_Line a i)
     \<and> approaches t (if is_leave a x then 1 else 0) (tq_heap q ! i) (tq_heap q' ! i)"
proof -
  note i = queue_invD(3) [OF inv t]
  note heap = queue_invD(1) [OF inv i]
  have keys: "distinct (map fst (sm_waiters (tq_heap q ! i)))"
    using queue_invD(2) [OF inv i] by (simp add: balanced_def)
  show ?thesis
  proof (cases x)
    case (Enter y b)
    with step t have "t \<noteq> y" and q': "q' = enter_tenant y b q" by (auto split: if_split_asm)
    show ?thesis
    proof (cases "semaphore_for b q")
      case (Inr r)
      obtain j p where r: "r = (j, p)" by (cases r)
      obtain entered sem where acq: "sem_acquire y (tq_heap p ! j) = (entered, sem)" by (cases "sem_acquire y (tq_heap p ! j)")
      have same: "tq_tasks p t = tq_tasks q t" "tq_heap p ! i = tq_heap q ! i" "i < length (tq_heap p)"
        using Inr heap by (auto simp: r semaphore_for_def and_then_def nth_append split: option.splits sum.splits)
      then have "approaches t 0 (tq_heap q ! i) (if i = j then sem else tq_heap p ! i)"
        using acquire_approaches [OF acq, of t] by auto
      then show ?thesis using same t \<open>t \<noteq> y\<close> Enter by (simp add: q' enter_tenant_def Inr r acq put_other)
    qed (use q' t Enter in \<open>simp add: enter_tenant_def\<close>)
  next
    case (Resume y wakes)
    with step obtain b j where y: "tq_tasks q y = Some (In_Line b j)"
      and q': "q' = put j (sem_resume wakes y (tq_heap q ! j)) y (Some (Inside b j)) q"
      by (auto split: option.splits place.splits if_split_asm)
    show ?thesis
    proof (cases "t = y")
      case True
      with y t show ?thesis by (simp add: q' running_def put_def)
    next
      case False
      then show ?thesis using t heap Resume resume_approaches [OF False keys, of wakes]
        by (cases "i = j") (simp_all add: q' put_other)
    qed
  next
    case (Leave y b)
    with step obtain j where y: "tq_tasks q y = Some (Inside b j)" and q': "q' = put j (sem_release (tq_heap q ! j)) y None q"
      by (auto split: option.splits place.splits if_split_asm)
    have "t \<noteq> y" using y t by auto
    have step: "approaches t 1 (tq_heap q ! i) (sem_release (tq_heap q ! i))"
      by (rule release_approaches [OF keys])
    then have "approaches t 0 (tq_heap q ! i) (sem_release (tq_heap q ! i))" by (auto simp: approaches_def)
    moreover have "i = j" if "b = a" using that queue_invD(4) [OF inv y] i by simp
    ultimately have "approaches t (if b = a then 1 else 0) (tq_heap q ! i)
        (if i = j then sem_release (tq_heap q ! j) else tq_heap q ! i)"
      using step by auto
    then show ?thesis using t heap Leave \<open>t \<noteq> y\<close> by (simp add: q' put_other)
  next
    case (Cancel y)
    with step obtain b j where q': "q' = put j (sem_cancel y (tq_heap q ! j)) y (Some (In_Line b j)) q"
      by (auto split: option.splits place.splits if_split_asm)
    have "t \<noteq> y" using Cancel kept by auto
    then show ?thesis using t heap Cancel cancel_approaches [of t y] by (cases "i = j") (simp_all add: q' put_other)
  next
    case (Abort y wakes)
    with step obtain j where q': "q' = put j (sem_abort wakes y (tq_heap q ! j)) y None q"
      by (auto split: option.splits place.splits if_split_asm)
    have "t \<noteq> y" using Abort kept by auto
    then show ?thesis using t heap Abort abort_approaches [OF _ keys, of t y wakes] by (cases "i = j") (simp_all add: q' put_other)
  qed
qed

lemma waiting_bounded:
  assumes "queue_inv n q" "queue_run xs q = Some q'" "tq_tasks q t = Some (In_Line a i)"
    and "Cancel t \<notin> set xs" "\<forall>m. Abort t m \<notin> set xs"
    and "has_future q i t Woken \<or> has_future q i t Waiting \<and> ahead t q < length (filter (is_leave a) xs)"
  shows "(\<exists>pre post m. xs = pre @ post \<and> queue_run pre q = Some m \<and> t \<in> running m a) \<or> t \<in> with_future Woken q' a"
  using assms
proof (induction xs arbitrary: q)
  case (Cons x xs)
  obtain mid where mid: "queue_do x q = Some mid" "queue_run xs mid = Some q'"
    using Cons.prems(2) by (auto simp: Option.bind_eq_Some_conv)
  show ?case
  proof (cases "t \<in> running mid a")
    case True
    with mid(1) have "x # xs = [x] @ xs \<and> queue_run [x] q = Some mid \<and> t \<in> running mid a" by simp
    then show ?thesis by blast
  next
    case False
    have "x \<noteq> Cancel t" "\<nexists>m. x = Abort t m" using Cons.prems(4,5) by auto
    from step_approaches [OF Cons.prems(1) mid(1) Cons.prems(3) this] False
    have line: "tq_tasks mid t = Some (In_Line a i)"
      and near: "approaches t (if is_leave a x then 1 else 0) (tq_heap q ! i) (tq_heap mid ! i)" by auto
    have "has_future mid i t Woken \<or> has_future mid i t Waiting \<and> ahead t mid < length (filter (is_leave a) xs)"
      using Cons.prems(3,6) near line by (auto simp: approaches_def has_future_def ahead_def split: if_split_asm)
    from Cons.IH [OF queue_do_inv [OF Cons.prems(1) mid(1)] mid(2) line _ _ this] Cons.prems(4,5)
    consider pre post m where "xs = pre @ post" "queue_run pre mid = Some m" "t \<in> running m a"
      | "t \<in> with_future Woken q' a" by auto
    then show ?thesis
    proof cases
      case 1
      with mid(1) have "x # xs = (x # pre) @ post \<and> queue_run (x # pre) q = Some m \<and> t \<in> running m a" by simp
      then show ?thesis by blast
    qed simp
  qed
qed (auto simp: with_future_def)

lemma woken_resumes:
  assumes "t \<in> with_future Woken q a"
  shows "\<exists>q'. queue_do (Resume t 1) q = Some q' \<and> t \<in> running q' a"
  using assms by (auto simp: with_future_def running_def put_def)

lemma someone_can_move:
  assumes "queue_inv n q" "0 < n" "t \<in> with_future Waiting q a"
  shows "(\<exists>x q'. queue_do (Leave x a) q = Some q') \<or> with_future Woken q a \<noteq> {}"
proof (cases "with_future Woken q a = {}")
  case True
  obtain i where i: "tq_semaphores q a = Some i"
    using assms(3) queue_invD(3) [OF assms(1)] by (auto simp: with_future_def)
  have "with_future Waiting q a \<noteq> {}" using assms(3) by auto
  with slots_accounted [OF assms(1) i] True assms(2) have "0 < card (running q a)" by simp
  then obtain x where "x \<in> running q a" by (auto simp: card_gt_0_iff)
  then obtain j where "tq_tasks q x = Some (Inside a j)" by (auto simp: running_def)
  then have "queue_do (Leave x a) q = Some (put j (sem_release (tq_heap q ! j)) x None q)" by simp
  then show ?thesis by blast
qed simp

text \<open>
  Claim C17.  No task waits forever.  In every reachable state of a queue with at least one slot, while a
  task waits, some task of its tenant is inside and can leave, or a woken one can run and is then inside.
  And in every run in which the task is not cancelled and in which more tasks of its tenant leave than
  were waiting ahead of it, whatever else enters, leaves, is cancelled or wakes up in between, it has been
  inside, unless the run stops while the task is woken: then it can run, and is inside.
\<close>

theorem waiting_task_enters:
  assumes "queue_run zs (new_tenant_queue n) = Some q" and "0 < n" and "t \<in> with_future Waiting q a"
  shows "((\<exists>x q'. queue_do (Leave x a) q = Some q') \<or> (\<exists>x q'. queue_do (Resume x 1) q = Some q' \<and> x \<in> running q' a))
    \<and> (\<forall>xs q'. queue_run xs q = Some q' \<longrightarrow> Cancel t \<notin> set xs \<longrightarrow> (\<forall>m. Abort t m \<notin> set xs) \<longrightarrow>
        ahead t q < length (filter (is_leave a) xs) \<longrightarrow>
        (\<exists>pre post m. xs = pre @ post \<and> queue_run pre q = Some m \<and> t \<in> running m a)
        \<or> (\<exists>m. queue_do (Resume t 1) q' = Some m \<and> t \<in> running m a))"
proof -
  note inv = reached_inv [OF assms(1)]
  obtain i where i: "tq_tasks q t = Some (In_Line a i)" "has_future q i t Waiting"
    using assms(3) by (auto simp: with_future_def)
  have "(\<exists>x q'. queue_do (Leave x a) q = Some q') \<or> (\<exists>x q'. queue_do (Resume x 1) q = Some q' \<and> x \<in> running q' a)"
    using someone_can_move [OF inv assms(2,3)] woken_resumes [of _ q a] by blast
  moreover have "(\<exists>pre post m. xs = pre @ post \<and> queue_run pre q = Some m \<and> t \<in> running m a)
      \<or> (\<exists>m. queue_do (Resume t 1) q' = Some m \<and> t \<in> running m a)"
    if "queue_run xs q = Some q'" "Cancel t \<notin> set xs" "\<forall>m. Abort t m \<notin> set xs" "ahead t q < length (filter (is_leave a) xs)" for xs q'
    using waiting_bounded [OF inv that(1) i(1) that(2,3)] i(2) that(4) woken_resumes [of t q' a] by blast
  ultimately show ?thesis by blast
qed

text \<open>The task inside leaves: the waiting one is woken, and runs.\<close>

theorem waiting_task_enters_witness:
  "(\<exists>x q'. queue_do (Leave x (u ''a'')) sample_queue = Some q')
   \<and> ((\<exists>pre post m. [Leave 1 (u ''a'')] = pre @ post \<and> queue_run pre sample_queue = Some m \<and> 2 \<in> running m (u ''a''))
      \<or> (\<exists>q' m. queue_run [Leave 1 (u ''a'')] sample_queue = Some q' \<and> queue_do (Resume 2 1) q' = Some m \<and> 2 \<in> running m (u ''a'')))"
proof -
  have waits: "2 \<in> with_future Waiting sample_queue (u ''a'')" by (simp add: sample_queue_sets del: u_Cons)
  have "ahead 2 sample_queue = 0" by (simp add: ahead_def ahead_in_def sample_queue_def)
  then have "Cancel 2 \<notin> set [Leave 1 (u ''a'')]" "\<forall>m. Abort 2 m \<notin> set [Leave (1 :: nat) (u ''a'')]"
    "ahead 2 sample_queue < length (filter (is_leave (u ''a'')) [Leave 1 (u ''a'')])" by simp_all
  moreover obtain q' where "queue_run [Leave 1 (u ''a'')] sample_queue = Some q'"
    by (simp add: sample_queue_def)
  moreover have "\<nexists>x q'. queue_do (Resume x 1) sample_queue = Some q' \<and> x \<in> running q' (u ''a'')"
    by (auto simp: sample_queue_def has_future_def running_def put_def split: option.splits place.splits if_split_asm)
  ultimately show ?thesis
    using waiting_task_enters [OF sample_queue_reached zero_less_one waits] by blast
qed

end
