(* ===== verification/Db_Models.thy ===== *)
theory Db_Models
  imports Kenjutsu_Prelude Py_Float
begin

text \<open>
  The database rows (\<^verbatim>\<open>kenjutsu/db/models.py\<close>): one record per table, one field per column.  A
  UUID is its canonical string; a time stamp is seconds since the epoch; a decimal is the
  rational it stands for; a JSONB value is a \<open>json\<close>.
\<close>

datatype json =
  J_Null | J_Bool bool | J_Int int | J_Float pyfloat | J_Str pystr
  | J_List "json list" | J_Dict "(pystr \<times> json) list"

type_synonym uuid = pystr

datatype db_review_status = queued | processing | complete | failed | superseded | aborted

record installation_row =
  in_id :: uuid
  in_github_installation_id :: int
  in_account_login :: pystr
  in_account_type :: pystr
  in_suspended :: bool
  in_created_at :: rat
  in_updated_at :: rat

record repo_row =
  rp_id :: uuid
  rp_installation_id :: uuid
  rp_github_id :: int
  rp_full_name :: pystr
  rp_default_branch :: pystr
  rp_config_json :: json
  rp_mirror_path :: "pystr option"
  rp_active_index_version :: "pystr option"
  rp_indexed_at :: "rat option"

record review_row =
  rw_id :: uuid
  rw_repo_id :: uuid
  rw_pr_number :: int
  rw_head_sha :: pystr
  rw_base_sha :: pystr
  rw_index_version_id :: "pystr option"
  rw_context_source :: "pystr option"
  rw_trigger :: pystr
  rw_status :: db_review_status
  rw_model_used :: "pystr option"
  rw_tokens_in :: "int option"
  rw_tokens_out :: "int option"
  rw_cost_usd :: "rat option"
  rw_latency_ms_json :: "json option"
  rw_findings_raw_count :: "int option"
  rw_findings_published_count :: "int option"
  rw_created_at :: rat
  rw_github_review_id :: "int option"
  rw_github_comment_ids :: "(pystr \<rightharpoonup> int) option"

record finding_row =
  fr_id :: uuid
  fr_review_id :: uuid
  fr_fingerprint :: pystr
  fr_file_path :: pystr
  fr_line_start :: int
  fr_line_end :: int
  fr_origin :: pystr
  fr_confidence :: pystr
  fr_severity :: pystr
  fr_category :: pystr
  fr_publishability :: pystr
  fr_description :: pystr
  fr_suggestion :: "pystr option"
  fr_evidence_sources_json :: "pystr list"
  fr_published :: bool
  fr_github_comment_id :: "int option"

record suppression_row =
  su_id :: uuid
  su_repo_id :: uuid
  su_fingerprint :: pystr
  su_suppressed_by :: pystr
  su_reason :: "pystr option"
  su_created_at :: rat

record webhook_event_row =
  we_id :: uuid
  we_delivery_id :: pystr
  we_installation_id :: uuid
  we_event_type :: pystr
  we_payload_json :: json
  we_processed :: bool
  we_created_at :: rat

record audit_log_row =
  al_id :: uuid
  al_installation_id :: uuid
  al_repo_id :: "uuid option"
  al_action :: pystr
  al_detail_json :: json
  al_created_at :: rat

text \<open>The rows of a session: primary keys select reviews and repositories.\<close>

record database =
  db_repos :: "uuid \<rightharpoonup> repo_row"
  db_reviews :: "uuid \<rightharpoonup> review_row"
  db_findings :: "finding_row list"

definition update_review :: "uuid \<Rightarrow> (review_row \<Rightarrow> review_row) \<Rightarrow> database \<Rightarrow> database" where
  "update_review i f db = db\<lparr>db_reviews := (db_reviews db)(i := map_option f (db_reviews db i))\<rparr>"

definition update_finding :: "uuid \<Rightarrow> (finding_row \<Rightarrow> finding_row) \<Rightarrow> database \<Rightarrow> database" where
  "update_finding i f db =
     db\<lparr>db_findings := map (\<lambda>row. if fr_id row = i then f row else row) (db_findings db)\<rparr>"

lemma update_frames [simp]:
  "db_repos (update_review i f db) = db_repos db"
  "db_findings (update_review i f db) = db_findings db"
  "db_repos (update_finding i g db) = db_repos db"
  "db_reviews (update_finding i g db) = db_reviews db"
  "db_reviews (update_review i f db) j = (if i = j then map_option f (db_reviews db i) else db_reviews db j)"
  by (auto simp: update_review_def update_finding_def)

end
