(* ===== verification/Review_Publisher.thy ===== *)
theory Review_Publisher
  imports Db_Models Findings Py_Effects
begin

text \<open>
  The idempotent GitHub review publisher (\<^verbatim>\<open>kenjutsu/pipeline/publisher.py\<close>).

  GitHub and the database's \<open>flush\<close> are operations on an arbitrary world, which may fail in any
  way.  The state also keeps what \<open>flush\<close> has written so far and a trace: every request, its
  answer, and the flushed rows at that moment, which is what a crash at that point leaves to a
  retry when the caller commits.  \<open>str.upper\<close> is a parameter.
\<close>

section \<open>Requests\<close>

datatype api_request =
    Get_Pr pystr pystr int
  | Post_Review pystr pystr int pystr
  | Put_Review pystr pystr int int
  | Post_Comment pystr pystr int pystr pystr pystr int
  | Patch_Comment pystr pystr int pystr

text \<open>
  The parts of an answer the code reads: the status, \<open>resp.json()["id"]\<close> and
  \<open>resp.json()["head"]["sha"]\<close>, which may raise.
\<close>

record api_response =
  ar_status :: nat
  ar_id :: "int result"
  ar_head_sha :: "pystr result"

record 'w services =
  sv_send :: "api_request \<Rightarrow> ('w, api_response) proc"
  sv_flush :: "database \<Rightarrow> ('w, unit) proc"

text \<open>Every request is sent by the same client with the headers of the token.\<close>

definition auth_headers :: "pystr \<Rightarrow> (pystr \<times> pystr) list" where
  "auth_headers token =
     [(u ''Authorization'', u ''Bearer '' @ token), (u ''Accept'', u ''application/vnd.github+json''),
      (u ''X-GitHub-Api-Version'', u ''2022-11-28'')]"

definition github_services ::
  "((pystr \<times> pystr) list \<Rightarrow> api_request \<Rightarrow> ('w, api_response) proc) \<Rightarrow> pystr \<Rightarrow> (database \<Rightarrow> ('w, unit) proc) \<Rightarrow> 'w services" where
  "github_services client token session_flush =
     \<lparr>sv_send = client (auth_headers token), sv_flush = session_flush\<rparr>"

type_synonym trace_entry = "api_request \<times> api_response result \<times> database"

record 'w publisher =
  pb_db :: database
  pb_flushed :: database
  pb_trace :: "trace_entry list"
  pb_world :: 'w

definition send :: "'w services \<Rightarrow> api_request \<Rightarrow> ('w publisher, api_response) proc" where
  "send sv req = (\<lambda>s. case sv_send sv req (pb_world s) of (r, w) \<Rightarrow>
     (r, s\<lparr>pb_world := w, pb_trace := pb_trace s @ [(req, r, pb_flushed s)]\<rparr>))"

definition flush :: "'w services \<Rightarrow> ('w publisher, unit) proc" where
  "flush sv = (\<lambda>s. case sv_flush sv (pb_db s) (pb_world s) of
       (Inr _, w) \<Rightarrow> (Inr (), s\<lparr>pb_world := w, pb_flushed := pb_db s\<rparr>)
     | (Inl e, w) \<Rightarrow> (Inl e, s\<lparr>pb_world := w\<rparr>))"

definition modify_db :: "(database \<Rightarrow> database) \<Rightarrow> ('w publisher, unit) proc" where
  "modify_db f = (\<lambda>s. (Inr (), s\<lparr>pb_db := f (pb_db s)\<rparr>))"

definition get_db :: "('w publisher, database) proc" where
  "get_db = (\<lambda>s. (Inr (pb_db s), s))"

definition raise_for_status :: "api_response \<Rightarrow> ('s, unit) proc" where
  "raise_for_status resp =
     (if 200 \<le> ar_status resp \<and> ar_status resp \<le> 299 then return ()
      else raise (HTTPStatusError (ar_status resp)))"

section \<open>Comment bodies\<close>

definition publishable :: "finding_row \<Rightarrow> bool" where
  "publishable f \<longleftrightarrow> fr_publishability f \<in> {publishability_value PUBLISH, publishability_value REDACT_AND_PUBLISH}"

definition is_redacted :: "finding_row \<Rightarrow> bool" where
  "is_redacted f \<longleftrightarrow> fr_publishability f = publishability_value REDACT_AND_PUBLISH"

definition severity_icon :: "pystr \<Rightarrow> pystr" where
  "severity_icon severity =
     (if severity = u ''critical'' then [0x1F534]
      else if severity = u ''warning'' then [0x1F7E1]
      else if severity = u ''suggestion'' then [0x1F535]
      else [0x26AA])"

definition finding_comment_body :: "(pystr \<Rightarrow> pystr) \<Rightarrow> finding_row \<Rightarrow> pystr" where
  "finding_comment_body upper f =
     (let description = (if is_redacted f then u ''[REDACTED]'' else fr_description f);
          fingerprint = (if is_redacted f then u ''[REDACTED]'' else u ''`'' @ fr_fingerprint f @ u ''`'')
      in join (u ''\<newline>'')
        ([severity_icon (fr_severity f) @ u '' **'' @ upper (fr_severity f) @ u ''** ['' @ fr_category f
            @ u ''] '' @ [0x2014] @ u '' '' @ description]
         @ (case fr_suggestion f of
              Some (c # cs) \<Rightarrow> if is_redacted f then [] else [[], u ''**Suggestion:** '' @ c # cs]
            | _ \<Rightarrow> [])
         @ [[]]
         @ [u ''*origin: '' @ fr_origin f @ u '' '' @ [0xB7] @ u '' confidence: '' @ fr_confidence f
            @ u '' '' @ [0xB7] @ u '' fingerprint: '' @ fingerprint @ u ''*'']))"

section \<open>The calls\<close>

record 'w pub_context =
  pc_services :: "'w services"
  pc_upper :: "pystr \<Rightarrow> pystr"
  pc_owner :: pystr
  pc_repo :: pystr
  pc_pr_number :: int
  pc_head_sha :: pystr
  pc_review_id :: uuid

definition create_review :: "'w pub_context \<Rightarrow> ('w publisher, int) proc" where
  "create_review pc =
     seq (send (pc_services pc) (Post_Review (pc_owner pc) (pc_repo pc) (pc_pr_number pc) (pc_head_sha pc))) (\<lambda>resp.
     seq (raise_for_status resp) (\<lambda>_. from_result (ar_id resp)))"

definition update_gh_review :: "'w pub_context \<Rightarrow> int \<Rightarrow> ('w publisher, bool) proc" where
  "update_gh_review pc review_id =
     seq (send (pc_services pc) (Put_Review (pc_owner pc) (pc_repo pc) (pc_pr_number pc) review_id)) (\<lambda>resp.
       if ar_status resp = 404 then return False
       else seq (raise_for_status resp) (\<lambda>_. return True))"

definition create_comment :: "'w pub_context \<Rightarrow> finding_row \<Rightarrow> ('w publisher, int) proc" where
  "create_comment pc f =
     seq (send (pc_services pc) (Post_Comment (pc_owner pc) (pc_repo pc) (pc_pr_number pc) (pc_head_sha pc)
            (finding_comment_body (pc_upper pc) f) (fr_file_path f) (fr_line_end f))) (\<lambda>resp.
     seq (raise_for_status resp) (\<lambda>_. from_result (ar_id resp)))"

definition update_comment :: "'w pub_context \<Rightarrow> int \<Rightarrow> finding_row \<Rightarrow> ('w publisher, bool) proc" where
  "update_comment pc comment_id f =
     seq (send (pc_services pc) (Patch_Comment (pc_owner pc) (pc_repo pc) comment_id
            (finding_comment_body (pc_upper pc) f))) (\<lambda>resp.
       if ar_status resp = 404 then return False
       else seq (raise_for_status resp) (\<lambda>_. return True))"

section \<open>Publishing\<close>

text \<open>\<open>comment_id_map.get(finding_key) or finding.github_comment_id\<close>: a zero id counts as absent.\<close>

definition existing_comment_id :: "(pystr \<rightharpoonup> int) \<Rightarrow> finding_row \<Rightarrow> int option" where
  "existing_comment_id comment_id_map f =
     (case comment_id_map (fr_id f) of
        Some i \<Rightarrow> if i \<noteq> 0 then Some i else fr_github_comment_id f
      | None \<Rightarrow> fr_github_comment_id f)"

definition set_review_id :: "'w pub_context \<Rightarrow> int \<Rightarrow> ('w publisher, unit) proc" where
  "set_review_id pc i = modify_db (update_review (pc_review_id pc) (\<lambda>r. r\<lparr>rw_github_review_id := Some i\<rparr>))"

definition set_comment_ids :: "'w pub_context \<Rightarrow> (pystr \<rightharpoonup> int) \<Rightarrow> ('w publisher, unit) proc" where
  "set_comment_ids pc m = modify_db (update_review (pc_review_id pc) (\<lambda>r. r\<lparr>rw_github_comment_ids := Some m\<rparr>))"

definition set_comment_id :: "finding_row \<Rightarrow> int \<Rightarrow> ('w publisher, unit) proc" where
  "set_comment_id f i = modify_db (update_finding (fr_id f) (\<lambda>r. r\<lparr>fr_github_comment_id := Some i\<rparr>))"

definition set_published :: "finding_row \<Rightarrow> ('w publisher, unit) proc" where
  "set_published f = modify_db (update_finding (fr_id f) (\<lambda>r. r\<lparr>fr_published := True\<rparr>))"

text \<open>Step 3; the result is the map of comment ids the loop starts from.\<close>

definition ensure_review :: "'w pub_context \<Rightarrow> int option \<Rightarrow> (pystr \<rightharpoonup> int) \<Rightarrow> ('w publisher, pystr \<rightharpoonup> int) proc" where
  "ensure_review pc github_review_id comment_id_map =
     (case github_review_id of
        None \<Rightarrow>
          seq (create_review pc) (\<lambda>new_id.
          seq (set_review_id pc new_id) (\<lambda>_.
          seq (flush (pc_services pc)) (\<lambda>_. return comment_id_map)))
      | Some old_id \<Rightarrow>
          seq (update_gh_review pc old_id) (\<lambda>updated.
            if \<not> updated then
              seq (create_review pc) (\<lambda>new_id.
              seq (set_review_id pc new_id) (\<lambda>_.
              seq (flush (pc_services pc)) (\<lambda>_. return Map.empty)))
            else return comment_id_map))"

text \<open>One turn of step 4.\<close>

definition publish_finding ::
  "'w pub_context \<Rightarrow> finding_row \<Rightarrow> (pystr \<rightharpoonup> int) \<Rightarrow> ('w publisher, pystr \<rightharpoonup> int) proc" where
  "publish_finding pc f comment_id_map =
     (case existing_comment_id comment_id_map f of
        None \<Rightarrow>
          seq (create_comment pc f) (\<lambda>new_id.
          seq (set_comment_id f new_id) (\<lambda>_.
          seq (set_published f) (\<lambda>_.
          let m = comment_id_map(fr_id f \<mapsto> new_id) in
          seq (set_comment_ids pc m) (\<lambda>_.
          seq (flush (pc_services pc)) (\<lambda>_. return m)))))
      | Some existing_id \<Rightarrow>
          seq (update_comment pc existing_id f) (\<lambda>updated.
          seq (if \<not> updated then
                 seq (create_comment pc f) (\<lambda>new_id.
                 seq (set_comment_id f new_id) (\<lambda>_.
                 let m = comment_id_map(fr_id f \<mapsto> new_id) in
                 seq (set_comment_ids pc m) (\<lambda>_.
                 seq (flush (pc_services pc)) (\<lambda>_. return m))))
               else return comment_id_map) (\<lambda>m.
          seq (set_published f) (\<lambda>_. return m))))"

fun publish_findings ::
  "'w pub_context \<Rightarrow> finding_row list \<Rightarrow> (pystr \<rightharpoonup> int) \<Rightarrow> ('w publisher, pystr \<rightharpoonup> int) proc" where
  "publish_findings pc [] m = return m"
| "publish_findings pc (f # fs) m = seq (publish_finding pc f m) (publish_findings pc fs)"

text \<open>\<open>owner, repo_name = full_name.split("/", 1)\<close>: without a slash the unpacking raises.\<close>

definition split_full_name :: "pystr \<Rightarrow> (pystr \<times> pystr) result" where
  "split_full_name s =
     (let owner = takeWhile (\<lambda>c. c \<noteq> of_char CHR ''/'') s; rest = dropWhile (\<lambda>c. c \<noteq> of_char CHR ''/'') s
      in if rest = [] then Inl ValueError else Inr (owner, tl rest))"

text \<open>The two selections of step 1, scoped by the installation.\<close>

definition select_review :: "database \<Rightarrow> uuid \<Rightarrow> uuid \<Rightarrow> (review_row \<times> repo_row) option" where
  "select_review db review_id installation_id =
     (case db_reviews db review_id of
        None \<Rightarrow> None
      | Some review \<Rightarrow>
          (case db_repos db (rw_repo_id review) of
             None \<Rightarrow> None
           | Some repo \<Rightarrow> if rp_installation_id repo = installation_id then Some (review, repo) else None))"

definition sha_guard_step :: "'w pub_context \<Rightarrow> ('w publisher, unit) proc" where
  "sha_guard_step pc =
     seq (send (pc_services pc) (Get_Pr (pc_owner pc) (pc_repo pc) (pc_pr_number pc))) (\<lambda>resp.
     seq (raise_for_status resp) (\<lambda>_.
     seq (from_result (ar_head_sha resp)) (\<lambda>current_sha.
       if current_sha \<noteq> pc_head_sha pc then raise ValueError else return ())))"

definition publish_review ::
  "'w services \<Rightarrow> (pystr \<Rightarrow> pystr) \<Rightarrow> uuid \<Rightarrow> uuid \<Rightarrow> ('w publisher, unit) proc" where
  "publish_review sv upper review_id installation_id =
     seq get_db (\<lambda>db.
       case select_review db review_id installation_id of
         None \<Rightarrow> raise ValueError
       | Some (review, repo) \<Rightarrow>
           seq (from_result (split_full_name (rp_full_name repo))) (\<lambda>(owner, repo_name).
             let pc = \<lparr>pc_services = sv, pc_upper = upper, pc_owner = owner, pc_repo = repo_name,
                   pc_pr_number = rw_pr_number review, pc_head_sha = rw_head_sha review,
                   pc_review_id = review_id\<rparr>;
                 findings = filter publishable (filter (\<lambda>f. fr_review_id f = review_id) (db_findings db));
                 stored = (case rw_github_comment_ids review of Some m \<Rightarrow> m | None \<Rightarrow> Map.empty)
             in seq (sha_guard_step pc) (\<lambda>_.
                seq (ensure_review pc (rw_github_review_id review) stored) (\<lambda>m.
                seq (publish_findings pc findings m) (\<lambda>m'. set_comment_ids pc m')))))"

section \<open>The contract of a run\<close>

definition created :: "api_response result \<Rightarrow> int option" where
  "created r = (case r of
       Inr resp \<Rightarrow> if 200 \<le> ar_status resp \<and> ar_status resp \<le> 299
                  then (case ar_id resp of Inr i \<Rightarrow> Some i | Inl _ \<Rightarrow> None) else None
     | Inl _ \<Rightarrow> None)"

fun is_write :: "api_request \<Rightarrow> bool" where
  "is_write (Get_Pr _ _ _) = False"
| "is_write _ = True"

fun is_post_review :: "api_request \<Rightarrow> bool" where
  "is_post_review (Post_Review _ _ _ _) = True"
| "is_post_review _ = False"

text \<open>The request a finding's comment is created with.\<close>

definition comment_request :: "'w pub_context \<Rightarrow> finding_row \<Rightarrow> api_request" where
  "comment_request pc f = Post_Comment (pc_owner pc) (pc_repo pc) (pc_pr_number pc) (pc_head_sha pc)
     (finding_comment_body (pc_upper pc) f) (fr_file_path f) (fr_line_end f)"

text \<open>Requests go to the repository and the pull request of the review, at the reviewed commit.\<close>

fun on_target :: "'w pub_context \<Rightarrow> api_request \<Rightarrow> bool" where
  "on_target pc (Get_Pr owner repo n) \<longleftrightarrow> (owner, repo, n) = (pc_owner pc, pc_repo pc, pc_pr_number pc)"
| "on_target pc (Post_Review owner repo n sha) \<longleftrightarrow>
     (owner, repo, n, sha) = (pc_owner pc, pc_repo pc, pc_pr_number pc, pc_head_sha pc)"
| "on_target pc (Put_Review owner repo n i) \<longleftrightarrow> (owner, repo, n) = (pc_owner pc, pc_repo pc, pc_pr_number pc)"
| "on_target pc (Post_Comment owner repo n sha b p l) \<longleftrightarrow>
     (owner, repo, n, sha) = (pc_owner pc, pc_repo pc, pc_pr_number pc, pc_head_sha pc)"
| "on_target pc (Patch_Comment owner repo i b) \<longleftrightarrow> (owner, repo) = (pc_owner pc, pc_repo pc)"

text \<open>A run of \<open>publish_review\<close> is for a review row, the ids stored for it, and its findings.\<close>

record 'w pub_run =
  pr_context :: "'w pub_context"
  pr_stored_review :: "int option"
  pr_stored_ids :: "pystr \<rightharpoonup> int"
  pr_findings :: "finding_row list"

definition guard_passed :: "'w pub_context \<Rightarrow> trace_entry list \<Rightarrow> bool" where
  "guard_passed pc tr \<longleftrightarrow> (\<exists>resp d. (Get_Pr (pc_owner pc) (pc_repo pc) (pc_pr_number pc), Inr resp, d) \<in> set tr
     \<and> 200 \<le> ar_status resp \<and> ar_status resp \<le> 299 \<and> ar_head_sha resp = Inr (pc_head_sha pc))"

definition gone_review :: "trace_entry \<Rightarrow> bool" where
  "gone_review e \<longleftrightarrow> (\<exists>a b c i resp d. e = (Put_Review a b c i, Inr resp, d) \<and> ar_status resp = 404)"

definition gone_comment :: "'w pub_context \<Rightarrow> finding_row \<Rightarrow> trace_entry \<Rightarrow> bool" where
  "gone_comment pc f e \<longleftrightarrow> (\<exists>i resp d. e = (Patch_Comment (pc_owner pc) (pc_repo pc) i
     (finding_comment_body (pc_upper pc) f), Inr resp, d) \<and> ar_status resp = 404)"

text \<open>Ids created on GitHub are in the rows: a retry that reads these rows updates, not posts.\<close>

definition knows_review :: "'w pub_run \<Rightarrow> database \<Rightarrow> int \<Rightarrow> bool" where
  "knows_review run db i \<longleftrightarrow>
     (\<exists>row. db_reviews db (pc_review_id (pr_context run)) = Some row \<and> rw_github_review_id row = Some i)"

definition knows_comment :: "'w pub_run \<Rightarrow> database \<Rightarrow> uuid \<Rightarrow> int \<Rightarrow> bool" where
  "knows_comment run db fid i \<longleftrightarrow>
     (\<exists>row m. db_reviews db (pc_review_id (pr_context run)) = Some row
        \<and> rw_github_comment_ids row = Some m \<and> m fid = Some i)
     \<and> (\<exists>row \<in> set (db_findings db). fr_id row = fid \<and> fr_github_comment_id row = Some i)"

definition reviews_known :: "'w pub_run \<Rightarrow> trace_entry list \<Rightarrow> database \<Rightarrow> bool" where
  "reviews_known run tr db \<longleftrightarrow> (\<forall>req r d i. (req, r, d) \<in> set tr \<longrightarrow> is_post_review req \<longrightarrow>
     created r = Some i \<longrightarrow> knows_review run db i)"

definition comments_known :: "'w pub_run \<Rightarrow> finding_row list \<Rightarrow> trace_entry list \<Rightarrow> database \<Rightarrow> bool" where
  "comments_known run fs tr db \<longleftrightarrow> (\<forall>a b c sha body p l r d i.
     (Post_Comment a b c sha body p l, r, d) \<in> set tr \<longrightarrow> created r = Some i \<longrightarrow>
     (\<exists>f \<in> set fs. comment_request (pr_context run) f = Post_Comment a b c sha body p l
        \<and> knows_comment run db (fr_id f) i))"

text \<open>No comment is on record for a finding: neither in the stored map nor in its own row (0 is no id).\<close>

definition no_comment_on_record :: "(pystr \<rightharpoonup> int) \<Rightarrow> finding_row \<Rightarrow> bool" where
  "no_comment_on_record ids f \<longleftrightarrow> ids (fr_id f) \<in> {None, Some 0} \<and> fr_github_comment_id f = None"

definition post_allowed :: "'w pub_run \<Rightarrow> trace_entry list \<Rightarrow> api_request \<Rightarrow> bool" where
  "post_allowed run tr req \<longleftrightarrow>
     (is_post_review req \<longrightarrow> pr_stored_review run = None \<or> (tr \<noteq> [] \<and> gone_review (last tr)))
     \<and> (\<forall>a b c sha body p l. req = Post_Comment a b c sha body p l \<longrightarrow>
         (\<exists>f \<in> set (pr_findings run). req = comment_request (pr_context run) f
           \<and> ((tr \<noteq> [] \<and> gone_comment (pr_context run) f (last tr))
             \<or> no_comment_on_record (pr_stored_ids run) f
             \<or> (fr_github_comment_id f = None \<and> (\<exists>e \<in> set tr. gone_review e)))))"

definition step_allowed :: "'w pub_run \<Rightarrow> trace_entry list \<Rightarrow> trace_entry \<Rightarrow> bool" where
  "step_allowed run tr e \<longleftrightarrow> (case e of (req, r, flushed) \<Rightarrow>
     on_target (pr_context run) req
     \<and> (is_write req \<longrightarrow> guard_passed (pr_context run) tr)
     \<and> post_allowed run tr req
     \<and> reviews_known run tr flushed \<and> comments_known run (pr_findings run) tr flushed)"

section \<open>Rules for the operations\<close>

definition rows_at :: "database \<Rightarrow> database \<Rightarrow> trace_entry list \<Rightarrow> 'w publisher \<Rightarrow> bool" where
  "rows_at d f tr s \<longleftrightarrow> pb_db s = d \<and> pb_flushed s = f \<and> pb_trace s = tr"

definition is_2xx :: "api_response \<Rightarrow> bool" where
  "is_2xx resp \<longleftrightarrow> 200 \<le> ar_status resp \<and> ar_status resp \<le> 299"

lemma send_rule:
  "triple (rows_at d f tr) (send sv req)
     (\<lambda>resp. rows_at d f (tr @ [(req, Inr resp, f)])) (\<lambda>e. rows_at d f (tr @ [(req, Inl e, f)]))"
  by (rule tripleI) (auto simp: send_def rows_at_def split: prod.split_asm)

lemma flush_rule: "triple (rows_at d f tr) (flush sv) (\<lambda>_. rows_at d d tr) (\<lambda>_. rows_at d f tr)"
  by (rule tripleI) (auto simp: flush_def rows_at_def split: prod.split_asm sum.split_asm)

lemma modify_rule: "triple (rows_at d f tr) (modify_db g) (\<lambda>_. rows_at (g d) f tr) (\<lambda>_ _. False)"
  by (rule tripleI) (auto simp: modify_db_def rows_at_def)

lemma status_rule:
  "triple P (raise_for_status resp) (\<lambda>_ s. is_2xx resp \<and> P s) (\<lambda>_ s. \<not> is_2xx resp \<and> P s)"
  by (rule tripleI) (auto simp: raise_for_status_def is_2xx_def return_def raise_def split: if_split_asm)

lemma result_rule: "triple P (from_result r) (\<lambda>x s. r = Inr x \<and> P s) (\<lambda>e s. r = Inl e \<and> P s)"
  by (rule tripleI) (auto simp: from_result_def)

text \<open>A request that creates something: its id, or an exception after which none is known.\<close>

lemma create_rule:
  "triple (rows_at d f tr) (seq (send sv req) (\<lambda>resp. seq (raise_for_status resp) (\<lambda>_. from_result (ar_id resp))))
     (\<lambda>i s. \<exists>r. created r = Some i \<and> rows_at d f (tr @ [(req, r, f)]) s)
     (\<lambda>e s. \<exists>r. rows_at d f (tr @ [(req, r, f)]) s)"
proof (rule triple_step [OF send_rule])
  fix resp
  show "triple (rows_at d f (tr @ [(req, Inr resp, f)]))
     (seq (raise_for_status resp) (\<lambda>_. from_result (ar_id resp)))
     (\<lambda>i s. \<exists>r. created r = Some i \<and> rows_at d f (tr @ [(req, r, f)]) s)
     (\<lambda>e s. \<exists>r. rows_at d f (tr @ [(req, r, f)]) s)"
  proof (rule triple_step [OF status_rule])
    show "triple (\<lambda>s. is_2xx resp \<and> rows_at d f (tr @ [(req, Inr resp, f)]) s) (from_result (ar_id resp))
     (\<lambda>i s. \<exists>r. created r = Some i \<and> rows_at d f (tr @ [(req, r, f)]) s)
     (\<lambda>e s. \<exists>r. rows_at d f (tr @ [(req, r, f)]) s)"
    proof (rule triple_pre, rule triple_cons [OF result_rule [of "rows_at d f (tr @ [(req, Inr resp, f)])"]])
      fix i s assume "is_2xx resp" "ar_id resp = Inr i \<and> rows_at d f (tr @ [(req, Inr resp, f)]) s"
      then show "\<exists>r. created r = Some i \<and> rows_at d f (tr @ [(req, r, f)]) s"
        by (intro exI [of _ "Inr resp"]) (simp add: created_def is_2xx_def)
    qed auto
  qed blast
qed blast

text \<open>A request that updates something: False only after a 404.\<close>

lemma update_rule:
  "triple (rows_at d f tr) (seq (send sv req) (\<lambda>resp. if ar_status resp = 404 then return False
       else seq (raise_for_status resp) (\<lambda>_. return True)))
     (\<lambda>ok s. \<exists>resp. (\<not> ok \<longrightarrow> ar_status resp = 404) \<and> rows_at d f (tr @ [(req, Inr resp, f)]) s)
     (\<lambda>e s. \<exists>r. rows_at d f (tr @ [(req, r, f)]) s)"
proof (rule triple_step [OF send_rule])
  fix resp
  have "triple (rows_at d f (tr @ [(req, Inr resp, f)])) (seq (raise_for_status resp) (\<lambda>_. return True))
     (\<lambda>ok s. \<exists>resp. (\<not> ok \<longrightarrow> ar_status resp = 404) \<and> rows_at d f (tr @ [(req, Inr resp, f)]) s)
     (\<lambda>e s. \<exists>r. rows_at d f (tr @ [(req, r, f)]) s)"
    by (rule triple_step [OF status_rule]) (auto intro!: triple_return)
  then show "triple (rows_at d f (tr @ [(req, Inr resp, f)]))
     (if ar_status resp = 404 then return False else seq (raise_for_status resp) (\<lambda>_. return True))
     (\<lambda>ok s. \<exists>resp. (\<not> ok \<longrightarrow> ar_status resp = 404) \<and> rows_at d f (tr @ [(req, Inr resp, f)]) s)
     (\<lambda>e s. \<exists>r. rows_at d f (tr @ [(req, r, f)]) s)"
    by (intro triple_if triple_return) auto
qed blast

section \<open>The invariant of a run\<close>

text \<open>
  Between two requests, with the findings \<open>seen\<close> already treated: what the trace has created is
  known to the rows, flushed or not, and to the map of comment ids; for the other findings the
  map holds what was stored, or nothing once the review was recreated.
\<close>

definition map_knows :: "'w pub_run \<Rightarrow> finding_row list \<Rightarrow> trace_entry list \<Rightarrow> (pystr \<rightharpoonup> int) \<Rightarrow> database \<Rightarrow> bool" where
  "map_knows run fs tr m db \<longleftrightarrow> (\<forall>a b c sha body p l r d i.
     (Post_Comment a b c sha body p l, r, d) \<in> set tr \<longrightarrow> created r = Some i \<longrightarrow>
     (\<exists>f \<in> set fs. comment_request (pr_context run) f = Post_Comment a b c sha body p l \<and> m (fr_id f) = Some i
        \<and> (\<exists>row \<in> set (db_findings db). fr_id row = fr_id f \<and> fr_github_comment_id row = Some i)))"

definition map_fresh :: "'w pub_run \<Rightarrow> finding_row list \<Rightarrow> trace_entry list \<Rightarrow> (pystr \<rightharpoonup> int) \<Rightarrow> bool" where
  "map_fresh run fs tr m \<longleftrightarrow> (\<forall>f \<in> set (pr_findings run). fr_id f \<notin> fr_id ` set fs \<longrightarrow>
     m (fr_id f) = pr_stored_ids run (fr_id f) \<or> (m (fr_id f) = None \<and> (\<exists>e \<in> set tr. gone_review e)))"

definition rows_present :: "'w pub_run \<Rightarrow> database \<Rightarrow> bool" where
  "rows_present run db \<longleftrightarrow> db_reviews db (pc_review_id (pr_context run)) \<noteq> None
     \<and> (\<forall>f \<in> set (pr_findings run). \<exists>row \<in> set (db_findings db). fr_id row = fr_id f)"

definition good ::
  "'w pub_run \<Rightarrow> finding_row list \<Rightarrow> (pystr \<rightharpoonup> int) \<Rightarrow> database \<Rightarrow> database \<Rightarrow> trace_entry list \<Rightarrow> bool" where
  "good run seen m d f tr \<longleftrightarrow>
     all_steps (step_allowed run) tr \<and> guard_passed (pr_context run) tr
     \<and> set seen \<subseteq> set (pr_findings run)
     \<and> reviews_known run tr d \<and> reviews_known run tr f
     \<and> comments_known run seen tr d \<and> comments_known run seen tr f
     \<and> map_knows run seen tr m d \<and> map_fresh run seen tr m \<and> rows_present run d"

lemma guard_passed_snoc: "guard_passed pc tr \<Longrightarrow> guard_passed pc (tr @ [e])"
  unfolding guard_passed_def by fastforce

lemma comments_known_mono: "comments_known run fs tr d \<Longrightarrow> set fs \<subseteq> set gs \<Longrightarrow> comments_known run gs tr d"
  unfolding comments_known_def by blast

lemma map_knows_mono: "map_knows run fs tr m d \<Longrightarrow> set fs \<subseteq> set gs \<Longrightarrow> map_knows run gs tr m d"
  unfolding map_knows_def by blast

lemma map_fresh_snoc: "map_fresh run fs tr m \<Longrightarrow> map_fresh run fs (tr @ [e]) m"
  unfolding map_fresh_def by auto

lemma good_all_steps: "good run seen m d f tr \<Longrightarrow> all_steps (step_allowed run) tr"
  by (simp add: good_def)

text \<open>Any write that is on target and allowed extends the trace.\<close>

lemma good_step:
  assumes "good run seen m d f tr" "on_target (pr_context run) req" "post_allowed run tr req"
  shows "all_steps (step_allowed run) (tr @ [(req, r, f)])"
proof -
  have "comments_known run (pr_findings run) tr f"
    using assms(1) comments_known_mono unfolding good_def by blast
  then show ?thesis using assms by (simp add: good_def step_allowed_def)
qed

text \<open>A request that creates nothing keeps the invariant.\<close>

definition not_post :: "api_request \<Rightarrow> bool" where
  "not_post req \<longleftrightarrow> (\<forall>a b c d. req \<noteq> Post_Review a b c d) \<and> (\<forall>a b c sha body p l. req \<noteq> Post_Comment a b c sha body p l)"

lemma not_post_allowed: "not_post req \<Longrightarrow> post_allowed run tr req"
  by (cases req) (auto simp: not_post_def post_allowed_def)

lemma known_snoc:
  "not_post req \<Longrightarrow> reviews_known run (tr @ [(req, r, x)]) d \<longleftrightarrow> reviews_known run tr d"
  "not_post req \<Longrightarrow> comments_known run fs (tr @ [(req, r, x)]) d \<longleftrightarrow> comments_known run fs tr d"
  "not_post req \<Longrightarrow> map_knows run fs (tr @ [(req, r, x)]) m d \<longleftrightarrow> map_knows run fs tr m d"
  by (cases req; auto simp: not_post_def reviews_known_def comments_known_def map_knows_def)+

lemma good_update:
  assumes "good run seen m d f tr" "on_target (pr_context run) req" "not_post req"
  shows "good run seen m d f (tr @ [(req, r, f)])"
proof -
  have "all_steps (step_allowed run) (tr @ [(req, r, f)])"
    using assms by (intro good_step not_post_allowed)
  with assms show ?thesis
    unfolding good_def by (simp add: guard_passed_snoc known_snoc map_fresh_snoc del: all_steps_snoc)
qed

section \<open>What the changes of the rows keep\<close>

lemma update_finding_row:
  "(\<exists>row \<in> set (db_findings (update_finding i g d)). Q row) \<longleftrightarrow>
     (\<exists>row \<in> set (db_findings d). Q (if fr_id row = i then g row else row))"
proof -
  have "db_findings (update_finding i g d) = map (\<lambda>row. if fr_id row = i then g row else row) (db_findings d)"
    by (simp add: update_finding_def)
  then show ?thesis by (simp only: set_map bex_simps)
qed

lemma published_keeps:
  "reviews_known run tr (update_finding i (\<lambda>r. r\<lparr>fr_published := True\<rparr>) d) = reviews_known run tr d"
  "comments_known run fs tr (update_finding i (\<lambda>r. r\<lparr>fr_published := True\<rparr>) d) = comments_known run fs tr d"
  "map_knows run fs tr m (update_finding i (\<lambda>r. r\<lparr>fr_published := True\<rparr>) d) = map_knows run fs tr m d"
  "rows_present run (update_finding i (\<lambda>r. r\<lparr>fr_published := True\<rparr>) d) = rows_present run d"
  by (simp_all add: reviews_known_def knows_review_def comments_known_def knows_comment_def
      map_knows_def rows_present_def update_finding_row if_distrib [of fr_id]
      if_distrib [of fr_github_comment_id] cong: if_cong)

lemma good_published:
  "good run seen m d f tr \<Longrightarrow> good run seen m (update_finding i (\<lambda>r. r\<lparr>fr_published := True\<rparr>) d) f tr"
  by (simp add: good_def published_keeps)

lemma good_seen:
  assumes "good run seen m d f tr" "g \<in> set (pr_findings run)"
  shows "good run (seen @ [g]) m d f tr"
  using assms comments_known_mono [of run seen tr _ "seen @ [g]"] map_knows_mono [of run seen tr m d "seen @ [g]"]
  by (auto simp: good_def map_fresh_def)

text \<open>
  The rows after a comment was created for \<open>g\<close>: its id is stored in the finding and in the map.
\<close>

definition store_comment :: "'w pub_run \<Rightarrow> finding_row \<Rightarrow> int \<Rightarrow> (pystr \<rightharpoonup> int) \<Rightarrow> database \<Rightarrow> database" where
  "store_comment run g i m d =
     update_review (pc_review_id (pr_context run)) (\<lambda>r. r\<lparr>rw_github_comment_ids := Some m\<rparr>)
       (update_finding (fr_id g) (\<lambda>r. r\<lparr>fr_github_comment_id := Some i\<rparr>) d)"

lemma store_knows_review: "knows_review run (store_comment run g i m d) j = knows_review run d j"
  by (cases "db_reviews d (pc_review_id (pr_context run))") (simp_all add: knows_review_def store_comment_def)

lemma store_keeps:
  "reviews_known run tr (store_comment run g i m d) = reviews_known run tr d"
  "rows_present run (store_comment run g i m d) = rows_present run d"
proof -
  show "reviews_known run tr (store_comment run g i m d) = reviews_known run tr d"
    unfolding reviews_known_def store_knows_review ..
  show "rows_present run (store_comment run g i m d) = rows_present run d"
    by (simp add: rows_present_def store_comment_def update_finding_row if_distrib [of fr_id] cong: if_cong)
qed

lemma store_knows:
  assumes "rows_present run d"
  shows "map_knows run fs tr m (store_comment run g i m d) \<Longrightarrow> comments_known run fs tr (store_comment run g i m d)"
  using assms
  by (fastforce simp: map_knows_def comments_known_def knows_comment_def store_comment_def rows_present_def)

lemma store_map_knows:
  assumes good: "good run seen m d f tr" and g: "g \<in> set (pr_findings run)" "fr_id g \<notin> fr_id ` set seen"
    and i: "created r = Some i"
  shows "map_knows run (seen @ [g]) (tr @ [(comment_request (pr_context run) g, r, f)]) (m(fr_id g \<mapsto> i))
    (store_comment run g i (m(fr_id g \<mapsto> i)) d)"
  unfolding map_knows_def
proof (intro allI impI)
  let ?m = "m(fr_id g \<mapsto> i)"
  let ?d' = "store_comment run g i ?m d"
  fix a b c sha body p l q x j
  assume e: "(Post_Comment a b c sha body p l, q, x) \<in> set (tr @ [(comment_request (pr_context run) g, r, f)])"
    and j: "created q = Some j"
  show "\<exists>h \<in> set (seen @ [g]). comment_request (pr_context run) h = Post_Comment a b c sha body p l
    \<and> ?m (fr_id h) = Some j
    \<and> (\<exists>row \<in> set (db_findings ?d'). fr_id row = fr_id h \<and> fr_github_comment_id row = Some j)"
  proof (cases "(Post_Comment a b c sha body p l, q, x) \<in> set tr")
    case True
    with good j obtain h row where h: "h \<in> set seen"
      "comment_request (pr_context run) h = Post_Comment a b c sha body p l" "m (fr_id h) = Some j"
      "row \<in> set (db_findings d)" "fr_id row = fr_id h" "fr_github_comment_id row = Some j"
      unfolding good_def map_knows_def by blast
    have "fr_id h \<in> fr_id ` set seen" using h(1) by (rule imageI)
    with g(2) have other: "fr_id h \<noteq> fr_id g" by metis
    with h have "\<exists>row \<in> set (db_findings ?d'). fr_id row = fr_id h \<and> fr_github_comment_id row = Some j"
      unfolding store_comment_def update_frames update_finding_row by (intro bexI [of _ row]) simp_all
    with h other show ?thesis by (intro bexI [of _ h]) simp_all
  next
    case False
    with e i j have eq: "comment_request (pr_context run) g = Post_Comment a b c sha body p l" "j = i" by simp_all
    have "\<exists>row \<in> set (db_findings d). fr_id row = fr_id g" using good g(1) by (simp add: good_def rows_present_def)
    then have "\<exists>row \<in> set (db_findings ?d'). fr_id row = fr_id g \<and> fr_github_comment_id row = Some i"
      unfolding store_comment_def update_frames update_finding_row by auto
    with eq show ?thesis by (intro bexI [of _ g]) simp_all
  qed
qed

lemma good_created:
  assumes good: "good run seen m d f tr" and g: "g \<in> set (pr_findings run)" "fr_id g \<notin> fr_id ` set seen"
    and ok: "post_allowed run tr (comment_request (pr_context run) g)" and i: "created r = Some i"
    and d': "d' = store_comment run g i (m(fr_id g \<mapsto> i)) d"
  shows "good run (seen @ [g]) (m(fr_id g \<mapsto> i)) d' d' (tr @ [(comment_request (pr_context run) g, r, f)])"
proof -
  let ?tr = "tr @ [(comment_request (pr_context run) g, r, f)]" and ?m = "m(fr_id g \<mapsto> i)"
  have steps: "all_steps (step_allowed run) ?tr"
    using good ok by (intro good_step) (auto simp: comment_request_def)
  have rows: "rows_present run d" using good by (simp add: good_def)
  have "map_knows run (seen @ [g]) ?tr ?m d'" unfolding d' by (rule store_map_knows [OF good g i])
  moreover from this have "comments_known run (seen @ [g]) ?tr d'"
    using store_knows [OF rows] unfolding d' by blast
  moreover have "reviews_known run ?tr d'"
    using good unfolding d' store_keeps by (auto simp: good_def reviews_known_def comment_request_def)
  moreover have "map_fresh run (seen @ [g]) ?tr ?m"
    using good by (auto simp: good_def map_fresh_def)
  moreover have "rows_present run d'" using rows unfolding d' store_keeps .
  ultimately show ?thesis
    using good steps g(1) unfolding good_def by (simp add: guard_passed_snoc del: all_steps_snoc)
qed

section \<open>The loop\<close>

definition inv :: "'w pub_run \<Rightarrow> finding_row list \<Rightarrow> (pystr \<rightharpoonup> int) \<Rightarrow> 'w publisher \<Rightarrow> bool" where
  "inv run seen m s \<longleftrightarrow> good run seen m (pb_db s) (pb_flushed s) (pb_trace s)"

definition safe :: "'w pub_run \<Rightarrow> 'w publisher \<Rightarrow> bool" where
  "safe run s \<longleftrightarrow> all_steps (step_allowed run) (pb_trace s)"

lemma at_safe: "rows_at d f tr s \<Longrightarrow> all_steps (step_allowed run) tr \<Longrightarrow> safe run s"
  by (simp add: rows_at_def safe_def)

lemma at_inv: "rows_at d f tr s \<Longrightarrow> good run seen m d f tr \<Longrightarrow> inv run seen m s"
  by (simp add: rows_at_def inv_def)

lemma create_comment_rule:
  assumes "good run seen m d f tr" "post_allowed run tr (comment_request (pr_context run) g)"
  shows "triple (rows_at d f tr) (create_comment (pr_context run) g)
     (\<lambda>i s. \<exists>r. created r = Some i \<and> rows_at d f (tr @ [(comment_request (pr_context run) g, r, f)]) s)
     (\<lambda>e. safe run)"
proof -
  have "all_steps (step_allowed run) (tr @ [(comment_request (pr_context run) g, r, f)])" for r
    using assms by (intro good_step) (auto simp: comment_request_def)
  then show ?thesis
    unfolding create_comment_def
    by (intro triple_cons [OF create_rule [of d f tr]]) (auto simp: comment_request_def intro: at_safe)
qed

lemma update_finding_commute:
  "update_finding i (\<lambda>r. r\<lparr>fr_github_comment_id := x\<rparr>) (update_finding j (\<lambda>r. r\<lparr>fr_published := b\<rparr>) d)
     = update_finding j (\<lambda>r. r\<lparr>fr_published := b\<rparr>) (update_finding i (\<lambda>r. r\<lparr>fr_github_comment_id := x\<rparr>) d)"
  by (simp add: update_finding_def)

text \<open>Storing a new comment id and flushing, after the comment was created.\<close>

lemma store_rule:
  assumes "good run (seen @ [g]) m (update_review (pc_review_id (pr_context run)) (\<lambda>r. r\<lparr>rw_github_comment_ids := Some m\<rparr>) d)
      (update_review (pc_review_id (pr_context run)) (\<lambda>r. r\<lparr>rw_github_comment_ids := Some m\<rparr>) d) tr"
  shows "triple (rows_at d f tr)
     (seq (set_comment_ids (pr_context run) m) (\<lambda>_. seq (flush (pc_services (pr_context run))) (\<lambda>_. return m)))
     (\<lambda>m'. inv run (seen @ [g]) m') (\<lambda>e. safe run)"
  unfolding set_comment_ids_def
  by (rule triple_step [OF modify_rule], rule triple_step [OF flush_rule], rule triple_return)
    (use assms in \<open>auto intro: at_inv at_safe dest: good_all_steps\<close>)

lemma publish_new_finding_rule:
  fixes run :: "'w pub_run"
  assumes g: "g \<in> set (pr_findings run)" "fr_id g \<notin> fr_id ` set seen" and good: "good run seen m d f tr"
    and None: "existing_comment_id m g = None"
  shows "triple (rows_at d f tr) (publish_finding (pr_context run) g m) (inv run (seen @ [g])) (\<lambda>e. safe run)"
proof -
  let ?req = "comment_request (pr_context run) g"
  let ?pub = "update_finding (fr_id g) (\<lambda>r. r\<lparr>fr_published := True\<rparr>)"
  have "m (fr_id g) = pr_stored_ids run (fr_id g) \<or> (\<exists>e \<in> set tr. gone_review e)"
    using good g unfolding good_def map_fresh_def by blast
  then have ok: "post_allowed run tr ?req"
    using None g(1) unfolding post_allowed_def
    by (auto simp: comment_request_def existing_comment_id_def no_comment_on_record_def split: option.splits if_splits)
  have stored: "good run (seen @ [g]) (m(fr_id g \<mapsto> i)) (store_comment run g i (m(fr_id g \<mapsto> i)) (?pub d))
      (store_comment run g i (m(fr_id g \<mapsto> i)) (?pub d)) (tr @ [(?req, r, f)])" if "created r = Some i" for r i
    using good_created [OF good_published [OF good] g ok that refl] .
  show ?thesis
    unfolding publish_finding_def None option.case Let_def
  proof (rule triple_step [OF create_comment_rule [OF good ok]])
    fix i
    show "triple (\<lambda>s. \<exists>r. created r = Some i \<and> rows_at d f (tr @ [(?req, r, f)]) s)
      (seq (set_comment_id g i) (\<lambda>_. seq (set_published g) (\<lambda>_. seq (set_comment_ids (pr_context run) (m(fr_id g \<mapsto> i)))
         (\<lambda>_. seq (flush (pc_services (pr_context run))) (\<lambda>_. return (m(fr_id g \<mapsto> i)))))))
      (inv run (seen @ [g])) (\<lambda>e. safe run)"
      unfolding set_comment_id_def set_published_def
      by (intro triple_ex triple_pre, rule triple_step [OF modify_rule], rule triple_step [OF modify_rule],
          rule store_rule) (use stored in \<open>simp_all add: store_comment_def update_finding_commute\<close>)
  qed simp
qed

text \<open>A comment that is gone is created anew.\<close>

lemma recreate_comment_rule:
  fixes run :: "'w pub_run" and resp :: api_response
  assumes g: "g \<in> set (pr_findings run)" "fr_id g \<notin> fr_id ` set seen"
    and patched: "good run seen m d f (tr @ [(Patch_Comment (pc_owner (pr_context run)) (pc_repo (pr_context run)) old
      (finding_comment_body (pc_upper (pr_context run)) g), Inr resp, f)])"
    and gone: "ar_status resp = 404"
    and tr: "tr' = tr @ [(Patch_Comment (pc_owner (pr_context run)) (pc_repo (pr_context run)) old
      (finding_comment_body (pc_upper (pr_context run)) g), Inr resp, f)]"
  shows "triple (rows_at d f tr') (seq (create_comment (pr_context run) g) (\<lambda>new_id. seq (set_comment_id g new_id) (\<lambda>_.
        let m = m(fr_id g \<mapsto> new_id) in seq (set_comment_ids (pr_context run) m) (\<lambda>_.
        seq (flush (pc_services (pr_context run))) (\<lambda>_. return m)))))
      (inv run (seen @ [g])) (\<lambda>e. safe run)"
proof -
  let ?post = "comment_request (pr_context run) g"
  have allowed: "post_allowed run tr' ?post"
    using gone g(1) by (auto simp: post_allowed_def comment_request_def gone_comment_def tr)
  note patched = patched [folded tr]
  show ?thesis
    unfolding Let_def
  proof (rule triple_step [OF create_comment_rule [OF patched allowed]])
    fix i
    show "triple (\<lambda>s. \<exists>r. created r = Some i \<and> rows_at d f (tr' @ [(?post, r, f)]) s)
      (seq (set_comment_id g i) (\<lambda>_. seq (set_comment_ids (pr_context run) (m(fr_id g \<mapsto> i)))
         (\<lambda>_. seq (flush (pc_services (pr_context run))) (\<lambda>_. return (m(fr_id g \<mapsto> i))))))
      (inv run (seen @ [g])) (\<lambda>e. safe run)"
      unfolding set_comment_id_def
      by (intro triple_ex triple_pre, rule triple_step [OF modify_rule], rule store_rule)
        (use good_created [OF patched g allowed _ refl] in \<open>simp_all add: store_comment_def\<close>)
  qed simp
qed

lemma publish_known_finding_rule:
  fixes run :: "'w pub_run"
  assumes g: "g \<in> set (pr_findings run)" "fr_id g \<notin> fr_id ` set seen" and good: "good run seen m d f tr"
    and Some: "existing_comment_id m g = Some old"
  shows "triple (rows_at d f tr) (publish_finding (pr_context run) g m) (inv run (seen @ [g])) (\<lambda>e. safe run)"
proof -
  let ?req = "Patch_Comment (pc_owner (pr_context run)) (pc_repo (pr_context run)) old
    (finding_comment_body (pc_upper (pr_context run)) g)"
  have patched: "good run seen m d f (tr @ [(?req, r, f)])" for r
    using good by (rule good_update) (simp_all add: not_post_def)
  have publish: "triple (inv run (seen @ [g]) m') (seq (set_published g) (\<lambda>_. return m')) (inv run (seen @ [g])) (\<lambda>e. safe run)" for m'
    by (rule tripleI) (auto simp: set_published_def modify_db_def seq_def return_def inv_def good_published)
  show ?thesis
    unfolding publish_finding_def Some option.case update_comment_def
  proof (rule triple_step [OF update_rule])
    fix ok
    let ?m = "seq (create_comment (pr_context run) g) (\<lambda>new_id. seq (set_comment_id g new_id) (\<lambda>_.
        let m = m(fr_id g \<mapsto> new_id) in seq (set_comment_ids (pr_context run) m) (\<lambda>_.
        seq (flush (pc_services (pr_context run))) (\<lambda>_. return m))))"
    have fresh: "triple (rows_at d f (tr @ [(?req, Inr resp, f)])) ?m (inv run (seen @ [g])) (\<lambda>e. safe run)"
      if "ar_status resp = 404" for resp :: api_response
      by (rule recreate_comment_rule [OF g patched that refl])
    show "triple (\<lambda>s. \<exists>resp :: api_response. (\<not> ok \<longrightarrow> ar_status resp = 404) \<and> rows_at d f (tr @ [(?req, Inr resp, f)]) s)
      (seq (if \<not> ok then ?m else return m) (\<lambda>m. seq (set_published g) (\<lambda>_. return m)))
      (inv run (seen @ [g])) (\<lambda>e. safe run)"
    proof (intro triple_ex triple_pre triple_seq [OF _ publish] triple_if)
      fix resp :: api_response assume "\<not> ok \<longrightarrow> ar_status resp = 404" "\<not> ok"
      then show "triple (rows_at d f (tr @ [(?req, Inr resp, f)])) ?m (inv run (seen @ [g])) (\<lambda>e. safe run)"
        by (intro fresh) simp
    next
      fix resp :: api_response
      show "triple (rows_at d f (tr @ [(?req, Inr resp, f)])) (return m) (inv run (seen @ [g])) (\<lambda>e. safe run)"
        by (rule triple_return) (rule at_inv, assumption, rule good_seen [OF patched g(1)])
    qed
  next
    fix e and s :: "'w publisher" assume "\<exists>r. rows_at d f (tr @ [(?req, r, f)]) s"
    then show "safe run s" using patched good_all_steps at_safe by blast
  qed
qed

lemma publish_finding_rule:
  fixes run :: "'w pub_run"
  assumes "g \<in> set (pr_findings run)" "fr_id g \<notin> fr_id ` set seen" "good run seen m d f tr"
  shows "triple (rows_at d f tr) (publish_finding (pr_context run) g m) (inv run (seen @ [g])) (\<lambda>e. safe run)"
  using publish_new_finding_rule [OF assms] publish_known_finding_rule [OF assms]
  by (cases "existing_comment_id m g") simp_all

lemma publish_findings_rule:
  fixes run :: "'w pub_run"
  assumes "set gs \<subseteq> set (pr_findings run)" "distinct (map fr_id (seen @ gs))"
  shows "triple (inv run seen m) (publish_findings (pr_context run) gs m)
     (inv run (seen @ gs)) (\<lambda>e. safe run)"
  using assms
proof (induction gs arbitrary: seen m)
  case Nil
  then show ?case by (auto intro: triple_return)
next
  case (Cons g gs)
  have "triple (inv run seen m) (publish_finding (pr_context run) g m) (inv run (seen @ [g])) (\<lambda>e. safe run)"
  proof (unfold triple_def, intro allI impI)
    fix s assume "inv run seen m s"
    then have "good run seen m (pb_db s) (pb_flushed s) (pb_trace s)" by (simp add: inv_def)
    moreover have "g \<in> set (pr_findings run)" "fr_id g \<notin> fr_id ` set seen" using Cons.prems by auto
    ultimately have "triple (rows_at (pb_db s) (pb_flushed s) (pb_trace s)) (publish_finding (pr_context run) g m)
        (inv run (seen @ [g])) (\<lambda>e. safe run)"
      by (intro publish_finding_rule)
    then show "case publish_finding (pr_context run) g m s of
        (Inr x, s') \<Rightarrow> inv run (seen @ [g]) x s' | (Inl e, s') \<Rightarrow> safe run s'"
      by (simp add: triple_def rows_at_def)
  qed
  moreover have "triple (inv run (seen @ [g]) m') (publish_findings (pr_context run) gs m')
      (inv run ((seen @ [g]) @ gs)) (\<lambda>e. safe run)" for m'
    using Cons.prems by (intro Cons.IH) auto
  ultimately show ?case
    by (auto intro!: triple_seq)
qed

section \<open>Before the loop\<close>

lemma good_review_created:
  assumes good: "good run [] m d f tr" and none: "\<forall>e \<in> set tr. not_post (fst e)" and i: "created r = Some i"
    and ok: "post_allowed run tr req" "on_target (pr_context run) req" "is_post_review req"
    and d': "d' = update_review (pc_review_id (pr_context run)) (\<lambda>r. r\<lparr>rw_github_review_id := Some i\<rparr>) d"
    and m': "m' = m \<or> m' = Map.empty \<and> (\<exists>e \<in> set tr. gone_review e)"
  shows "good run [] m' d' d' (tr @ [(req, r, f)])"
proof -
  have steps: "all_steps (step_allowed run) (tr @ [(req, r, f)])"
    using good ok(2,1) by (rule good_step)
  have rows: "rows_present run d" using good by (simp add: good_def)
  then have k: "knows_review run d' i" by (auto simp: knows_review_def d' rows_present_def)
  have tr_review: "\<not> is_post_review q" if "(q, x, y) \<in> set tr" for q x y
    using none that by (cases q) (force simp: not_post_def)+
  have tr_comment: "(Post_Comment a b c sha body p l, x, y) \<notin> set tr" for a b c sha body p l x y
    using none by (force simp: not_post_def)
  have no_comment: "req \<noteq> Post_Comment a b c sha body p l" for a b c sha body p l
    using ok(3) by (cases req) auto
  have "reviews_known run (tr @ [(req, r, f)]) d'"
    using k i tr_review by (fastforce simp: reviews_known_def)
  moreover have "comments_known run [] (tr @ [(req, r, f)]) d'" "map_knows run [] (tr @ [(req, r, f)]) m' d'"
    by (auto simp: comments_known_def map_knows_def tr_comment no_comment no_comment [symmetric])
  moreover have "map_fresh run [] (tr @ [(req, r, f)]) m'"
    using good m' by (auto simp: good_def map_fresh_def)
  moreover have "rows_present run d'" using rows by (auto simp: rows_present_def d')
  ultimately show ?thesis
    using good steps unfolding good_def by (simp add: guard_passed_snoc del: all_steps_snoc)
qed

text \<open>Creating the review, storing its id and flushing.\<close>

lemma create_review_rule:
  fixes run :: "'w pub_run"
  assumes good: "good run [] m d f tr" and none: "\<forall>e \<in> set tr. not_post (fst e)"
    and ok: "pr_stored_review run = None \<or> (tr \<noteq> [] \<and> gone_review (last tr))"
    and m': "m' = m \<or> m' = Map.empty \<and> (\<exists>e \<in> set tr. gone_review e)"
  shows "triple (rows_at d f tr)
     (seq (create_review (pr_context run)) (\<lambda>new_id. seq (set_review_id (pr_context run) new_id) (\<lambda>_.
        seq (flush (pc_services (pr_context run))) (\<lambda>_. return m'))))
     (inv run []) (\<lambda>e. safe run)"
proof -
  let ?req = "Post_Review (pc_owner (pr_context run)) (pc_repo (pr_context run))
    (pc_pr_number (pr_context run)) (pc_head_sha (pr_context run))"
  have allowed: "post_allowed run tr ?req" using ok by (auto simp: post_allowed_def)
  have steps: "all_steps (step_allowed run) (tr @ [(?req, r, f)])" for r
    using good allowed by (intro good_step) simp_all
  show ?thesis
    unfolding create_review_def
  proof (rule triple_step [OF create_rule])
    fix i
    have stored: "good run [] m' (update_review (pc_review_id (pr_context run)) (\<lambda>r. r\<lparr>rw_github_review_id := Some i\<rparr>) d)
        (update_review (pc_review_id (pr_context run)) (\<lambda>r. r\<lparr>rw_github_review_id := Some i\<rparr>) d) (tr @ [(?req, r, f)])"
      if "created r = Some i" for r
      using good_review_created [OF good none that allowed _ _ refl m'] by simp
    show "triple (\<lambda>s. \<exists>r. created r = Some i \<and> rows_at d f (tr @ [(?req, r, f)]) s)
       (seq (set_review_id (pr_context run) i) (\<lambda>_. seq (flush (pc_services (pr_context run))) (\<lambda>_. return m')))
       (inv run []) (\<lambda>e. safe run)"
      unfolding set_review_id_def
      by (intro triple_ex triple_pre, rule triple_step [OF modify_rule], rule triple_step [OF flush_rule],
          rule triple_return) (use stored steps in \<open>auto intro: at_inv at_safe\<close>)
  next
    fix e and s :: "'w publisher" assume "\<exists>r. rows_at d f (tr @ [(?req, r, f)]) s"
    then show "safe run s" using steps at_safe by blast
  qed
qed

lemma ensure_review_rule:
  fixes run :: "'w pub_run"
  assumes good: "good run [] m d f tr" and none: "\<forall>e \<in> set tr. not_post (fst e)"
  shows "triple (rows_at d f tr) (ensure_review (pr_context run) (pr_stored_review run) m) (inv run []) (\<lambda>e. safe run)"
proof (cases "pr_stored_review run")
  case None
  then show ?thesis
    using create_review_rule [OF good none, of m] by (simp add: ensure_review_def)
next
  case (Some old)
  let ?req = "Put_Review (pc_owner (pr_context run)) (pc_repo (pr_context run)) (pc_pr_number (pr_context run)) old"
  have put: "good run [] m d f (tr @ [(?req, r, f)])" for r
    using good by (rule good_update) (simp_all add: not_post_def)
  have none': "\<forall>e \<in> set (tr @ [(?req, r, f)]). not_post (fst e)" for r
    using none by (auto simp: not_post_def)
  show ?thesis
    unfolding ensure_review_def Some option.case update_gh_review_def
  proof (rule triple_step [OF update_rule])
    fix ok
    show "triple (\<lambda>s. \<exists>resp :: api_response. (\<not> ok \<longrightarrow> ar_status resp = 404) \<and> rows_at d f (tr @ [(?req, Inr resp, f)]) s)
      (if \<not> ok then seq (create_review (pr_context run)) (\<lambda>new_id. seq (set_review_id (pr_context run) new_id) (\<lambda>_.
          seq (flush (pc_services (pr_context run))) (\<lambda>_. return Map.empty))) else return m)
      (inv run []) (\<lambda>e. safe run)"
    proof (intro triple_ex triple_pre triple_if)
      fix resp :: api_response assume "\<not> ok \<longrightarrow> ar_status resp = 404" "\<not> ok"
      then have "gone_review (?req, Inr resp, f)" by (auto simp: gone_review_def)
      then show "triple (rows_at d f (tr @ [(?req, Inr resp, f)]))
        (seq (create_review (pr_context run)) (\<lambda>new_id. seq (set_review_id (pr_context run) new_id) (\<lambda>_.
          seq (flush (pc_services (pr_context run))) (\<lambda>_. return Map.empty)))) (inv run []) (\<lambda>e. safe run)"
        by (intro create_review_rule [OF put none']) auto
    next
      fix resp :: api_response
      show "triple (rows_at d f (tr @ [(?req, Inr resp, f)])) (return m) (inv run []) (\<lambda>e. safe run)"
        using put by (auto intro: triple_return at_inv)
    qed
  next
    fix e and s :: "'w publisher" assume "\<exists>r. rows_at d f (tr @ [(?req, r, f)]) s"
    then show "safe run s" using put good_all_steps at_safe by blast
  qed
qed

section \<open>The whole run\<close>

definition run_of ::
  "'w services \<Rightarrow> (pystr \<Rightarrow> pystr) \<Rightarrow> database \<Rightarrow> review_row \<Rightarrow> uuid \<Rightarrow> pystr \<Rightarrow> pystr \<Rightarrow> 'w pub_run" where
  "run_of sv upper db review review_id owner repo_name =
     \<lparr>pr_context = \<lparr>pc_services = sv, pc_upper = upper, pc_owner = owner, pc_repo = repo_name,
        pc_pr_number = rw_pr_number review, pc_head_sha = rw_head_sha review, pc_review_id = review_id\<rparr>,
      pr_stored_review = rw_github_review_id review,
      pr_stored_ids = (case rw_github_comment_ids review of Some m \<Rightarrow> m | None \<Rightarrow> Map.empty),
      pr_findings = filter publishable (filter (\<lambda>f. fr_review_id f = review_id) (db_findings db))\<rparr>"

text \<open>The body of \<open>publish_review\<close> once the rows are loaded.\<close>

definition publish_body :: "'w pub_run \<Rightarrow> ('w publisher, unit) proc" where
  "publish_body run =
     seq (sha_guard_step (pr_context run)) (\<lambda>_.
     seq (ensure_review (pr_context run) (pr_stored_review run) (pr_stored_ids run)) (\<lambda>m.
     seq (publish_findings (pr_context run) (pr_findings run) m) (\<lambda>m'. set_comment_ids (pr_context run) m')))"

lemma publish_review_body:
  "publish_review sv upper review_id installation_id s =
     (case select_review (pb_db s) review_id installation_id of
        None \<Rightarrow> (Inl ValueError, s)
      | Some (review, repo) \<Rightarrow>
          (case split_full_name (rp_full_name repo) of
             Inl e \<Rightarrow> (Inl e, s)
           | Inr (owner, name) \<Rightarrow> publish_body (run_of sv upper (pb_db s) review review_id owner name) s))"
proof (cases "select_review (pb_db s) review_id installation_id")
  case None
  then show ?thesis by (simp add: publish_review_def seq_def get_db_def raise_def)
next
  case (Some p)
  obtain review repo where "p = (review, repo)" by fastforce
  with Some show ?thesis
    by (cases "split_full_name (rp_full_name repo)"; cases "projr (split_full_name (rp_full_name repo))")
      (simp_all add: publish_review_def publish_body_def run_of_def seq_def get_db_def from_result_def Let_def)
qed

lemma sha_guard_rule:
  fixes run :: "'w pub_run"
  assumes rows: "rows_present run d"
  shows "triple (rows_at d d []) (sha_guard_step (pr_context run))
     (\<lambda>_ s. \<exists>tr. rows_at d d tr s \<and> good run [] (pr_stored_ids run) d d tr \<and> (\<forall>e \<in> set tr. not_post (fst e)))
     (\<lambda>e. safe run)"
proof -
  let ?pc = "pr_context run"
  let ?req = "Get_Pr (pc_owner ?pc) (pc_repo ?pc) (pc_pr_number ?pc)"
  let ?tr = "\<lambda>r. [(?req, r, d)]"
  have empty: "reviews_known run [] d" "comments_known run fs [] d" for fs
    by (simp_all add: reviews_known_def comments_known_def)
  have steps: "all_steps (step_allowed run) (?tr r)" for r
    using all_steps_snoc [of "step_allowed run" "[]"] empty by (simp add: step_allowed_def post_allowed_def)
  have passed: "good run [] (pr_stored_ids run) d d (?tr (Inr resp)) \<and> (\<forall>e \<in> set (?tr (Inr resp)). not_post (fst e))"
    if "is_2xx resp" "ar_head_sha resp = Inr (pc_head_sha ?pc)" for resp
  proof -
    have "guard_passed ?pc (?tr (Inr resp))"
      using that by (auto simp: guard_passed_def is_2xx_def)
    moreover have "not_post ?req" by (simp add: not_post_def)
    ultimately show ?thesis
      using rows steps
      by (auto simp: good_def reviews_known_def comments_known_def map_knows_def map_fresh_def)
  qed
  show ?thesis
    unfolding sha_guard_step_def
  proof (rule triple_step [OF send_rule])
    fix resp
    show "triple (rows_at d d ([] @ ?tr (Inr resp))) (seq (raise_for_status resp) (\<lambda>_.
        seq (from_result (ar_head_sha resp)) (\<lambda>current_sha.
          if current_sha \<noteq> pc_head_sha ?pc then raise ValueError else return ())))
      (\<lambda>_ s. \<exists>tr. rows_at d d tr s \<and> good run [] (pr_stored_ids run) d d tr \<and> (\<forall>e \<in> set tr. not_post (fst e)))
      (\<lambda>e. safe run)"
      by (rule triple_step [OF status_rule], rule triple_pre, rule triple_step [OF result_rule], rule triple_pre,
          intro triple_if triple_raise triple_return)
        (use steps passed in \<open>auto intro: at_safe\<close>)
  qed (use steps in \<open>auto intro: at_safe\<close>)
qed

lemma publish_body_rule:
  fixes run :: "'w pub_run"
  assumes "rows_present run d" "distinct (map fr_id (pr_findings run))"
  shows "triple (rows_at d d []) (publish_body run) (\<lambda>_. safe run) (\<lambda>e. safe run)"
proof -
  have ensure: "triple (\<lambda>s. \<exists>tr. rows_at d d tr s \<and> good run [] (pr_stored_ids run) d d tr \<and> (\<forall>e \<in> set tr. not_post (fst e)))
      (ensure_review (pr_context run) (pr_stored_review run) (pr_stored_ids run)) (inv run []) (\<lambda>e. safe run)"
  proof (rule triple_ex)
    fix tr
    show "triple (\<lambda>s. rows_at d d tr s \<and> good run [] (pr_stored_ids run) d d tr \<and> (\<forall>e \<in> set tr. not_post (fst e)))
      (ensure_review (pr_context run) (pr_stored_review run) (pr_stored_ids run)) (inv run []) (\<lambda>e. safe run)"
      using ensure_review_rule [of run "pr_stored_ids run" d d tr]
      by (cases "good run [] (pr_stored_ids run) d d tr \<and> (\<forall>e \<in> set tr. not_post (fst e))") (auto simp: triple_def)
  qed
  have loop: "triple (inv run [] m) (publish_findings (pr_context run) (pr_findings run) m) (inv run ([] @ pr_findings run)) (\<lambda>e. safe run)" for m
    using assms(2) by (intro publish_findings_rule) simp_all
  have final: "triple (inv run gs m) (set_comment_ids (pr_context run) m) (\<lambda>_. safe run) (\<lambda>e. safe run)" for gs m
    by (rule tripleI) (auto simp: set_comment_ids_def modify_db_def inv_def safe_def good_def)
  show ?thesis
    unfolding publish_body_def
    by (rule triple_seq [OF sha_guard_rule [OF assms(1)]], rule triple_seq [OF ensure], rule triple_seq [OF loop], rule final)
qed

lemma publish_body_safe:
  assumes "publish_body (run_of sv upper (pb_db s) review review_id owner name) s = (r, s')"
    and "pb_trace s = []" "pb_flushed s = pb_db s" "distinct (map fr_id (db_findings (pb_db s)))"
    and "db_reviews (pb_db s) review_id = Some review"
  shows "all_steps (step_allowed (run_of sv upper (pb_db s) review review_id owner name)) (pb_trace s')"
proof -
  let ?run = "run_of sv upper (pb_db s) review review_id owner name"
  have "rows_present ?run (pb_db s)" using assms(5) by (auto simp: rows_present_def run_of_def)
  moreover have "distinct (map fr_id (pr_findings ?run))"
    using assms(4) by (simp add: run_of_def distinct_map_filter)
  ultimately have "triple (rows_at (pb_db s) (pb_db s) []) (publish_body ?run) (\<lambda>_. safe ?run) (\<lambda>e. safe ?run)"
    by (rule publish_body_rule)
  then have "safe ?run s'"
    using tripleD [of "rows_at (pb_db s) (pb_db s) []" "publish_body ?run" "\<lambda>_. safe ?run" "\<lambda>_. safe ?run" s]
      assms(1-3) by (cases r) (simp_all add: rows_at_def)
  then show ?thesis by (simp add: safe_def)
qed

text \<open>
  The run that the rows call for, written out: the review's own findings that may be published, the
  ids on record for the review, and the pull request and commit of its row.
\<close>

definition required_run ::
  "'w services \<Rightarrow> (pystr \<Rightarrow> pystr) \<Rightarrow> database \<Rightarrow> review_row \<Rightarrow> uuid \<Rightarrow> pystr \<Rightarrow> pystr \<Rightarrow> 'w pub_run" where
  "required_run sv upper db review review_id owner repo_name =
     \<lparr>pr_context = \<lparr>pc_services = sv, pc_upper = upper, pc_owner = owner, pc_repo = repo_name,
        pc_pr_number = rw_pr_number review, pc_head_sha = rw_head_sha review, pc_review_id = review_id\<rparr>,
      pr_stored_review = rw_github_review_id review,
      pr_stored_ids = (case rw_github_comment_ids review of Some m \<Rightarrow> m | None \<Rightarrow> Map.empty),
      pr_findings = [f \<leftarrow> db_findings db. fr_review_id f = review_id
         \<and> (fr_publishability f = u ''publish'' \<or> fr_publishability f = u ''redact-and-publish'')]\<rparr>"

lemma run_of_required: "run_of = required_run"
  by (simp add: fun_eq_iff run_of_def required_run_def publishable_def filter_filter conj_commute del: u_Cons)

text \<open>The repository of a review, if it exists and belongs to the installation.\<close>

definition tenant_repo :: "database \<Rightarrow> uuid \<Rightarrow> review_row \<Rightarrow> repo_row \<Rightarrow> bool" where
  "tenant_repo db installation_id review repo \<longleftrightarrow>
     db_repos db (rw_repo_id review) = Some repo \<and> rp_installation_id repo = installation_id"

lemma select_review_None:
  "select_review db review_id installation_id = None
   \<longleftrightarrow> (\<nexists>review repo. db_reviews db review_id = Some review \<and> tenant_repo db installation_id review repo)"
  by (auto simp: select_review_def tenant_repo_def split: option.split)

lemma select_review_Some:
  "db_reviews db review_id = Some review \<Longrightarrow> tenant_repo db installation_id review repo
     \<Longrightarrow> select_review db review_id installation_id = Some (review, repo)"
  by (simp add: select_review_def tenant_repo_def)

lemma split_full_name_cases:
  "of_char CHR ''/'' \<notin> set s \<Longrightarrow> split_full_name s = Inl ValueError"
  "of_char CHR ''/'' \<notin> set owner \<Longrightarrow> split_full_name (owner @ u ''/'' @ name) = Inr (owner, name)"
proof -
  show "split_full_name s = Inl ValueError" if "of_char CHR ''/'' \<notin> set s"
  proof -
    have "dropWhile (\<lambda>c. c \<noteq> of_char CHR ''/'') s = []" using that by auto
    then show ?thesis by (simp add: split_full_name_def Let_def)
  qed
  assume "of_char CHR ''/'' \<notin> set owner"
  then have "\<forall>c \<in> set owner. c \<noteq> of_char CHR ''/''" by auto
  then show "split_full_name (owner @ u ''/'' @ name) = Inr (owner, name)"
    by (simp add: split_full_name_def Let_def takeWhile_stop dropWhile_stop)
qed

lemma publish_review_selected:
  assumes "publish_review sv upper review_id installation_id s = (r, s')"
    and "pb_trace s = []" "pb_flushed s = pb_db s" "distinct (map fr_id (db_findings (pb_db s)))"
    and "db_reviews (pb_db s) review_id = Some review" "tenant_repo (pb_db s) installation_id review repo"
  shows "if of_char CHR ''/'' \<notin> set (rp_full_name repo) then r = Inl ValueError \<and> s' = s
       else \<exists>owner name. rp_full_name repo = owner @ u ''/'' @ name \<and> of_char CHR ''/'' \<notin> set owner
         \<and> all_steps (step_allowed (required_run sv upper (pb_db s) review review_id owner name)) (pb_trace s')"
proof (cases "of_char CHR ''/'' \<in> set (rp_full_name repo)")
  case False
  then show ?thesis
    using assms(1) select_review_Some [OF assms(5,6)] by (simp add: publish_review_body split_full_name_cases(1))
next
  case True
  obtain owner name where full: "rp_full_name repo = owner @ of_char CHR ''/'' # name" "of_char CHR ''/'' \<notin> set owner"
    using split_list_first [OF True] by blast
  then have "split_full_name (rp_full_name repo) = Inr (owner, name)"
    using split_full_name_cases(2) [of owner name] by simp
  then have "publish_body (run_of sv upper (pb_db s) review review_id owner name) s = (r, s')"
    using assms(1) select_review_Some [OF assms(5,6)] by (simp add: publish_review_body)
  from publish_body_safe [OF this assms(2-5)]
  have "all_steps (step_allowed (required_run sv upper (pb_db s) review review_id owner name)) (pb_trace s')"
    by (simp add: run_of_required)
  with True full show ?thesis by auto
qed

text \<open>
  Claim C5.  Publishing is safe at every request.  Take any review, any stored publishing state,
  any answers of GitHub and any failures of the database, and stop the run at any point.  Unless the
  review's row exists, its repository's row exists, and this repository belongs to the given
  installation, \<open>ValueError\<close> is raised and nothing is sent or changed; so it is for a repository
  without a slash in its name.  Otherwise every request goes to that repository (owner before the
  first slash, name after it), to the pull request and the commit of the review; a write
  follows a look-up of the pull request that showed the reviewed head; a review is created
  only when none is stored or directly after GitHub said 404 for the stored one, and a comment
  only for a finding of this review that is marked \<open>publish\<close> or \<open>redact-and-publish\<close> and has no id on
  record, directly after a 404 for its own comment, or after the review was gone; and the rows
  flushed before each request know the id of everything created so far.
\<close>

theorem publish_review_safe:
  assumes "publish_review sv upper review_id installation_id s = (r, s')"
    and "pb_trace s = []" "pb_flushed s = pb_db s" "distinct (map fr_id (db_findings (pb_db s)))"
  shows "((\<nexists>review repo. db_reviews (pb_db s) review_id = Some review \<and> tenant_repo (pb_db s) installation_id review repo)
      \<longrightarrow> r = Inl ValueError \<and> s' = s)
    \<and> (\<forall>review repo. db_reviews (pb_db s) review_id = Some review \<and> tenant_repo (pb_db s) installation_id review repo \<longrightarrow>
      (if of_char CHR ''/'' \<notin> set (rp_full_name repo) then r = Inl ValueError \<and> s' = s
       else \<exists>owner name. rp_full_name repo = owner @ u ''/'' @ name \<and> of_char CHR ''/'' \<notin> set owner
         \<and> all_steps (step_allowed (required_run sv upper (pb_db s) review review_id owner name)) (pb_trace s')))"
proof (intro conjI impI allI)
  assume "\<nexists>review repo. db_reviews (pb_db s) review_id = Some review \<and> tenant_repo (pb_db s) installation_id review repo"
  then have "select_review (pb_db s) review_id installation_id = None" unfolding select_review_None .
  then show "r = Inl ValueError" "s' = s" using assms(1) by (simp_all add: publish_review_body)
qed (use publish_review_selected [OF assms] in blast)

section \<open>What a run does to the rows\<close>

definition unpublish :: "finding_row \<Rightarrow> finding_row" where
  "unpublish f = f\<lparr>fr_published := False, fr_github_comment_id := None\<rparr>"

definition forget_ids :: "review_row \<Rightarrow> review_row" where
  "forget_ids r = r\<lparr>rw_github_review_id := None, rw_github_comment_ids := None\<rparr>"

text \<open>
  From the rows \<open>d0\<close>, only the publishing columns of the review and of the findings with an id in
  \<open>ids\<close> have changed, and the findings with an id in \<open>done_ids\<close> are published.
\<close>

definition changed :: "uuid \<Rightarrow> uuid set \<Rightarrow> uuid set \<Rightarrow> database \<Rightarrow> database \<Rightarrow> bool" where
  "changed review_id ids done_ids d0 d \<longleftrightarrow>
     db_repos d = db_repos d0
     \<and> (\<forall>j. j \<noteq> review_id \<longrightarrow> db_reviews d j = db_reviews d0 j)
     \<and> map_option forget_ids (db_reviews d review_id) = map_option forget_ids (db_reviews d0 review_id)
     \<and> list_all2 (\<lambda>f f'. unpublish f' = unpublish f \<and> (fr_id f \<notin> ids \<longrightarrow> f' = f)
          \<and> (fr_id f \<in> done_ids \<longrightarrow> fr_published f'))
        (db_findings d0) (db_findings d)"

lemma changed_refl: "changed rid ids {} d d"
  by (simp add: changed_def list_all2_same)

lemma changed_review:
  assumes "\<And>r. forget_ids (g r) = forget_ids r" "changed rid ids fs d0 d"
  shows "changed rid ids fs d0 (update_review rid g d)"
proof -
  have "map_option forget_ids (map_option g x) = map_option forget_ids x" for x
    using assms(1) by (cases x) simp_all
  with assms(2) show ?thesis by (simp add: changed_def)
qed

lemma unpublish_id: "unpublish f' = unpublish f \<Longrightarrow> fr_id f' = fr_id f"
  by (drule arg_cong [where f = fr_id]) (simp add: unpublish_def)

lemma changed_finding:
  assumes g: "\<And>f. unpublish (g f) = unpublish f" "\<And>f. fr_published f \<Longrightarrow> fr_published (g f)" and i: "i \<in> ids"
    and new: "fs' = fs \<or> fs' = insert i fs \<and> (\<forall>f. fr_published (g f))" and ch: "changed rid ids fs d0 d"
  shows "changed rid ids fs' d0 (update_finding i g d)"
proof -
  let ?P = "\<lambda>fs f f'. unpublish f' = unpublish f \<and> (fr_id f \<notin> ids \<longrightarrow> f' = f) \<and> (fr_id f \<in> fs \<longrightarrow> fr_published f')"
  have old: "list_all2 (?P fs) (db_findings d0) (db_findings d)" using ch by (simp add: changed_def)
  have step: "?P fs' f (if fr_id f' = i then g f' else f')" if P: "?P fs f f'" for f f'
  proof -
    have id: "fr_id f' = fr_id f" using P unpublish_id by blast
    show ?thesis
    proof (cases "fr_id f' = i")
      case True
      have "unpublish (g f') = unpublish f" using P g(1) [of f'] by simp
      moreover have "fr_published (g f')" if "fr_id f \<in> fs'"
        using new
      proof
        assume "fs' = fs"
        with that P show ?thesis by (intro g(2)) simp
      qed simp
      ultimately show ?thesis using True i id by simp
    next
      case False
      then show ?thesis using P new id by auto
    qed
  qed
  have "list_all2 (\<lambda>f f'. ?P fs' f (if fr_id f' = i then g f' else f')) (db_findings d0) (db_findings d)"
    using old by (rule list_all2_mono) (rule step)
  then have "list_all2 (?P fs') (db_findings d0) (map (\<lambda>f'. if fr_id f' = i then g f' else f') (db_findings d))"
    unfolding list_all2_map2 .
  moreover have "db_findings (update_finding i g d) = map (\<lambda>f'. if fr_id f' = i then g f' else f') (db_findings d)"
    by (simp add: update_finding_def)
  ultimately show ?thesis using ch by (simp add: changed_def)
qed

abbreviation on_db :: "(database \<Rightarrow> bool) \<Rightarrow> 'w publisher \<Rightarrow> bool" where
  "on_db P s \<equiv> P (pb_db s)"

lemma db_send: "triple (on_db P) (send sv req) (\<lambda>_. on_db P) (\<lambda>_. on_db P)"
  by (rule tripleI) (auto simp: send_def split: prod.split_asm)

lemma db_flush: "triple (on_db P) (flush sv) (\<lambda>_. on_db P) (\<lambda>_. on_db P)"
  by (rule tripleI) (auto simp: flush_def split: prod.split_asm sum.split_asm)

lemma db_modify: "(\<And>d. P d \<Longrightarrow> Q (f d)) \<Longrightarrow> triple (on_db P) (modify_db f) (\<lambda>_. on_db Q) (\<lambda>_. on_db E)"
  by (rule tripleI) (auto simp: modify_db_def)

lemma db_status: "triple (on_db P) (raise_for_status resp) (\<lambda>_. on_db P) (\<lambda>_. on_db P)"
  by (rule triple_cons [OF status_rule [of "on_db P"]]) auto

lemma db_result: "triple (on_db P) (from_result r) (\<lambda>_. on_db P) (\<lambda>_. on_db P)"
  by (rule triple_cons [OF result_rule [of "on_db P"]]) auto

lemmas db_rules = triple_seq [OF db_send] triple_seq [OF db_status] db_result triple_if triple_return triple_raise

lemma db_create_comment: "triple (on_db P) (create_comment pc g) (\<lambda>_. on_db P) (\<lambda>_. on_db P)"
  unfolding create_comment_def by (intro db_rules)

lemma db_update_comment: "triple (on_db P) (update_comment pc i g) (\<lambda>_. on_db P) (\<lambda>_. on_db P)"
  unfolding update_comment_def by (intro db_rules) simp_all

lemma db_create_review: "triple (on_db P) (create_review pc) (\<lambda>_. on_db P) (\<lambda>_. on_db P)"
  unfolding create_review_def by (intro db_rules)

lemma db_update_review: "triple (on_db P) (update_gh_review pc i) (\<lambda>_. on_db P) (\<lambda>_. on_db P)"
  unfolding update_gh_review_def by (intro db_rules) simp_all

lemma changed_weaken: "changed rid ids fs d0 d \<Longrightarrow> changed rid ids {} d0 d"
  unfolding changed_def by (auto elim: list_all2_mono)

text \<open>The steps of the body, with the weakest claim after an exception.\<close>

lemma changed_set_id:
  "fr_id g \<in> ids \<Longrightarrow> triple (on_db (changed rid ids fs d0)) (set_comment_id g i)
     (\<lambda>_. on_db (changed rid ids fs d0)) (\<lambda>_. on_db E)"
  unfolding set_comment_id_def by (rule db_modify, rule changed_finding) (auto simp: unpublish_def)

lemma changed_set_published:
  "fr_id g \<in> ids \<Longrightarrow> triple (on_db (changed rid ids fs d0)) (set_published g)
     (\<lambda>_. on_db (changed rid ids (insert (fr_id g) fs) d0)) (\<lambda>_. on_db E)"
  unfolding set_published_def by (rule db_modify, rule changed_finding) (auto simp: unpublish_def)

lemma changed_set_ids:
  "triple (on_db (changed (pc_review_id pc) ids fs d0)) (set_comment_ids pc m)
     (\<lambda>_. on_db (changed (pc_review_id pc) ids fs d0)) (\<lambda>_. on_db E)"
  unfolding set_comment_ids_def by (rule db_modify, rule changed_review) (auto simp: forget_ids_def)

lemma changed_set_review:
  "triple (on_db (changed (pc_review_id pc) ids fs d0)) (set_review_id pc i)
     (\<lambda>_. on_db (changed (pc_review_id pc) ids fs d0)) (\<lambda>_. on_db E)"
  unfolding set_review_id_def by (rule db_modify, rule changed_review) (auto simp: forget_ids_def)

lemma publish_finding_changed:
  assumes g: "fr_id g \<in> ids"
  shows "triple (on_db (changed (pc_review_id pc) ids fs d0)) (publish_finding pc g m)
     (\<lambda>_. on_db (changed (pc_review_id pc) ids (insert (fr_id g) fs) d0))
     (\<lambda>_. on_db (changed (pc_review_id pc) ids {} d0))"
proof (cases "existing_comment_id m g")
  case None
  show ?thesis
    unfolding publish_finding_def None option.case Let_def
    by (rule triple_step [OF db_create_comment], rule triple_seq [OF changed_set_id [OF g]],
        rule triple_seq [OF changed_set_published [OF g]], rule triple_seq [OF changed_set_ids],
        rule triple_step [OF db_flush], rule triple_return)
      (auto intro: changed_weaken)
next
  case (Some old)
  let ?C = "changed (pc_review_id pc) ids fs d0" and ?E = "changed (pc_review_id pc) ids {} d0"
  have recreate: "triple (on_db ?C) (seq (create_comment pc g) (\<lambda>new_id. seq (set_comment_id g new_id) (\<lambda>_.
      seq (set_comment_ids pc (m(fr_id g \<mapsto> new_id))) (\<lambda>_. seq (flush (pc_services pc)) (\<lambda>_.
        return (m(fr_id g \<mapsto> new_id))))))) (\<lambda>_. on_db ?C) (\<lambda>_. on_db ?E)"
    by (rule triple_step [OF db_create_comment], rule triple_seq [OF changed_set_id [OF g]],
        rule triple_seq [OF changed_set_ids], rule triple_step [OF db_flush], rule triple_return)
      (auto intro: changed_weaken)
  show ?thesis
    unfolding publish_finding_def Some option.case Let_def
    by (rule triple_step [OF db_update_comment], rule triple_seq [where R = "\<lambda>_. on_db ?C"],
        rule triple_if, rule recreate, rule triple_return, assumption,
        rule triple_seq [OF changed_set_published [OF g]], rule triple_return)
      (auto intro: changed_weaken)
qed

lemma publish_findings_changed:
  assumes "fr_id ` set gs \<subseteq> ids"
  shows "triple (on_db (changed (pc_review_id pc) ids fs d0)) (publish_findings pc gs m)
     (\<lambda>_. on_db (changed (pc_review_id pc) ids (fr_id ` set gs \<union> fs) d0))
     (\<lambda>_. on_db (changed (pc_review_id pc) ids {} d0))"
  using assms
proof (induction gs arbitrary: fs m)
  case Nil
  then show ?case by (auto intro: triple_return)
next
  case (Cons g gs)
  have "triple (on_db (changed (pc_review_id pc) ids (insert (fr_id g) fs) d0)) (publish_findings pc gs m')
     (\<lambda>_. on_db (changed (pc_review_id pc) ids (fr_id ` set (g # gs) \<union> fs) d0))
     (\<lambda>_. on_db (changed (pc_review_id pc) ids {} d0))" for m'
    using Cons.IH [of "insert (fr_id g) fs" m'] Cons.prems by simp
  with publish_finding_changed [of g ids pc fs d0 m] Cons.prems show ?case
    by (auto intro: triple_seq)
qed

lemma ensure_review_changed:
  "triple (on_db (changed (pc_review_id pc) ids {} d0)) (ensure_review pc old m)
     (\<lambda>_. on_db (changed (pc_review_id pc) ids {} d0)) (\<lambda>_. on_db (changed (pc_review_id pc) ids {} d0))"
proof -
  let ?C = "changed (pc_review_id pc) ids {} d0"
  have new: "triple (on_db ?C) (seq (create_review pc) (\<lambda>new_id. seq (set_review_id pc new_id) (\<lambda>_.
      seq (flush (pc_services pc)) (\<lambda>_. return m')))) (\<lambda>_. on_db ?C) (\<lambda>_. on_db ?C)" for m'
    by (rule triple_seq [OF db_create_review], rule triple_seq [OF changed_set_review],
        rule triple_seq [OF db_flush], rule triple_return)
  show ?thesis
  proof (cases old)
    case None
    then show ?thesis using new by (simp add: ensure_review_def)
  next
    case (Some i)
    show ?thesis
      unfolding Some ensure_review_def option.case
      by (rule triple_seq [OF db_update_review], rule triple_if, rule new, rule triple_return)
  qed
qed

lemma publish_body_changed:
  assumes "pc_review_id (pr_context run) = review_id" and "fr_id ` set (pr_findings run) = ids"
  shows "triple (on_db (changed review_id ids {} d)) (publish_body run)
    (\<lambda>_. on_db (changed review_id ids ids d)) (\<lambda>_. on_db (changed review_id ids {} d))"
  unfolding publish_body_def
proof (rule triple_seq, unfold sha_guard_step_def)
  let ?pc = "pr_context run" and ?C = "\<lambda>fs. changed review_id ids fs d"
  show "triple (on_db (?C {})) (seq (send (pc_services ?pc) (Get_Pr (pc_owner ?pc) (pc_repo ?pc) (pc_pr_number ?pc)))
      (\<lambda>resp. seq (raise_for_status resp) (\<lambda>_. seq (from_result (ar_head_sha resp))
        (\<lambda>current_sha. if current_sha \<noteq> pc_head_sha ?pc then raise ValueError else return ()))))
    (\<lambda>_. on_db (?C {})) (\<lambda>_. on_db (?C {}))"
    by (intro db_rules triple_seq [OF db_result]) simp_all
  show "triple (on_db (?C {})) (seq (ensure_review ?pc (pr_stored_review run) (pr_stored_ids run))
      (\<lambda>m. seq (publish_findings ?pc (pr_findings run) m) (set_comment_ids ?pc)))
    (\<lambda>_. on_db (?C ids)) (\<lambda>_. on_db (?C {}))" for x :: unit
    using ensure_review_changed [of ?pc ids d "pr_stored_review run" "pr_stored_ids run"]
      publish_findings_changed [of "pr_findings run" ids ?pc "{}" d] changed_set_ids [of ?pc ids ids d]
    unfolding assms by (auto intro!: triple_seq)
qed

text \<open>
  Claim C8.  A run changes only what it publishes.  Whether it returns or raises, no repository, no
  other review, no other column of the review and no other column of a finding changes, and
  findings that are not publishable or belong to another review do not change at all.  When it
  returns, every publishable finding of the review is marked published.
\<close>

theorem publish_review_frame:
  "case publish_review sv upper review_id installation_id s of (r, s') \<Rightarrow>
     changed review_id {fr_id f | f. f \<in> set (db_findings (pb_db s)) \<and> fr_review_id f = review_id \<and> publishable f}
       (case r of Inr _ \<Rightarrow> {fr_id f | f. f \<in> set (db_findings (pb_db s)) \<and> fr_review_id f = review_id \<and> publishable f}
        | Inl _ \<Rightarrow> {})
       (pb_db s) (pb_db s')"
proof (cases "select_review (pb_db s) review_id installation_id")
  case None
  then show ?thesis by (simp add: publish_review_body changed_refl)
next
  case (Some p)
  obtain review repo where p: "p = (review, repo)" by fastforce
  let ?ids = "{fr_id f | f. f \<in> set (db_findings (pb_db s)) \<and> fr_review_id f = review_id \<and> publishable f}"
  show ?thesis
  proof (cases "split_full_name (rp_full_name repo)")
    case (Inl e)
    then show ?thesis using Some p by (simp add: publish_review_body changed_refl)
  next
    case (Inr q)
    obtain owner name where q: "q = (owner, name)" by fastforce
    let ?run = "run_of sv upper (pb_db s) review review_id owner name"
    have "triple (on_db (changed review_id ?ids {} (pb_db s))) (publish_body ?run)
      (\<lambda>_. on_db (changed review_id ?ids ?ids (pb_db s))) (\<lambda>_. on_db (changed review_id ?ids {} (pb_db s)))"
      by (rule publish_body_changed) (auto simp: run_of_def)
    then show ?thesis
      using Some p Inr q changed_refl [of review_id ?ids "pb_db s"]
      by (cases "publish_body ?run s"; cases "fst (publish_body ?run s)")
        (auto simp: publish_review_body dest: tripleD)
  qed
qed

section \<open>Sample runs\<close>

definition sample_row :: finding_row where
  "sample_row = \<lparr>fr_id = u ''f1'', fr_review_id = u ''r1'', fr_fingerprint = u ''0123456789abcdef'',
     fr_file_path = u ''a.py'', fr_line_start = 3, fr_line_end = 4, fr_origin = u ''llm'',
     fr_confidence = u ''high'', fr_severity = u ''warning'', fr_category = u ''bug'',
     fr_publishability = u ''redact-and-publish'', fr_description = u ''secret'', fr_suggestion = None,
     fr_evidence_sources_json = [], fr_published = False, fr_github_comment_id = None\<rparr>"

definition sample_review :: "int option \<Rightarrow> (pystr \<rightharpoonup> int) option \<Rightarrow> review_row" where
  "sample_review i ids = \<lparr>rw_id = u ''r1'', rw_repo_id = u ''p1'', rw_pr_number = 7, rw_head_sha = u ''abc'',
     rw_base_sha = [], rw_index_version_id = None, rw_context_source = None, rw_trigger = [],
     rw_status = processing, rw_model_used = None, rw_tokens_in = None, rw_tokens_out = None,
     rw_cost_usd = None, rw_latency_ms_json = None, rw_findings_raw_count = None,
     rw_findings_published_count = None, rw_created_at = 0, rw_github_review_id = i,
     rw_github_comment_ids = ids\<rparr>"

definition sample_repo :: repo_row where
  "sample_repo = \<lparr>rp_id = u ''p1'', rp_installation_id = u ''i1'', rp_github_id = 1, rp_full_name = u ''o/n'',
     rp_default_branch = u ''main'', rp_config_json = J_Null, rp_mirror_path = None,
     rp_active_index_version = None, rp_indexed_at = None\<rparr>"

definition sample_db :: "int option \<Rightarrow> (pystr \<rightharpoonup> int) option \<Rightarrow> int option \<Rightarrow> database" where
  "sample_db i ids c = \<lparr>db_repos = [u ''p1'' \<mapsto> sample_repo], db_reviews = [u ''r1'' \<mapsto> sample_review i ids],
     db_findings = [sample_row\<lparr>fr_github_comment_id := c\<rparr>]\<rparr>"

text \<open>GitHub from a script of statuses and ids; the head of the pull request is \<open>abc\<close>.\<close>

definition script_services :: "(nat \<times> int) list services" where
  "script_services = \<lparr>
     sv_send = (\<lambda>req w. case w of [] \<Rightarrow> (Inl NetworkError, [])
        | (st, i) # rest \<Rightarrow> (Inr \<lparr>ar_status = st, ar_id = Inr i, ar_head_sha = Inr (u ''abc'')\<rparr>, rest)),
     sv_flush = (\<lambda>db w. (Inr (), w))\<rparr>"

definition start :: "database \<Rightarrow> (nat \<times> int) list \<Rightarrow> (nat \<times> int) list publisher" where
  "start db w = \<lparr>pb_db = db, pb_flushed = db, pb_trace = [], pb_world = w\<rparr>"

lemma sample_body: "publishable (sample_row\<lparr>fr_github_comment_id := c\<rparr>)"
  by (simp add: publishable_def sample_row_def)

lemmas publish_eval = publish_review_body publish_body_def run_of_def select_review_def
  sample_review_def sample_repo_def split_full_name_def sha_guard_step_def seq_def send_def
  raise_for_status_def from_result_def return_def raise_def ensure_review_def create_review_def
  update_gh_review_def set_review_id_def set_comment_ids_def set_comment_id_def set_published_def
  modify_db_def flush_def publish_finding_def existing_comment_id_def create_comment_def
  update_comment_def script_services_def start_def Let_def

definition first_run :: "unit result \<times> (nat \<times> int) list publisher" where
  "first_run = publish_review script_services id (u ''r1'') (u ''i1'')
     (start (sample_db None None None) [(200, 0), (200, 11), (201, 12)])"

lemma first_run_value:
  "fst first_run = Inr ()
   \<and> map (\<lambda>e. is_write (fst e)) (pb_trace (snd first_run)) = [False, True, True]
   \<and> map_option rw_github_review_id (db_reviews (pb_flushed (snd first_run)) (u ''r1'')) = Some (Some 11)
   \<and> map fr_github_comment_id (db_findings (pb_flushed (snd first_run))) = [Some 12]"
proof -
  have own: "fr_review_id (sample_row\<lparr>fr_github_comment_id := c\<rparr>) = u ''r1''" for c
    by (simp add: sample_row_def)
  show ?thesis
    using sample_body own
    by (simp add: first_run_def publish_eval sample_db_def update_review_def update_finding_def sample_row_def)
qed

theorem publish_review_safe_witness:
  "(\<exists>owner name. rp_full_name sample_repo = owner @ u ''/'' @ name
      \<and> all_steps (step_allowed (required_run script_services id (sample_db None None None) (sample_review None None)
           (u ''r1'') owner name)) (pb_trace (snd first_run)))
   \<and> map (\<lambda>e. is_write (fst e)) (pb_trace (snd first_run)) = [False, True, True]
   \<and> publish_review script_services id (u ''r1'') (u ''i2'') (start (sample_db None None None) [])
       = (Inl ValueError, start (sample_db None None None) [])"
proof (intro conjI)
  let ?s = "start (sample_db None None None)"
  have start: "pb_trace (?s w) = []" "pb_flushed (?s w) = pb_db (?s w)" "distinct (map fr_id (db_findings (pb_db (?s w))))" for w
    by (simp_all add: start_def sample_db_def)
  have run: "publish_review script_services id (u ''r1'') (u ''i1'') (?s [(200, 0), (200, 11), (201, 12)]) = (fst first_run, snd first_run)"
    by (simp add: first_run_def)
  have rows: "db_reviews (sample_db None None None) (u ''r1'') = Some (sample_review None None)"
    "tenant_repo (sample_db None None None) (u ''i1'') (sample_review None None) sample_repo"
    "\<not> tenant_repo (sample_db None None None) (u ''i2'') (sample_review None None) repo" for repo
    by (auto simp: sample_db_def tenant_repo_def sample_review_def sample_repo_def)
  have slash: "of_char CHR ''/'' \<in> set (rp_full_name sample_repo)" by (simp add: sample_repo_def)
  show "\<exists>owner name. rp_full_name sample_repo = owner @ u ''/'' @ name
      \<and> all_steps (step_allowed (required_run script_services id (sample_db None None None) (sample_review None None)
           (u ''r1'') owner name)) (pb_trace (snd first_run))"
  proof -
    have db: "pb_db (?s w) = sample_db None None None" for w by (simp add: start_def)
    from publish_review_safe [OF run start, THEN conjunct2, THEN spec, THEN spec, THEN mp, unfolded db, OF conjI [OF rows(1,2)]] slash
    show ?thesis by (metis (no_types, lifting))
  qed
  show "map (\<lambda>e. is_write (fst e)) (pb_trace (snd first_run)) = [False, True, True]" using first_run_value by blast
  obtain r s' where other: "publish_review script_services id (u ''r1'') (u ''i2'') (?s []) = (r, s')" by fastforce
  have "\<nexists>review repo. db_reviews (pb_db (?s [])) (u ''r1'') = Some review \<and> tenant_repo (pb_db (?s [])) (u ''i2'') review repo"
    using rows(1,3) by (auto simp: start_def)
  with publish_review_safe [OF other start]
  show "publish_review script_services id (u ''r1'') (u ''i2'') (?s []) = (Inl ValueError, ?s [])"
    unfolding other by blast
qed

text \<open>
  When the review was deleted on GitHub, the publisher drops the map of comment ids so that every
  finding gets a fresh comment, but the id in the finding's own row is used next: the old comment
  (of the deleted review) is patched, and the run ends with an empty map: the ids are lost.
\<close>

lemma recreated_review_keeps_old_comment:
  "case publish_review script_services id (u ''r1'') (u ''i1'')
     (start (sample_db (Some 11) (Some [u ''f1'' \<mapsto> 12]) (Some 12)) [(200, 0), (404, 0), (200, 21), (200, 0)])
   of (r, s) \<Rightarrow> r = Inr ()
     \<and> (\<exists>a b c d e. map fst (pb_trace s) = [a, b, c, Patch_Comment d e 12 (finding_comment_body id sample_row)])
     \<and> map_option rw_github_comment_ids (db_reviews (pb_db s) (u ''r1'')) = Some (Some Map.empty)"
proof -
  have own: "fr_review_id (sample_row\<lparr>fr_github_comment_id := c\<rparr>) = u ''r1''" for c
    by (simp add: sample_row_def)
  have body: "finding_comment_body id (sample_row\<lparr>fr_github_comment_id := c\<rparr>) = finding_comment_body id sample_row" for c
  proof -
    have "is_redacted (sample_row\<lparr>fr_github_comment_id := c\<rparr>) = is_redacted sample_row"
      by (simp add: is_redacted_def)
    then show ?thesis by (simp add: finding_comment_body_def Let_def del: u_Cons split: option.split list.split)
  qed
  show ?thesis
    using sample_body own
    by (simp add: publish_eval sample_db_def update_review_def update_finding_def body)
qed

end
