(* ===== verification/Py_Int.thy ===== *)
theory Py_Int
  imports Kenjutsu_Prelude
begin

text \<open>
  \<open>int(s)\<close> on any string, as Python 3.12 reads it: white space around, one sign, decimal digits of
  any script, single underscores between digits, and at most 4300 digits.  (The separators 28 to
  31 are white space for \<open>str.strip\<close> but not for \<open>int\<close>.)
\<close>

definition int_space :: "pychar \<Rightarrow> bool" where
  "int_space c \<longleftrightarrow> py_isspace c \<and> \<not> (28 \<le> c \<and> c \<le> 31)"

text \<open>The digits of a numeral, without its underscores: None if they are not placed well.\<close>

fun numeral_digits :: "pystr \<Rightarrow> pystr option" where
  "numeral_digits [] = None"
| "numeral_digits [c] = (if is_digit c then Some [c] else None)"
| "numeral_digits (c # d # s) =
     (if \<not> is_digit c then None
      else if d = of_char CHR ''_'' then map_option ((#) c) (numeral_digits s)
      else map_option ((#) c) (numeral_digits (d # s)))"

definition int_trim :: "pystr \<Rightarrow> pystr" where
  "int_trim s = rev (dropWhile int_space (rev (dropWhile int_space s)))"

definition unsigned_int :: "pystr \<Rightarrow> int result" where
  "unsigned_int s = (case numeral_digits s of None \<Rightarrow> Inl ValueError | Some ds \<Rightarrow> int_of_digits ds)"

definition py_int :: "pystr \<Rightarrow> int result" where
  "py_int s =
     (case int_trim s of
        [] \<Rightarrow> Inl ValueError
      | c # t \<Rightarrow>
          if c = of_char CHR ''-'' then and_then (unsigned_int t) (\<lambda>i. Inr (- i))
          else if c = of_char CHR ''+'' then unsigned_int t
          else unsigned_int (c # t))"

section \<open>Facts\<close>

lemma numeral_digits_run: "ds \<noteq> [] \<Longrightarrow> \<forall>c \<in> set ds. is_digit c \<Longrightarrow> numeral_digits ds = Some ds"
proof (induction ds rule: numeral_digits.induct)
  case (3 c d s)
  moreover have "d \<noteq> of_char CHR ''_''"
    using "3.prems" digit_ascii_range [of d] by auto
  ultimately show ?case by simp
qed simp_all

lemma int_trim_id: "s \<noteq> [] \<Longrightarrow> \<not> int_space (hd s) \<Longrightarrow> \<not> int_space (last s) \<Longrightarrow> int_trim s = s"
proof (cases s rule: rev_cases)
  case (snoc t c)
  moreover assume "\<not> int_space (hd s)" "\<not> int_space (last s)"
  ultimately have "dropWhile int_space s = s" "\<not> int_space c"
    by (auto simp: dropWhile_eq_self_iff)
  with snoc show ?thesis by (simp add: int_trim_def)
qed simp

lemma ascii_not_space: "48 \<le> c \<Longrightarrow> c \<le> 57 \<Longrightarrow> \<not> int_space c"
  by (auto simp: int_space_def py_isspace_def)

lemma int_trim_digits:
  assumes "s = nat_str n \<or> s = 45 # nat_str n"
  shows "int_trim s = s"
proof (rule int_trim_id)
  show "s \<noteq> []" using assms nat_str_not_Nil [of n] by (metis list.distinct(1))
  have "hd (nat_str n) \<in> set (nat_str n)" "last (nat_str n) \<in> set (nat_str n)" by simp_all
  then have "\<not> int_space (hd (nat_str n))" "\<not> int_space (last (nat_str n))"
    using nat_str_ascii [of n] ascii_not_space by blast+
  moreover have "\<not> int_space 45" by (simp add: int_space_def py_isspace_def)
  ultimately show "\<not> int_space (hd s)" "\<not> int_space (last s)"
    using assms by auto
qed

lemma unsigned_int_nat_str: "length (nat_str n) \<le> int_max_str_digits \<Longrightarrow> unsigned_int (nat_str n) = Inr (int n)"
  using nat_str_digits [of n]
  by (simp add: unsigned_int_def numeral_digits_run int_of_digits_def digits_value_nat_str)

text \<open>\<open>int(str(i))\<close> is \<open>i\<close>, as long as the text is not too long.\<close>

lemma py_int_str:
  assumes "length (nat_str (nat \<bar>i\<bar>)) \<le> int_max_str_digits"
  shows "py_int (int_str i) = Inr i"
proof (cases "i < 0")
  case True
  with assms show ?thesis
    using int_trim_digits [of "45 # nat_str (nat (- i))" "nat (- i)"]
    by (simp add: py_int_def int_str_def unsigned_int_nat_str)
next
  case False
  obtain c t where ct: "nat_str (nat i) = c # t" by (cases "nat_str (nat i)") auto
  then have "c \<noteq> 43" "c \<noteq> 45" using nat_str_ascii [of "nat i"] by auto
  with False assms ct show ?thesis
    using int_trim_digits [of "nat_str (nat i)" "nat i"] unsigned_int_nat_str [of "nat i"]
    by (simp add: py_int_def int_str_def)
qed

end
