(* ===== verification/Pending_Review.thy ===== *)
theory Pending_Review
  imports Db_Models Findings Py_Effects Py_Int
begin

text \<open>
  The publisher that sends all findings as one GitHub review
  (\<^verbatim>\<open>kenjutsu/publisher/pending_review.py\<close>).  The HTTP client's \<open>post\<close> is an operation on an
  arbitrary world.  The state is the publisher object; it also keeps a trace of its requests.
\<close>

section \<open>Comments\<close>

fun severity_badge :: "severity \<Rightarrow> pystr" where
  "severity_badge CRITICAL = [0x1F534] @ u '' **critical**''"
| "severity_badge WARNING = [0x1F7E1] @ u '' **warning**''"
| "severity_badge SUGGESTION = [0x1F4A1] @ u '' **suggestion**''"

fun severity_order :: "severity \<Rightarrow> nat" where
  "severity_order CRITICAL = 0"
| "severity_order WARNING = 1"
| "severity_order SUGGESTION = 2"

definition rate_limit_floor :: int where
  "rate_limit_floor = 20"

definition format_comment_body :: "finding \<Rightarrow> pystr" where
  "format_comment_body f =
     (let body = severity_badge (fd_severity f) @ u ''\<newline>\<newline>'' @ fd_description f
      in case fd_suggestion f of
           Some (c # cs) \<Rightarrow> body @ u ''\<newline>\<newline>```suggestion\<newline>'' @ (c # cs) @ u ''\<newline>```''
         | _ \<Rightarrow> body)"

definition build_comment :: "finding \<Rightarrow> json" where
  "build_comment f = J_Dict
     ([(u ''path'', J_Str (fd_file_path f)), (u ''body'', J_Str (format_comment_body f)),
       (u ''side'', J_Str (u ''RIGHT''))]
      @ (if fd_line_start f = fd_line_end f then [(u ''line'', J_Int (fd_line_end f))]
         else [(u ''start_line'', J_Int (fd_line_start f)), (u ''start_side'', J_Str (u ''RIGHT'')),
               (u ''line'', J_Int (fd_line_end f))]))"

definition finding_publishable :: "finding \<Rightarrow> bool" where
  "finding_publishable f \<longleftrightarrow> fd_publishability f \<in> {PUBLISH, REDACT_AND_PUBLISH}"

section \<open>The publisher\<close>

text \<open>Of an answer: its status, its header \<open>X-RateLimit-Remaining\<close>, and \<open>response.json()\<close>.\<close>

record review_response =
  rr_status :: nat
  rr_remaining :: "pystr option"
  rr_json :: "json result"

type_synonym post_entry = "pystr \<times> json \<times> review_response result"

record 'w pending_publisher =
  pp_owner :: pystr
  pp_repo :: pystr
  pp_pull_number :: int
  pp_rate_limit_remaining :: "int option"
  pp_trace :: "post_entry list"
  pp_world :: 'w

definition new_publisher :: "pystr \<Rightarrow> pystr \<Rightarrow> int \<Rightarrow> 'w \<Rightarrow> 'w pending_publisher" where
  "new_publisher owner repo pull_number w = \<lparr>pp_owner = owner, pp_repo = repo, pp_pull_number = pull_number,
     pp_rate_limit_remaining = None, pp_trace = [], pp_world = w\<rparr>"

text \<open>The constructor: a client given to it is used as it is, otherwise one with the headers of the token is made.\<close>

definition client_headers :: "pystr \<Rightarrow> (pystr \<times> pystr) list" where
  "client_headers token =
     [(u ''Authorization'', u ''Bearer '' @ token), (u ''Accept'', u ''application/vnd.github+json''),
      (u ''X-GitHub-Api-Version'', u ''2022-11-28'')]"

definition init_publisher ::
  "((pystr \<times> pystr) list \<Rightarrow> 'client) \<Rightarrow> pystr \<Rightarrow> pystr \<Rightarrow> pystr \<Rightarrow> int \<Rightarrow> 'client option \<Rightarrow> 'w
     \<Rightarrow> 'client \<times> 'w pending_publisher" where
  "init_publisher make_client token owner repo pull_number client w =
     (case client of Some c \<Rightarrow> c | None \<Rightarrow> make_client (client_headers token), new_publisher owner repo pull_number w)"

definition rate_limit_remaining :: "'w pending_publisher \<Rightarrow> int option" where
  "rate_limit_remaining s = pp_rate_limit_remaining s"

definition near_limit :: "int option \<Rightarrow> bool" where
  "near_limit remaining = (case remaining of None \<Rightarrow> False | Some n \<Rightarrow> n < rate_limit_floor)"

definition near_rate_limit :: "('w pending_publisher, bool) proc" where
  "near_rate_limit = (\<lambda>s. (Inr (near_limit (pp_rate_limit_remaining s)), s))"

definition record_rate_limit :: "review_response \<Rightarrow> ('w pending_publisher, unit) proc" where
  "record_rate_limit response = (\<lambda>s.
     case rr_remaining response of
       None \<Rightarrow> (Inr (), s)
     | Some raw \<Rightarrow>
         (case py_int raw of
            Inl e \<Rightarrow> (Inl e, s)
          | Inr n \<Rightarrow> (Inr (), s\<lparr>pp_rate_limit_remaining := Some n\<rparr>)))"

definition review_raise_for_status :: "review_response \<Rightarrow> ('s, unit) proc" where
  "review_raise_for_status response =
     (if 200 \<le> rr_status response \<and> rr_status response \<le> 299 then return ()
      else raise (HTTPStatusError (rr_status response)))"

definition reviews_url :: "'w pending_publisher \<Rightarrow> pystr" where
  "reviews_url s = u ''https://api.github.com/repos/'' @ pp_owner s @ u ''/'' @ pp_repo s
     @ u ''/pulls/'' @ int_str (pp_pull_number s) @ u ''/reviews''"

definition client_post ::
  "(pystr \<Rightarrow> json \<Rightarrow> ('w, review_response) proc) \<Rightarrow> json \<Rightarrow> ('w pending_publisher, review_response) proc" where
  "client_post post payload = (\<lambda>s. case post (reviews_url s) payload (pp_world s) of (r, w) \<Rightarrow>
     (r, s\<lparr>pp_world := w, pp_trace := pp_trace s @ [(reviews_url s, payload, r)]\<rparr>))"

definition selected_findings :: "finding list \<Rightarrow> bool \<Rightarrow> finding list" where
  "selected_findings findings near =
     (let publishable = sort_key (\<lambda>f. severity_order (fd_severity f)) (filter finding_publishable findings)
      in if near then filter (\<lambda>f. fd_severity f = CRITICAL) publishable else publishable)"

definition review_payload :: "pystr \<Rightarrow> finding list \<Rightarrow> json" where
  "review_payload body publishable = J_Dict
     [(u ''body'', J_Str body), (u ''event'', J_Str (u ''COMMENT'')),
      (u ''comments'', J_List (map build_comment publishable))]"

definition publish ::
  "(pystr \<Rightarrow> json \<Rightarrow> ('w, review_response) proc) \<Rightarrow> finding list \<Rightarrow> pystr \<Rightarrow> ('w pending_publisher, json) proc" where
  "publish post findings body =
     seq near_rate_limit (\<lambda>near.
     seq (client_post post (review_payload body (selected_findings findings near))) (\<lambda>response.
     seq (record_rate_limit response) (\<lambda>_.
     seq (review_raise_for_status response) (\<lambda>_.
     seq near_rate_limit (\<lambda>near'.
       if near' then raise RateLimitExceededError else (\<lambda>s. (rr_json response, s)))))))"

section \<open>What is selected\<close>

text \<open>The reference: the findings of each severity in turn, in their own order.\<close>

definition of_severity :: "severity \<Rightarrow> finding list \<Rightarrow> finding list" where
  "of_severity sev findings =
     [f \<leftarrow> findings. (fd_publishability f = PUBLISH \<or> fd_publishability f = REDACT_AND_PUBLISH) \<and> fd_severity f = sev]"

lemma publishable_iff: "finding_publishable f \<longleftrightarrow> fd_publishability f = PUBLISH \<or> fd_publishability f = REDACT_AND_PUBLISH"
  by (auto simp: finding_publishable_def)

definition by_severity :: "finding list \<Rightarrow> finding list" where
  "by_severity findings = of_severity CRITICAL findings @ of_severity WARNING findings @ of_severity SUGGESTION findings"

lemma severity_order_eq: "severity_order a = severity_order b \<longleftrightarrow> a = b"
  by (cases a; cases b) simp_all

text \<open>The severities are ordered as the publisher sends them.\<close>

instantiation severity :: linorder
begin

definition less_eq_severity :: "severity \<Rightarrow> severity \<Rightarrow> bool" where
  "less_eq_severity a b \<longleftrightarrow> severity_order a \<le> severity_order b"

definition less_severity :: "severity \<Rightarrow> severity \<Rightarrow> bool" where
  "less_severity a b \<longleftrightarrow> severity_order a < severity_order b"

instance
  by standard (auto simp: less_eq_severity_def less_severity_def severity_order_eq)

end

lemma sorted_by_severity: "sorted (map fd_severity (sort_key (\<lambda>f. severity_order (fd_severity f)) fs))"
proof -
  have "sorted (map severity_order ss) \<Longrightarrow> sorted ss" for ss
    by (induction ss) (auto simp: less_eq_severity_def)
  moreover have "sorted (map severity_order (map fd_severity (sort_key (\<lambda>f. severity_order (fd_severity f)) fs)))"
    using sorted_sort_key [of "\<lambda>f. severity_order (fd_severity f)" fs] by (simp add: comp_def)
  ultimately show ?thesis by blast
qed

lemma insort_key_append:
  "(\<forall>x \<in> set xs. f x < f a) \<Longrightarrow> insort_key f a (xs @ ys) = xs @ insort_key f a ys"
  by (induction xs) auto

lemma insort_key_front: "(\<forall>x \<in> set ys. f a \<le> f x) \<Longrightarrow> insort_key f a ys = a # ys"
  by (cases ys) auto

lemma sort_by_severity:
  "sort_key (\<lambda>f. severity_order (fd_severity f)) (filter finding_publishable findings) = by_severity findings"
proof (induction findings)
  case (Cons f fs)
  show ?case
  proof (cases "finding_publishable f")
    case True
    let ?key = "\<lambda>f. severity_order (fd_severity f)"
    have "insort_key ?key f (by_severity fs) = by_severity (f # fs)"
    proof (cases "fd_severity f")
      case CRITICAL
      then show ?thesis
        using True by (simp add: by_severity_def of_severity_def insort_key_front publishable_iff)
    next
      case WARNING
      then have "insort_key ?key f (by_severity fs)
          = of_severity CRITICAL fs @ insort_key ?key f (of_severity WARNING fs @ of_severity SUGGESTION fs)"
        unfolding by_severity_def by (intro insort_key_append) (auto simp: of_severity_def)
      also have "insort_key ?key f (of_severity WARNING fs @ of_severity SUGGESTION fs)
          = f # of_severity WARNING fs @ of_severity SUGGESTION fs"
        using WARNING by (intro insort_key_front) (auto simp: of_severity_def)
      finally show ?thesis using WARNING True by (simp add: by_severity_def of_severity_def publishable_iff)
    next
      case SUGGESTION
      then have "insort_key ?key f (by_severity fs)
          = (of_severity CRITICAL fs @ of_severity WARNING fs) @ insort_key ?key f (of_severity SUGGESTION fs)"
        unfolding by_severity_def append_assoc [symmetric]
        by (intro insort_key_append) (auto simp: of_severity_def)
      also have "insort_key ?key f (of_severity SUGGESTION fs) = f # of_severity SUGGESTION fs"
        using SUGGESTION by (intro insort_key_front) (auto simp: of_severity_def)
      finally show ?thesis using SUGGESTION True by (simp add: by_severity_def of_severity_def publishable_iff)
    qed
    with Cons True show ?thesis by simp
  next
    case False
    with Cons show ?thesis by (simp add: by_severity_def of_severity_def publishable_iff)
  qed
qed (simp add: by_severity_def of_severity_def)

lemma selected_eq:
  "selected_findings findings near = (if near then of_severity CRITICAL findings else by_severity findings)"
  unfolding selected_findings_def Let_def sort_by_severity
  by (simp add: by_severity_def of_severity_def filter_empty_conv filter_id_conv)

text \<open>The comments of a review are ordered by severity, near the limit too.\<close>

lemma selected_sorted: "sorted (map fd_severity (selected_findings findings near))"
  by (simp add: selected_findings_def Let_def sorted_by_severity sorted_filter)

section \<open>One call\<close>

text \<open>What the publisher knows of the rate limit after an answer.\<close>

definition read_limit :: "review_response \<Rightarrow> int option \<Rightarrow> int option result" where
  "read_limit response old =
     (case rr_remaining response of None \<Rightarrow> Inr old | Some raw \<Rightarrow> and_then (py_int raw) (\<lambda>n. Inr (Some n)))"

text \<open>The reference: fewer than 20 requests are left, as far as GitHub has said.\<close>

definition few_left :: "int option \<Rightarrow> bool" where
  "few_left remaining \<longleftrightarrow> (\<exists>n < 20. remaining = Some n)"

lemma near_limit_iff: "near_limit remaining \<longleftrightarrow> few_left remaining"
  by (auto simp: near_limit_def few_left_def rate_limit_floor_def split: option.split)

definition review_accepted :: "review_response \<Rightarrow> bool" where
  "review_accepted response \<longleftrightarrow> 200 \<le> rr_status response \<and> rr_status response \<le> 299"

text \<open>The result of a call, from the answer alone.\<close>

definition publish_result :: "review_response result \<Rightarrow> int option \<Rightarrow> json result" where
  "publish_result answer old =
     and_then answer (\<lambda>response.
     and_then (read_limit response old) (\<lambda>remaining.
       if \<not> review_accepted response then Inl (HTTPStatusError (rr_status response))
       else if few_left remaining then Inl RateLimitExceededError
       else rr_json response))"

definition limit_after :: "review_response result \<Rightarrow> int option \<Rightarrow> int option" where
  "limit_after answer old =
     (case and_then answer (\<lambda>response. read_limit response old) of Inl _ \<Rightarrow> old | Inr n \<Rightarrow> n)"

lemma publish_run:
  assumes "post (reviews_url s) (review_payload body (selected_findings findings (near_limit (pp_rate_limit_remaining s))))
      (pp_world s) = (answer, w)"
  shows "publish post findings body s =
    (publish_result answer (pp_rate_limit_remaining s),
     s\<lparr>pp_world := w,
       pp_trace := pp_trace s @ [(reviews_url s,
         review_payload body (selected_findings findings (near_limit (pp_rate_limit_remaining s))), answer)],
       pp_rate_limit_remaining := limit_after answer (pp_rate_limit_remaining s)\<rparr>)"
proof (cases answer)
  case (Inl e)
  with assms show ?thesis
    by (simp add: publish_def seq_def near_rate_limit_def client_post_def publish_result_def limit_after_def)
next
  case (Inr response)
  with assms show ?thesis
    by (cases "rr_remaining response"; cases "py_int (the (rr_remaining response))")
      (auto simp: publish_def seq_def near_rate_limit_def client_post_def publish_result_def limit_after_def
        record_rate_limit_def read_limit_def review_raise_for_status_def review_accepted_def return_def raise_def
        near_limit_iff)
qed

text \<open>
  A call of the publisher makes exactly one request, to the reviews of its pull
  request.  The comments are those of the publishable findings, critical ones first, then
  warnings, then suggestions, each in their given order; when fewer than 20 requests were left,
  those of the critical findings only.  The result is determined by the answer: an unreadable
  header and a status outside 200 to 299 raise; fewer than 20 requests left raises
  \<open>RateLimitExceededError\<close> although the review was accepted; else the answer's JSON is returned.
\<close>

theorem publish_exact:
  "\<exists>answer w.
     post (reviews_url s) (review_payload body
        (if near_limit (pp_rate_limit_remaining s) then of_severity CRITICAL findings else by_severity findings))
        (pp_world s) = (answer, w)
     \<and> publish post findings body s =
       (publish_result answer (pp_rate_limit_remaining s),
        s\<lparr>pp_world := w,
          pp_trace := pp_trace s @ [(reviews_url s, review_payload body
             (if near_limit (pp_rate_limit_remaining s) then of_severity CRITICAL findings else by_severity findings),
             answer)],
          pp_rate_limit_remaining := limit_after answer (pp_rate_limit_remaining s)\<rparr>)"
proof -
  obtain answer w where "post (reviews_url s) (review_payload body
      (selected_findings findings (near_limit (pp_rate_limit_remaining s)))) (pp_world s) = (answer, w)"
    by (metis surj_pair)
  from publish_run [of post, OF this] this show ?thesis
    by (intro exI [of _ answer] exI [of _ w]) (simp add: selected_eq)
qed

section \<open>A sequence of calls\<close>

text \<open>Calls on one publisher, with their results; the caller goes on after an exception.\<close>

fun publish_batches ::
  "(pystr \<Rightarrow> json \<Rightarrow> ('w, review_response) proc) \<Rightarrow> (finding list \<times> pystr) list
     \<Rightarrow> 'w pending_publisher \<Rightarrow> json result list \<times> 'w pending_publisher" where
  "publish_batches post [] s = ([], s)"
| "publish_batches post ((findings, body) # bs) s =
     (case publish post findings body s of (r, s') \<Rightarrow>
      case publish_batches post bs s' of (rs, s'') \<Rightarrow> (r # rs, s''))"

definition limit_of_trace :: "post_entry list \<Rightarrow> int option" where
  "limit_of_trace tr = fold (\<lambda>(_, _, answer). limit_after answer) tr None"

text \<open>The \<open>i\<close>-th request of the calls is for the \<open>i\<close>-th batch, thinned out when GitHub's last word
  on the limit was below 20.\<close>

definition batch_request :: "(finding list \<times> pystr) list \<Rightarrow> post_entry list \<Rightarrow> post_entry \<Rightarrow> bool" where
  "batch_request bs before entry \<longleftrightarrow>
     (case entry of (url, payload, answer) \<Rightarrow>
       length before < length bs
       \<and> (let (findings, body) = bs ! length before
          in payload = review_payload body
            (if few_left (limit_of_trace before) then of_severity CRITICAL findings else by_severity findings)))"

text \<open>The results that the answers call for.\<close>

definition outcomes :: "post_entry list \<Rightarrow> json result list" where
  "outcomes tr = map (\<lambda>i. publish_result (snd (snd (tr ! i))) (limit_of_trace (take i tr))) [0..<length tr]"

lemma outcomes_snoc [simp]:
  "outcomes [] = []"
  "outcomes (tr @ [e]) = outcomes tr @ [publish_result (snd (snd e)) (limit_of_trace tr)]"
  by (simp_all add: outcomes_def nth_append)

definition counts_batches :: "(finding list \<times> pystr) list \<Rightarrow> json result list \<Rightarrow> 'w pending_publisher \<Rightarrow> bool" where
  "counts_batches bs rs s \<longleftrightarrow> pp_rate_limit_remaining s = limit_of_trace (pp_trace s)
     \<and> all_steps (batch_request bs) (pp_trace s) \<and> rs = outcomes (pp_trace s)"

lemma limit_of_trace_snoc [simp]:
  "limit_of_trace [] = None"
  "limit_of_trace (tr @ [(url, payload, answer)]) = limit_after answer (limit_of_trace tr)"
  by (simp_all add: limit_of_trace_def)

lemma publish_counts:
  assumes "counts_batches bs rs s" "length (pp_trace s) < length bs" "bs ! length (pp_trace s) = (findings, body)"
    and "publish post findings body s = (r, s')"
  shows "counts_batches bs (rs @ [r]) s' \<and> length (pp_trace s') = Suc (length (pp_trace s))"
proof -
  obtain answer w where "publish post findings body s =
       (publish_result answer (pp_rate_limit_remaining s),
        s\<lparr>pp_world := w,
          pp_trace := pp_trace s @ [(reviews_url s, review_payload body
             (selected_findings findings (near_limit (pp_rate_limit_remaining s))), answer)],
          pp_rate_limit_remaining := limit_after answer (pp_rate_limit_remaining s)\<rparr>)"
    using publish_run [of post s body findings] by (metis surj_pair)
  with assms show ?thesis
    by (auto simp: counts_batches_def batch_request_def selected_eq near_limit_iff)
qed

lemma batches_counted:
  assumes "counts_batches bs rs s" "drop (length (pp_trace s)) bs = rest" "publish_batches post rest s = (rs', s')"
  shows "counts_batches bs (rs @ rs') s' \<and> length (pp_trace s') = length (pp_trace s) + length rest"
  using assms
proof (induction rest arbitrary: s rs rs')
  case (Cons b rest)
  obtain findings body where b: "b = (findings, body)" by (metis surj_pair)
  obtain r m where call: "publish post findings body s = (r, m)" by (metis surj_pair)
  obtain rs'' where more: "publish_batches post rest m = (rs'', s')" "rs' = r # rs''"
    using Cons.prems(3) b call by (auto split: prod.split_asm)
  have n: "length (pp_trace s) < length bs"
    using Cons.prems(2) by (metis drop_all list.distinct(1) not_le)
  then have step: "bs ! length (pp_trace s) = (findings, body)" "drop (Suc (length (pp_trace s))) bs = rest"
    using Cons.prems(2) b by (simp_all add: Cons_nth_drop_Suc [symmetric])
  note next_state = publish_counts [OF Cons.prems(1) n step(1) call]
  with Cons.IH [of "rs @ [r]" m rs''] step(2) more show ?case by simp
qed simp

text \<open>
  Claim C28.  Over any sequence of calls, whatever GitHub answers and whichever calls raise, there
  is one request per call, also below the limit.  A request carries the publishable findings of its
  call, critical ones first, then the warnings, then the suggestions; but when the last readable
  rate-limit header before it, if any, left fewer than 20 requests, the critical ones only.  A call
  whose own answer leaves fewer than 20 requests raises \<open>RateLimitExceededError\<close> after the review was
  accepted; an error status and an unreadable header raise as well, and every other call returns the answer's JSON.
\<close>

theorem publisher_backs_off:
  "case publish_batches post bs (new_publisher owner repo n w) of (results, s) \<Rightarrow>
     length (pp_trace s) = length bs \<and> all_steps (batch_request bs) (pp_trace s) \<and> results = outcomes (pp_trace s)"
proof -
  let ?s = "new_publisher owner repo n w"
  obtain results s where run: "publish_batches post bs ?s = (results, s)" by (metis surj_pair)
  have "counts_batches bs [] ?s" "drop (length (pp_trace ?s)) bs = bs" "pp_trace ?s = []"
    by (simp_all add: counts_batches_def new_publisher_def)
  with batches_counted [of bs "[]" ?s bs post results s] run show ?thesis by (simp add: counts_batches_def)
qed

section \<open>Observations\<close>

text \<open>Nothing is redacted: the comment of a finding to be redacted shows its whole description.\<close>

lemma redacted_comment_in_full:
  "build_comment (f\<lparr>fd_publishability := REDACT_AND_PUBLISH\<rparr>) = build_comment (f\<lparr>fd_publishability := PUBLISH\<rparr>)
   \<and> (\<exists>pre post. format_comment_body (f\<lparr>fd_publishability := REDACT_AND_PUBLISH\<rparr>) = pre @ fd_description f @ post)"
proof
  have "format_comment_body (f\<lparr>fd_publishability := REDACT_AND_PUBLISH\<rparr>)
      = (severity_badge (fd_severity f) @ u ''\<newline>\<newline>'') @ fd_description f @
        (case fd_suggestion f of Some (c # cs) \<Rightarrow> u ''\<newline>\<newline>```suggestion\<newline>'' @ (c # cs) @ u ''\<newline>```'' | _ \<Rightarrow> [])"
    by (simp add: format_comment_body_def del: u_Cons split: option.split list.split)
  then show "\<exists>pre post. format_comment_body (f\<lparr>fd_publishability := REDACT_AND_PUBLISH\<rparr>) = pre @ fd_description f @ post"
    by blast
qed (simp add: build_comment_def format_comment_body_def)

text \<open>An unreadable header raises \<open>ValueError\<close> for a review that GitHub has accepted.\<close>

lemma accepted_review_raises:
  "rr_remaining response = Some raw \<Longrightarrow> py_int raw = Inl ValueError
     \<Longrightarrow> publish_result (Inr response) old = Inl ValueError"
  by (simp add: publish_result_def read_limit_def)

text \<open>Near the limit a request is sent even when there is nothing to say.\<close>

lemma empty_review_near_limit:
  "near_limit (pp_rate_limit_remaining s) \<Longrightarrow>
     pp_trace (snd (publish post [] [] s)) = pp_trace s @ [(reviews_url s, review_payload [] [],
       fst (post (reviews_url s) (review_payload [] []) (pp_world s)))]"
  using publish_run [of post s "[]" "[]" "fst (post (reviews_url s) (review_payload [] []) (pp_world s))"
    "snd (post (reviews_url s) (review_payload [] []) (pp_world s))"]
  by (simp add: selected_eq of_severity_def)

end
