(* ===== verification/Audit_Log.thy ===== *)
theory Audit_Log
  imports Db_Models Py_Effects
begin

text \<open>
  Audit records (\<^verbatim>\<open>kenjutsu/publisher/audit.py\<close>).  The table is the list of its rows in the order
  of insertion.  What PostgreSQL decides of an insertion is a parameter: the generated id and
  time stamp, or a refusal (a foreign key, a lost connection).  \<open>detail_json\<close> is the JSON value
  whose text \<open>json.dumps\<close> sends.
\<close>

datatype audit_action = REVIEW_COMPLETE

fun audit_action_value :: "audit_action \<Rightarrow> pystr" where
  "audit_action_value REVIEW_COMPLETE = u ''review_complete''"

record audit_record =
  ad_installation_id :: uuid
  ad_repo_id :: uuid
  ad_action :: audit_action
  ad_detail_json :: "(pystr \<times> json) list"

text \<open>The row of a record, given the defaults of the table.\<close>

definition audit_row :: "audit_record \<Rightarrow> uuid \<Rightarrow> rat \<Rightarrow> audit_log_row" where
  "audit_row r new_id now = \<lparr>al_id = new_id, al_installation_id = ad_installation_id r,
     al_repo_id = Some (ad_repo_id r), al_action = audit_action_value (ad_action r),
     al_detail_json = J_Dict (ad_detail_json r), al_created_at = now\<rparr>"

record 'w audit_db =
  ab_audit_log :: "audit_log_row list"
  ab_world :: 'w

definition write_audit_record ::
  "(audit_record \<Rightarrow> ('w, uuid \<times> rat) proc) \<Rightarrow> audit_record \<Rightarrow> ('w audit_db, uuid) proc" where
  "write_audit_record defaults record = (\<lambda>s.
     case defaults record (ab_world s) of
       (Inl e, w) \<Rightarrow> (Inl e, s\<lparr>ab_world := w\<rparr>)
     | (Inr (new_id, now), w) \<Rightarrow>
         (Inr new_id, s\<lparr>ab_world := w, ab_audit_log := ab_audit_log s @ [audit_row record new_id now]\<rparr>))"

fun write_all ::
  "(audit_record \<Rightarrow> ('w, uuid \<times> rat) proc) \<Rightarrow> audit_record list \<Rightarrow> 'w audit_db \<Rightarrow> uuid result list \<times> 'w audit_db" where
  "write_all defaults [] s = ([], s)"
| "write_all defaults (r # rs) s =
     (let (res, s') = write_audit_record defaults r s; (ress, s'') = write_all defaults rs s' in (res # ress, s''))"

text \<open>The records that were written, with the ids that were returned for them.\<close>

fun written :: "audit_record list \<Rightarrow> uuid result list \<Rightarrow> (uuid \<times> uuid \<times> uuid option \<times> pystr \<times> json) list" where
  "written (r # rs) (Inr i # ress) =
     (i, ad_installation_id r, Some (ad_repo_id r), audit_action_value (ad_action r), J_Dict (ad_detail_json r))
       # written rs ress"
| "written (r # rs) (Inl e # ress) = written rs ress"
| "written _ _ = []"

definition row_content :: "audit_log_row \<Rightarrow> uuid \<times> uuid \<times> uuid option \<times> pystr \<times> json" where
  "row_content row = (al_id row, al_installation_id row, al_repo_id row, al_action row, al_detail_json row)"

text \<open>
  The audit log is append-only: over any sequence of calls, some of which the database
  refuses, the rows that were there stay as they are, and behind them stands one row for each
  call that returned, in the order of the calls, with the returned id and the call's record.
\<close>

theorem audit_append_only:
  "length (fst (write_all defaults rs s)) = length rs
   \<and> (\<exists>new. ab_audit_log (snd (write_all defaults rs s)) = ab_audit_log s @ new
        \<and> map row_content new = written rs (fst (write_all defaults rs s)))"
proof (induction rs arbitrary: s)
  case (Cons r rs)
  obtain res s' where one: "write_audit_record defaults r s = (res, s')" by (metis surj_pair)
  obtain ress s'' where rest: "write_all defaults rs s' = (ress, s'')" by (metis surj_pair)
  from Cons [of s'] rest obtain new where new: "length ress = length rs"
      "ab_audit_log s'' = ab_audit_log s' @ new" "map row_content new = written rs ress"
    by auto
  show ?case
  proof (cases res)
    case (Inl e)
    with one have "ab_audit_log s' = ab_audit_log s"
      by (auto simp: write_audit_record_def split: prod.split_asm sum.split_asm)
    with one rest new Inl show ?thesis by simp
  next
    case (Inr i)
    with one obtain now where "ab_audit_log s' = ab_audit_log s @ [audit_row r i now]"
      by (auto simp: write_audit_record_def split: prod.split_asm sum.split_asm)
    moreover have "row_content (audit_row r i now) = (i, ad_installation_id r, Some (ad_repo_id r),
        audit_action_value (ad_action r), J_Dict (ad_detail_json r))"
      by (simp add: audit_row_def row_content_def)
    ultimately show ?thesis using one rest new Inr by simp
  qed
qed simp

end
