(* ===== verification/Commands.thy ===== *)
theory Commands
  imports Findings
begin

text \<open>
  The slash command parser (\<^verbatim>\<open>kenjutsu/server/commands.py\<close>).  The regular expression can match
  only from the start of a line to its end, so the search is a search for the first line that
  matches; lines end at a newline character only, as \<open>re.MULTILINE\<close> has it.
\<close>

datatype command_kind = REVIEW | IGNORE

record parsed_command =
  cm_kind :: command_kind
  cm_file_path :: "pystr option"

text \<open>The four texts of \<open>ParseError\<close>.\<close>

datatype parse_error =
    Missing_Subcommand
  | Too_Many_For_Review nat
  | Too_Many_For_Ignore nat
  | Unknown_Command pystr

definition is_blank :: "pychar \<Rightarrow> bool" where
  "is_blank c \<longleftrightarrow> c = 32 \<or> c = 9"

text \<open>Group 1 of \<open>^[ \t]*/kenjutsu([ \t]+\S.*|[ \t]*$)\<close> on a line.\<close>

definition match_command :: "pystr \<Rightarrow> pystr option" where
  "match_command line =
     (let s = dropWhile is_blank line; rest = drop (length (u ''/kenjutsu'')) s;
          word = dropWhile is_blank rest
      in if \<not> starts_with s (u ''/kenjutsu'') then None
         else if word = [] then Some rest
         else if is_blank (hd rest) \<and> \<not> py_isspace (hd word) then Some rest
         else None)"

definition search_command :: "pystr \<Rightarrow> pystr option" where
  "search_command comment_body =
     (case filter (\<lambda>l. match_command l \<noteq> None) (split_on 10 comment_body) of
        [] \<Rightarrow> None
      | l # _ \<Rightarrow> match_command l)"

definition command_of_tokens :: "pystr list \<Rightarrow> parse_error + parsed_command" where
  "command_of_tokens tokens =
     (case tokens of
        [] \<Rightarrow> Inl Missing_Subcommand
      | subcommand # args \<Rightarrow>
          if subcommand = u ''review'' then
            (if length args > 1 then Inl (Too_Many_For_Review (length args))
             else Inr \<lparr>cm_kind = REVIEW, cm_file_path = (case args of [] \<Rightarrow> None | a # _ \<Rightarrow> Some a)\<rparr>)
          else if subcommand = u ''ignore'' then
            (if args \<noteq> [] then Inl (Too_Many_For_Ignore (length args))
             else Inr \<lparr>cm_kind = IGNORE, cm_file_path = None\<rparr>)
          else Inl (Unknown_Command subcommand))"

definition parse_command :: "pystr \<Rightarrow> parse_error + parsed_command option" where
  "parse_command comment_body =
     (case search_command comment_body of
        None \<Rightarrow> Inr None
      | Some group1 \<Rightarrow>
          (let rest = strip group1; tokens = (if rest = [] then [] else split_ws rest)
           in and_then (command_of_tokens tokens) (\<lambda>c. Inr (Some c))))"

section \<open>Facts\<close>

lemma split_ws_step:
  "dropWhile py_isspace s = r \<Longrightarrow> r \<noteq> [] \<Longrightarrow>
     split_ws s = takeWhile (\<lambda>c. \<not> py_isspace c) r # split_ws (dropWhile (\<lambda>c. \<not> py_isspace c) r)"
  "dropWhile py_isspace s = [] \<Longrightarrow> split_ws s = []"
  by (simp_all only: split_ws.simps [of s] Let_def if_True if_False simp_thms)

lemma split_ws_spaces: "\<forall>c \<in> set w. py_isspace c \<Longrightarrow> split_ws w = []"
  by (simp add: split_ws_step(2))

text \<open>A last word without white space is the same word before trailing white space.\<close>

lemma split_ws_last_word:
  assumes d: "dropWhile py_isspace (t @ w) = dropWhile py_isspace t @ w" and t: "dropWhile py_isspace t \<noteq> []"
    and word: "\<forall>c \<in> set (dropWhile py_isspace t). \<not> py_isspace c" and w: "\<forall>c \<in> set w. py_isspace c"
  shows "split_ws (t @ w) = split_ws t"
proof -
  let ?t = "dropWhile py_isspace t"
  have "w = [] \<or> \<not> \<not> py_isspace (hd w)" using w by (cases w) auto
  note stop = takeWhile_stop [OF word this] dropWhile_stop [OF word this]
  moreover have "takeWhile (\<lambda>c. \<not> py_isspace c) ?t = ?t" "dropWhile (\<lambda>c. \<not> py_isspace c) ?t = []"
    using takeWhile_stop [OF word, of "[]"] dropWhile_stop [OF word, of "[]"] by simp_all
  ultimately show ?thesis
    using t split_ws_spaces [OF w]
    by (simp only: stop split_ws_step(1) [OF d] split_ws_step(1) [OF refl t] split_ws_Nil
        append_is_Nil_conv simp_thms)
qed

lemma split_ws_trailing:
  assumes w: "\<forall>c \<in> set w. py_isspace c"
  shows "split_ws (t @ w) = split_ws t"
proof (induction t rule: split_ws.induct)
  case (1 t)
  let ?t = "dropWhile py_isspace t"
  show ?case
  proof (cases "?t = []")
    case True
    with w have "dropWhile py_isspace (t @ w) = []" by auto
    with True show ?thesis by (subst (1 2) split_ws.simps) (simp del: dropWhile_eq_Nil_conv)
  next
    case False
    then have d: "dropWhile py_isspace (t @ w) = ?t @ w" by (auto simp: dropWhile_append)
    show ?thesis
    proof (cases "\<exists>c \<in> set ?t. py_isspace c")
      case True
      then have "takeWhile (\<lambda>c. \<not> py_isspace c) (?t @ w) = takeWhile (\<lambda>c. \<not> py_isspace c) ?t"
        "dropWhile (\<lambda>c. \<not> py_isspace c) (?t @ w) = dropWhile (\<lambda>c. \<not> py_isspace c) ?t @ w"
        by (auto simp: takeWhile_append dropWhile_append)
      with 1 False d show ?thesis
        by (simp add: split_ws_step(1) [OF d] split_ws_step(1) [OF refl False])
    qed (use split_ws_last_word [OF d False _ w] in blast)
  qed
qed

lemma split_ws_strip: "split_ws (strip s) = split_ws s"
proof -
  have lead: "split_ws (lstrip t) = split_ws t" for t
    by (subst (1 2) split_ws.simps) (simp add: lstrip_def)
  obtain w where "lstrip s = strip s @ w" "\<forall>c \<in> set w. py_isspace c"
  proof
    show "lstrip s = strip s @ rev (takeWhile py_isspace (rev (lstrip s)))"
      by (simp add: strip_def rstrip_def flip: rev_append)
  qed (auto dest: set_takeWhileD)
  then have "split_ws (lstrip s) = split_ws (strip s)" using split_ws_trailing by simp
  then show ?thesis by (simp add: lead)
qed

lemma parse_command_eq:
  "parse_command body = (case search_command body of None \<Rightarrow> Inr None
     | Some group1 \<Rightarrow> and_then (command_of_tokens (split_ws group1)) (\<lambda>c. Inr (Some c)))"
proof -
  have "(if strip g = [] then [] else split_ws (strip g)) = split_ws g" for g
    using split_ws_strip [of g] by auto
  then show ?thesis
    unfolding parse_command_def Let_def by (simp split: option.split)
qed

section \<open>The regular expression\<close>

text \<open>Its meaning on a line: \<open>line\<close> matches with group 1 \<open>g\<close>.\<close>

definition regex_line :: "pystr \<Rightarrow> pystr \<Rightarrow> bool" where
  "regex_line line g \<longleftrightarrow>
     (\<exists>indent. line = indent @ u ''/kenjutsu'' @ g \<and> list_all is_blank indent
        \<and> (list_all is_blank g
           \<or> (\<exists>gap c t. g = gap @ c # t \<and> gap \<noteq> [] \<and> list_all is_blank gap \<and> \<not> py_isspace c)))"

lemma blank_space: "is_blank c \<Longrightarrow> py_isspace c"
  by (auto simp: is_blank_def py_isspace_def)

lemma drop_blanks: "list_all is_blank d \<Longrightarrow> r = [] \<or> \<not> is_blank (hd r) \<Longrightarrow> dropWhile is_blank (d @ r) = r"
  by (intro dropWhile_stop) (simp_all add: list_all_iff)

lemma blanks_prefix: "\<exists>d. s = d @ dropWhile is_blank s \<and> list_all is_blank d"
proof
  show "s = takeWhile is_blank s @ dropWhile is_blank s \<and> list_all is_blank (takeWhile is_blank s)"
    by (auto simp: list_all_iff dest: set_takeWhileD)
qed

text \<open>What the matcher and the expression ask of the text after the name.\<close>

definition tail_ok :: "pystr \<Rightarrow> bool" where
  "tail_ok g \<longleftrightarrow> dropWhile is_blank g = [] \<or> is_blank (hd g) \<and> \<not> py_isspace (hd (dropWhile is_blank g))"

lemma tail_ok_iff:
  "tail_ok g \<longleftrightarrow> list_all is_blank g \<or> (\<exists>gap c t. g = gap @ c # t \<and> gap \<noteq> [] \<and> list_all is_blank gap \<and> \<not> py_isspace c)"
proof
  assume ok: "tail_ok g"
  obtain gap where gap: "g = gap @ dropWhile is_blank g" "list_all is_blank gap" using blanks_prefix by blast
  show "list_all is_blank g \<or> (\<exists>gap c t. g = gap @ c # t \<and> gap \<noteq> [] \<and> list_all is_blank gap \<and> \<not> py_isspace c)"
  proof (cases "dropWhile is_blank g")
    case Nil
    then show ?thesis by (simp add: list_all_iff)
  next
    case (Cons c t)
    then have h: "is_blank (hd g)" "\<not> py_isspace c" using ok by (simp_all add: tail_ok_def)
    then have "gap \<noteq> []" using gap Cons blank_space by (metis append_Nil list.sel(1))
    with gap h Cons show ?thesis by metis
  qed
next
  assume "list_all is_blank g \<or> (\<exists>gap c t. g = gap @ c # t \<and> gap \<noteq> [] \<and> list_all is_blank gap \<and> \<not> py_isspace c)"
  then show "tail_ok g"
  proof (elim disjE exE conjE)
    fix gap c t assume *: "g = gap @ c # t" "gap \<noteq> []" "list_all is_blank gap" "\<not> py_isspace c"
    then have "dropWhile is_blank (gap @ c # t) = c # t" using blank_space by (intro drop_blanks) auto
    with * show ?thesis by (cases gap) (auto simp: tail_ok_def)
  qed (simp add: tail_ok_def list_all_iff)
qed

lemma match_command_tail:
  "match_command line = Some g \<longleftrightarrow> dropWhile is_blank line = u ''/kenjutsu'' @ g \<and> tail_ok g"
proof -
  have rest: "drop (length (u ''/kenjutsu'')) (u ''/kenjutsu'' @ g) = g" by simp
  have name: "dropWhile is_blank line = u ''/kenjutsu'' @ g" if "match_command line = Some g"
    using that unfolding match_command_def Let_def starts_with_def
    by (metis append_take_drop_id length_u option.distinct(1) option.inject)
  show ?thesis
  proof (cases "dropWhile is_blank line = u ''/kenjutsu'' @ g")
    case True
    then show ?thesis
      unfolding match_command_def Let_def True rest tail_ok_def by (auto split: if_split_asm simp del: u_Cons)
  qed (use name in blast)
qed

lemma match_command_regex: "match_command line = Some g \<longleftrightarrow> regex_line line g"
proof -
  have "dropWhile is_blank line = u ''/kenjutsu'' @ g \<longleftrightarrow> (\<exists>indent. line = indent @ u ''/kenjutsu'' @ g \<and> list_all is_blank indent)"
  proof
    show "\<exists>indent. line = indent @ u ''/kenjutsu'' @ g \<and> list_all is_blank indent"
      if "dropWhile is_blank line = u ''/kenjutsu'' @ g"
      using blanks_prefix [of line] unfolding that by blast
    show "dropWhile is_blank line = u ''/kenjutsu'' @ g"
      if "\<exists>indent. line = indent @ u ''/kenjutsu'' @ g \<and> list_all is_blank indent"
      using that by (elim exE conjE) (hypsubst, rule drop_blanks, simp_all add: is_blank_def)
  qed
  then show ?thesis
    unfolding match_command_tail tail_ok_iff regex_line_def by blast
qed

lemma search_command_None: "search_command body = None \<longleftrightarrow> list_all (\<lambda>l. match_command l = None) (split_on 10 body)"
proof -
  let ?hits = "filter (\<lambda>l. match_command l \<noteq> None) (split_on 10 body)"
  have hits: "?hits = [] \<longleftrightarrow> list_all (\<lambda>l. match_command l = None) (split_on 10 body)"
    by (simp add: filter_empty_conv list_all_iff)
  show ?thesis
  proof (cases ?hits)
    case Nil
    with hits show ?thesis by (simp add: search_command_def)
  next
    case (Cons l ls)
    then have "l \<in> set ?hits" by (simp only: list.set_intros)
    then have "match_command l \<noteq> None" by simp
    with Cons hits show ?thesis by (simp add: search_command_def)
  qed
qed

section \<open>Well-formed commands\<close>

fun wf_command :: "parsed_command \<Rightarrow> bool" where
  "wf_command c = (case cm_kind c of
       REVIEW \<Rightarrow> (case cm_file_path c of None \<Rightarrow> True | Some p \<Rightarrow> is_word p)
     | IGNORE \<Rightarrow> cm_file_path c = None)"

lemma command_of_tokens_wf:
  "command_of_tokens tokens = Inr c \<Longrightarrow> list_all is_word tokens \<Longrightarrow> wf_command c"
  by (auto simp: command_of_tokens_def split: list.split_asm if_split_asm)

text \<open>
  Claim C27.  The parser answers with no command exactly when no line of the comment matches the
  command pattern; and a command it returns is well-formed: \<open>ignore\<close> has no argument and the
  file of a \<open>review\<close> is a non-empty text without white space.
\<close>

theorem parse_command_exact:
  "(parse_command body = Inr None \<longleftrightarrow> list_all (\<lambda>l. \<nexists>g. regex_line l g) (split_on 10 body))
   \<and> (case parse_command body of Inr (Some c) \<Rightarrow> wf_command c | _ \<Rightarrow> True)"
proof
  have "parse_command body = Inr None \<longleftrightarrow> search_command body = None"
    unfolding parse_command_eq by (simp split: option.split)
  then show "parse_command body = Inr None \<longleftrightarrow> list_all (\<lambda>l. \<nexists>g. regex_line l g) (split_on 10 body)"
    by (simp add: search_command_None flip: match_command_regex)
  show "case parse_command body of Inr (Some c) \<Rightarrow> wf_command c | _ \<Rightarrow> True"
  proof (cases "parse_command body")
    case (Inr r)
    then show ?thesis
      using split_ws_words command_of_tokens_wf
      unfolding parse_command_eq by (auto simp: list_all_iff simp del: wf_command.simps split: option.split_asm)
  qed simp
qed

section \<open>Commands as they are written\<close>

definition command_tokens :: "parsed_command \<Rightarrow> pystr list" where
  "command_tokens c = (case cm_kind c of
       REVIEW \<Rightarrow> u ''review'' # (case cm_file_path c of None \<Rightarrow> [] | Some p \<Rightarrow> [p])
     | IGNORE \<Rightarrow> [u ''ignore''])"

definition command_text :: "parsed_command \<Rightarrow> pystr" where
  "command_text c = u ''/kenjutsu'' @ concat (map (\<lambda>t. 32 # t) (command_tokens c))"

lemma split_on_line: "10 \<notin> set l \<Longrightarrow> split_on 10 (l @ 10 # s) = l # split_on 10 s"
  by (induction l) simp_all

lemma split_on_last: "10 \<notin> set l \<Longrightarrow> split_on 10 l = [l]"
  by (induction l) simp_all

lemma join_Cons: "ls \<noteq> [] \<Longrightarrow> join [10] (l # ls) = l @ 10 # join [10] ls"
  by (cases ls) (simp_all add: join_def)

lemma split_on_join: "ls \<noteq> [] \<Longrightarrow> list_all (\<lambda>l. 10 \<notin> set l) ls \<Longrightarrow> split_on 10 (join [10] ls) = ls"
proof (induction ls)
  case (Cons l ls)
  then show ?case
    by (cases "ls = []") (simp_all add: split_on_last split_on_line join_Cons, simp add: join_def split_on_last)
qed simp

lemma split_ws_tokens:
  "list_all is_word ws \<Longrightarrow> list_all py_isspace trail \<Longrightarrow> split_ws (concat (map (\<lambda>t. 32 # t) ws) @ trail) = ws"
proof (induction ws)
  case Nil
  then show ?case by (simp add: split_ws_step(2) list_all_iff)
next
  case (Cons w ws)
  have "concat (map (\<lambda>t. 32 # t) ws) @ trail = [] \<or> py_isspace (hd (concat (map (\<lambda>t. 32 # t) ws) @ trail))"
    using Cons.prems(2) by (cases ws; cases trail) (auto simp: py_isspace_def)
  with Cons show ?case by (simp add: split_ws_word)
qed

lemma command_tokens_ok:
  assumes "wf_command c"
  shows "list_all is_word (command_tokens c)" "command_of_tokens (command_tokens c) = Inr c"
    "\<exists>w ws. command_tokens c = w # ws"
  using assms
  by (cases "cm_kind c"; cases "cm_file_path c";
      force simp: command_tokens_def command_of_tokens_def is_word_def py_isspace_def)+

definition plain_line :: "pystr \<Rightarrow> bool" where
  "plain_line l \<longleftrightarrow> 10 \<notin> set l \<and> match_command l = None"

text \<open>
  Claim C26.  A command written on a line of its own is read back: whatever the lines after it,
  with no command on the lines before it, indented by blanks and followed by any white space on
  the line (a carriage return, for instance).
\<close>

theorem parse_command_render:
  assumes "wf_command c" "list_all plain_line before" "list_all (\<lambda>l. 10 \<notin> set l) after"
    and "list_all is_blank indent" "list_all py_isspace trail" "10 \<notin> set trail"
  shows "parse_command (join [10] (before @ (indent @ command_text c @ trail) # after)) = Inr (Some c)"
proof -
  let ?g = "concat (map (\<lambda>t. 32 # t) (command_tokens c)) @ trail"
  let ?line = "indent @ u ''/kenjutsu'' @ ?g"
  note tok = command_tokens_ok [OF assms(1)]
  obtain w ws where w: "command_tokens c = w # ws" using tok(3) by blast
  have "is_word w" using tok(1) w by simp
  then obtain x xs where x: "w = x # xs" "\<not> py_isspace x"
    by (cases w) (auto simp: is_word_def)
  have "?g = [32] @ x # (xs @ concat (map (\<lambda>t. 32 # t) ws) @ trail)" using w x by simp
  moreover have "list_all is_blank [32]" by (simp add: is_blank_def)
  ultimately have "regex_line ?line ?g"
    unfolding regex_line_def using assms(4) x(2) by blast
  then have m: "match_command ?line = Some ?g" by (simp only: match_command_regex)
  have "10 \<notin> set t" if "t \<in> set (command_tokens c)" for t
    using that tok(1) linebreak_isspace [OF linebreak_newline] by (auto simp: list_all_iff is_word_def)
  then have nl: "10 \<notin> set ?line"
    using assms(4,6) by (auto simp: list_all_iff is_blank_def)
  have "split_on 10 (join [10] (before @ ?line # after)) = before @ ?line # after"
    using nl assms(2,3) by (intro split_on_join) (auto simp: list_all_iff plain_line_def simp del: u_Cons)
  moreover have "filter (\<lambda>l. match_command l \<noteq> None) before = []"
    using assms(2) by (simp add: filter_empty_conv list_all_iff plain_line_def)
  ultimately have "search_command (join [10] (before @ ?line # after)) = Some ?g"
    unfolding search_command_def using m by (simp del: u_Cons)
  moreover have "split_ws ?g = command_tokens c"
    using tok(1) assms(5) by (rule split_ws_tokens)
  moreover have "indent @ command_text c @ trail = ?line" by (simp add: command_text_def del: u_Cons)
  ultimately show ?thesis
    unfolding parse_command_eq using tok(2) by simp
qed

theorem parse_command_render_witness:
  "parse_command (join [10] [u ''Thanks!'', u ''  /kenjutsu review a.py '' @ [13], u ''bye''])
     = Inr (Some \<lparr>cm_kind = REVIEW, cm_file_path = Some (u ''a.py'')\<rparr>)"
proof -
  let ?c = "\<lparr>cm_kind = REVIEW, cm_file_path = Some (u ''a.py'')\<rparr>"
  have "parse_command (join [10] ([u ''Thanks!''] @ (u ''  '' @ command_text ?c @ [32, 13]) # [u ''bye'']))
      = Inr (Some ?c)"
    by (rule parse_command_render)
      (simp_all add: is_word_def py_isspace_def plain_line_def match_command_def is_blank_def)
  then show ?thesis by (simp add: command_text_def command_tokens_def)
qed

text \<open>
  A comment written in a web browser has carriage returns at its line ends.  A command without
  a subcommand is then not seen at all, instead of being refused.
\<close>

lemma bare_command_with_return_ignored:
  "parse_command (u ''/kenjutsu'' @ [13, 10]) = Inr None
   \<and> parse_command (u ''/kenjutsu'' @ [10]) = Inl Missing_Subcommand"
  by (simp add: parse_command_def search_command_def match_command_def is_blank_def strip_def lstrip_def
      py_isspace_def command_of_tokens_def)

end
