(* ===== verification/Debounce.thy ===== *)
theory Debounce
  imports Latest_Wins Py_Effects Complex_Main
begin

text \<open>
  The debounce manager (\<^verbatim>\<open>kenjutsu/server/debounce.py\<close>) on the event loop that runs it.  A
  \<open>TimerHandle\<close> and a \<open>Task\<close> are indices into the loop's lists of timers and tasks.  The loop
  may do anything between two calls: let time pass, fire a due timer (up to its clock
  resolution early), start or end a task; a task that is asked to cancel may take its time,
  or be dropped before it has started.  Time is exact.
\<close>

section \<open>The manager\<close>

record ('k, 'c) timer =
  tm_key :: 'k
  tm_factory :: 'c
  tm_when :: rat
  tm_cancelled :: bool
  tm_fired :: bool

datatype task_state = Created | Running | Ended

record ('k, 'c) review_task =
  tk_key :: 'k
  tk_factory :: 'c
  tk_state :: task_state
  tk_cancelled :: bool

record ('k, 'c) debouncer =
  dm_quiet_period :: rat
  dm_pending :: "'k \<rightharpoonup> nat"
  dm_in_flight :: "'k \<rightharpoonup> nat"
  lp_now :: rat
  lp_timers :: "('k, 'c) timer list"
  lp_tasks :: "('k, 'c) review_task list"

definition new_debouncer :: "rat \<Rightarrow> rat \<Rightarrow> ('k, 'c) debouncer" where
  "new_debouncer quiet_period now = \<lparr>dm_quiet_period = quiet_period, dm_pending = Map.empty,
     dm_in_flight = Map.empty, lp_now = now, lp_timers = [], lp_tasks = []\<rparr>"

definition update_at :: "nat \<Rightarrow> ('a \<Rightarrow> 'a) \<Rightarrow> 'a list \<Rightarrow> 'a list" where
  "update_at i f xs = xs[i := f (xs ! i)]"

definition cancel_pending :: "'k \<Rightarrow> ('k, 'c) debouncer \<Rightarrow> bool \<times> ('k, 'c) debouncer" where
  "cancel_pending k s =
     (case dm_pending s k of
        Some h \<Rightarrow> (True, s\<lparr>dm_pending := (dm_pending s)(k := None),
                         lp_timers := update_at h (\<lambda>t. t\<lparr>tm_cancelled := True\<rparr>) (lp_timers s)\<rparr>)
      | None \<Rightarrow> (False, s))"

text \<open>\<open>task.cancel()\<close> does nothing to a task that has ended.\<close>

definition cancel_task :: "('k, 'c) review_task \<Rightarrow> ('k, 'c) review_task" where
  "cancel_task t = (if tk_state t = Ended then t else t\<lparr>tk_cancelled := True\<rparr>)"

definition cancel_in_flight :: "'k \<Rightarrow> ('k, 'c) debouncer \<Rightarrow> bool \<times> ('k, 'c) debouncer" where
  "cancel_in_flight k s =
     (case dm_in_flight s k of
        Some i \<Rightarrow> (True, s\<lparr>dm_in_flight := (dm_in_flight s)(k := None),
                         lp_tasks := update_at i cancel_task (lp_tasks s)\<rparr>)
      | None \<Rightarrow> (False, s))"

definition schedule :: "'k \<Rightarrow> 'c \<Rightarrow> ('k, 'c) debouncer \<Rightarrow> ('k, 'c) debouncer" where
  "schedule k coro_factory s =
     (let (_, s) = cancel_pending k s; (_, s) = cancel_in_flight k s; handle = length (lp_timers s)
      in s\<lparr>lp_timers := lp_timers s @ [\<lparr>tm_key = k, tm_factory = coro_factory,
             tm_when = lp_now s + dm_quiet_period s, tm_cancelled = False, tm_fired = False\<rparr>],
           dm_pending := (dm_pending s)(k \<mapsto> handle)\<rparr>)"

definition cancel :: "'k \<Rightarrow> ('k, 'c) debouncer \<Rightarrow> bool \<times> ('k, 'c) debouncer" where
  "cancel k s =
     (let (cancelled_pending, s) = cancel_pending k s; (cancelled_in_flight, s) = cancel_in_flight k s
      in (cancelled_pending \<or> cancelled_in_flight, s))"

definition fire :: "'k \<Rightarrow> 'c \<Rightarrow> ('k, 'c) debouncer \<Rightarrow> ('k, 'c) debouncer" where
  "fire k coro_factory s =
     (let task = length (lp_tasks s)
      in s\<lparr>dm_pending := (dm_pending s)(k := None),
           lp_tasks := lp_tasks s @ [\<lparr>tk_key = k, tk_factory = coro_factory, tk_state = Created, tk_cancelled = False\<rparr>],
           dm_in_flight := (dm_in_flight s)(k \<mapsto> task)\<rparr>)"

definition pending_keys :: "('k, 'c) debouncer \<Rightarrow> 'k set" where
  "pending_keys s = dom (dm_pending s)"

definition in_flight_keys :: "('k, 'c) debouncer \<Rightarrow> 'k set" where
  "in_flight_keys s = dom (dm_in_flight s)"

text \<open>The end of \<open>_run\<close>, in its \<open>finally\<close> block.\<close>

definition run_finally :: "'k \<Rightarrow> ('k, 'c) debouncer \<Rightarrow> ('k, 'c) debouncer" where
  "run_finally k s = s\<lparr>dm_in_flight := (dm_in_flight s)(k := None)\<rparr>"

section \<open>The event loop\<close>

definition timer_live :: "('k, 'c) debouncer \<Rightarrow> nat \<Rightarrow> bool" where
  "timer_live s h \<longleftrightarrow> h < length (lp_timers s) \<and> \<not> tm_cancelled (lp_timers s ! h) \<and> \<not> tm_fired (lp_timers s ! h)"

definition timer_due :: "rat \<Rightarrow> ('k, 'c) debouncer \<Rightarrow> nat \<Rightarrow> bool" where
  "timer_due resolution s h \<longleftrightarrow> timer_live s h \<and> tm_when (lp_timers s ! h) \<le> lp_now s + resolution"

definition run_timer :: "nat \<Rightarrow> ('k, 'c) debouncer \<Rightarrow> ('k, 'c) debouncer" where
  "run_timer h s =
     (let t = lp_timers s ! h
      in fire (tm_key t) (tm_factory t) (s\<lparr>lp_timers := update_at h (\<lambda>t. t\<lparr>tm_fired := True\<rparr>) (lp_timers s)\<rparr>))"

definition set_task_state :: "nat \<Rightarrow> task_state \<Rightarrow> ('k, 'c) debouncer \<Rightarrow> ('k, 'c) debouncer" where
  "set_task_state i st s = s\<lparr>lp_tasks := update_at i (\<lambda>t. t\<lparr>tk_state := st\<rparr>) (lp_tasks s)\<rparr>"

text \<open>
  A task of \<open>k\<close> that was asked to cancel and still runs.  With \<open>prompt\<close> the loop ends such a task
  before a timer of the same pull request fires.
\<close>

definition lingering :: "('k, 'c) debouncer \<Rightarrow> 'k \<Rightarrow> bool" where
  "lingering s k \<longleftrightarrow> (\<exists>t \<in> set (lp_tasks s). tk_key t = k \<and> tk_state t = Running \<and> tk_cancelled t)"

datatype ('k, 'c) loop_event = Scheduled 'k 'c nat rat | Cancelled 'k | Fired 'k nat rat | Waited | Task_Moved

inductive loop_step ::
  "rat \<Rightarrow> bool \<Rightarrow> ('k, 'c) debouncer \<Rightarrow> ('k, 'c) loop_event \<Rightarrow> ('k, 'c) debouncer \<Rightarrow> bool"
  for resolution :: rat and prompt :: bool where
  step_schedule: "loop_step resolution prompt s (Scheduled k f (length (lp_timers s)) (lp_now s)) (schedule k f s)"
| step_cancel: "loop_step resolution prompt s (Cancelled k) (snd (cancel k s))"
| step_wait: "0 \<le> d \<Longrightarrow> loop_step resolution prompt s Waited (s\<lparr>lp_now := lp_now s + d\<rparr>)"
| step_fire: "timer_due resolution s h \<Longrightarrow> (prompt \<longrightarrow> \<not> lingering s (tm_key (lp_timers s ! h)))
    \<Longrightarrow> loop_step resolution prompt s (Fired (tm_key (lp_timers s ! h)) h (lp_now s)) (run_timer h s)"
| step_start: "i < length (lp_tasks s) \<Longrightarrow> tk_state (lp_tasks s ! i) = Created \<Longrightarrow> \<not> tk_cancelled (lp_tasks s ! i)
    \<Longrightarrow> loop_step resolution prompt s Task_Moved (set_task_state i Running s)"
| step_drop: "i < length (lp_tasks s) \<Longrightarrow> tk_state (lp_tasks s ! i) = Created \<Longrightarrow> tk_cancelled (lp_tasks s ! i)
    \<Longrightarrow> loop_step resolution prompt s Task_Moved (set_task_state i Ended s)"
| step_end: "i < length (lp_tasks s) \<Longrightarrow> tk_state (lp_tasks s ! i) = Running
    \<Longrightarrow> loop_step resolution prompt s Task_Moved
          (run_finally (tk_key (lp_tasks s ! i)) (set_task_state i Ended s))"

inductive_cases loop_stepE: "loop_step resolution prompt s e s'"

inductive loop_run ::
  "rat \<Rightarrow> bool \<Rightarrow> rat \<Rightarrow> ('k, 'c) loop_event list \<Rightarrow> ('k, 'c) debouncer \<Rightarrow> bool"
  for resolution :: rat and prompt :: bool and quiet_period :: rat where
  run_new: "loop_run resolution prompt quiet_period [] (new_debouncer quiet_period now)"
| run_step: "loop_run resolution prompt quiet_period tr s \<Longrightarrow> loop_step resolution prompt s e s'
    \<Longrightarrow> loop_run resolution prompt quiet_period (tr @ [e]) s'"

text \<open>One iteration of the loop runs every due timer, the earliest first.\<close>

definition run_due :: "rat \<Rightarrow> ('k, 'c) debouncer \<Rightarrow> ('k, 'c) debouncer" where
  "run_due resolution s =
     fold (\<lambda>h s. if timer_live s h then run_timer h s else s)
       (sort_key (\<lambda>h. tm_when (lp_timers s ! h)) (filter (timer_due resolution s) [0..<length (lp_timers s)])) s"

section \<open>Live timers and live tasks\<close>

definition tm_plan :: "('k, 'c) timer \<Rightarrow> 'k \<times> 'c \<times> rat" where
  "tm_plan t = (tm_key t, tm_factory t, tm_when t)"

definition live_timers :: "('k, 'c) debouncer \<Rightarrow> 'k \<Rightarrow> nat set" where
  "live_timers s k = {h. timer_live s h \<and> tm_key (lp_timers s ! h) = k}"

definition task_live :: "('k, 'c) debouncer \<Rightarrow> nat \<Rightarrow> bool" where
  "task_live s i \<longleftrightarrow> i < length (lp_tasks s) \<and> tk_state (lp_tasks s ! i) \<noteq> Ended \<and> \<not> tk_cancelled (lp_tasks s ! i)"

definition live_tasks :: "('k, 'c) debouncer \<Rightarrow> 'k \<Rightarrow> nat set" where
  "live_tasks s k = {i. task_live s i \<and> tk_key (lp_tasks s ! i) = k}"

lemma update_at_simps [simp]:
  "length (update_at i f xs) = length xs"
  "x < length xs \<Longrightarrow> update_at i f xs ! x = (if x = i then f (xs ! i) else xs ! x)"
  by (auto simp: update_at_def)

lemma map_update_at: "(\<And>t. g (f t) = g t) \<Longrightarrow> map g (update_at i f xs) = map g xs"
  by (rule nth_equalityI) auto

lemma live_timers_update:
  assumes "lp_timers s' = update_at h f (lp_timers s)"
    and "\<And>t. tm_key (f t) = tm_key t" "\<forall>t. tm_cancelled (f t) \<or> tm_fired (f t)"
  shows "live_timers s' k = live_timers s k - {h}"
  using assms by (auto simp: live_timers_def timer_live_def split: if_splits)

lemma live_timers_snoc:
  "lp_timers s' = lp_timers s @ [t] \<Longrightarrow> live_timers s' k
     = live_timers s k \<union> (if tm_key t = k \<and> \<not> tm_cancelled t \<and> \<not> tm_fired t then {length (lp_timers s)} else {})"
  by (auto simp: live_timers_def timer_live_def nth_append less_Suc_eq)

lemma live_tasks_update:
  assumes "lp_tasks s' = update_at i f (lp_tasks s)"
    and "\<And>t. tk_key (f t) = tk_key t" "\<forall>t. tk_cancelled (f t) \<or> tk_state (f t) = Ended"
  shows "live_tasks s' k = live_tasks s k - {i}"
  using assms by (auto simp: live_tasks_def task_live_def split: if_splits)

lemma live_tasks_snoc:
  "lp_tasks s' = lp_tasks s @ [t] \<Longrightarrow> live_tasks s' k
     = live_tasks s k \<union> (if tk_key t = k \<and> tk_state t \<noteq> Ended \<and> \<not> tk_cancelled t then {length (lp_tasks s)} else {})"
  by (auto simp: live_tasks_def task_live_def nth_append less_Suc_eq)

lemma live_tasks_start:
  "tk_state (lp_tasks s ! i) = Created \<Longrightarrow> live_tasks (set_task_state i Running s) k = live_tasks s k"
  by (auto simp: live_tasks_def task_live_def set_task_state_def split: if_splits)

lemma live_cong [simp]:
  "live_timers (s\<lparr>dm_pending := p\<rparr>) = live_timers s" "live_timers (s\<lparr>dm_in_flight := q\<rparr>) = live_timers s"
  "live_timers (s\<lparr>lp_tasks := ts\<rparr>) = live_timers s" "live_timers (s\<lparr>lp_now := n\<rparr>) = live_timers s"
  "live_tasks (s\<lparr>dm_pending := p\<rparr>) = live_tasks s" "live_tasks (s\<lparr>dm_in_flight := q\<rparr>) = live_tasks s"
  "live_tasks (s\<lparr>lp_timers := ms\<rparr>) = live_tasks s" "live_tasks (s\<lparr>lp_now := n\<rparr>) = live_tasks s"
  by (auto simp: live_timers_def live_tasks_def timer_live_def task_live_def fun_eq_iff)

lemma lingering_cong [simp]:
  "lingering (s\<lparr>dm_pending := p\<rparr>) = lingering s" "lingering (s\<lparr>dm_in_flight := q\<rparr>) = lingering s"
  "lingering (s\<lparr>lp_timers := ms\<rparr>) = lingering s" "lingering (s\<lparr>lp_now := n\<rparr>) = lingering s"
  by (auto simp: lingering_def fun_eq_iff)

lemma set_update_at: "set (update_at i f xs) \<subseteq> insert (f (xs ! i)) (set xs)"
  by (simp add: update_at_def set_update_subset_insert)

text \<open>
  The invariant: \<open>_pending\<close> holds the live timers; \<open>_in_flight\<close> holds live tasks; never both for
  one key.  When cancelled tasks end promptly, \<open>_in_flight\<close> holds all live tasks.
\<close>

definition debounce_inv :: "('k, 'c) debouncer \<Rightarrow> bool" where
  "debounce_inv s \<longleftrightarrow>
     (\<forall>k. live_timers s k = set_option (dm_pending s k)
        \<and> set_option (dm_in_flight s k) \<subseteq> live_tasks s k
        \<and> (dm_pending s k = None \<or> dm_in_flight s k = None))"

definition prompt_inv :: "('k, 'c) debouncer \<Rightarrow> bool" where
  "prompt_inv s \<longleftrightarrow> debounce_inv s
     \<and> (\<forall>k. live_tasks s k \<subseteq> set_option (dm_in_flight s k) \<and> (lingering s k \<longrightarrow> dm_in_flight s k = None))"

lemma debounce_invD:
  assumes "debounce_inv s"
  shows "live_timers s k = set_option (dm_pending s k)" "set_option (dm_in_flight s k) \<subseteq> live_tasks s k"
    "dm_pending s k = None \<or> dm_in_flight s k = None"
  using assms by (auto simp: debounce_inv_def)

subsection \<open>The operations\<close>

lemma cancel_pending_effect:
  assumes "debounce_inv s"
  shows "snd (cancel_pending k s) = s\<lparr>dm_pending := (dm_pending s)(k := None),
       lp_timers := lp_timers (snd (cancel_pending k s))\<rparr>"
    and "live_timers (snd (cancel_pending k s)) k' = (if k' = k then {} else live_timers s k')"
    and "length (lp_timers (snd (cancel_pending k s))) = length (lp_timers s)"
    and "map tm_plan (lp_timers (snd (cancel_pending k s))) = map tm_plan (lp_timers s)"
proof -
  show "snd (cancel_pending k s) = s\<lparr>dm_pending := (dm_pending s)(k := None),
       lp_timers := lp_timers (snd (cancel_pending k s))\<rparr>"
    by (cases "dm_pending s k") (auto simp: cancel_pending_def fun_upd_idem)
  show "length (lp_timers (snd (cancel_pending k s))) = length (lp_timers s)"
    by (cases "dm_pending s k") (auto simp: cancel_pending_def)
  show "map tm_plan (lp_timers (snd (cancel_pending k s))) = map tm_plan (lp_timers s)"
    by (cases "dm_pending s k") (simp_all add: cancel_pending_def map_update_at tm_plan_def)
  have keys: "h \<notin> live_timers s k'" if "h \<in> live_timers s k" "k' \<noteq> k" for h
    using that by (auto simp: live_timers_def)
  show "live_timers (snd (cancel_pending k s)) k' = (if k' = k then {} else live_timers s k')"
  proof (cases "dm_pending s k")
    case None
    with debounce_invD(1) [OF assms, of k] show ?thesis by (simp add: cancel_pending_def)
  next
    case (Some h)
    then have h: "live_timers s k = {h}"
      using debounce_invD(1) [OF assms, of k] by simp
    have "live_timers (snd (cancel_pending k s)) k' = live_timers s k' - {h}"
      using Some by (intro live_timers_update [where f = "\<lambda>t. t\<lparr>tm_cancelled := True\<rparr>"]) (simp_all add: cancel_pending_def)
    with h keys show ?thesis by (cases "k' = k") simp_all
  qed
qed

lemma cancel_in_flight_effect:
  assumes "debounce_inv s"
  shows "snd (cancel_in_flight k s) = s\<lparr>dm_in_flight := (dm_in_flight s)(k := None),
       lp_tasks := lp_tasks (snd (cancel_in_flight k s))\<rparr>"
    and "live_tasks (snd (cancel_in_flight k s)) k' = live_tasks s k' - (if k' = k then set_option (dm_in_flight s k) else {})"
    and "lingering (snd (cancel_in_flight k s)) k' \<Longrightarrow> lingering s k' \<or> k' = k"
    and "length (lp_tasks (snd (cancel_in_flight k s))) = length (lp_tasks s)"
proof -
  show "snd (cancel_in_flight k s) = s\<lparr>dm_in_flight := (dm_in_flight s)(k := None),
       lp_tasks := lp_tasks (snd (cancel_in_flight k s))\<rparr>"
    by (cases "dm_in_flight s k") (auto simp: cancel_in_flight_def fun_upd_idem)
  show "length (lp_tasks (snd (cancel_in_flight k s))) = length (lp_tasks s)"
    by (cases "dm_in_flight s k") (auto simp: cancel_in_flight_def)
  have in_k: "i \<in> live_tasks s k" if "dm_in_flight s k = Some i" for i
    using debounce_invD(2) [OF assms, of k] that by simp
  show "live_tasks (snd (cancel_in_flight k s)) k' = live_tasks s k' - (if k' = k then set_option (dm_in_flight s k) else {})"
  proof (cases "dm_in_flight s k")
    case (Some i)
    have "live_tasks (snd (cancel_in_flight k s)) k' = live_tasks s k' - {i}"
      using Some by (intro live_tasks_update [where f = cancel_task]) (simp_all add: cancel_in_flight_def cancel_task_def)
    moreover have "i \<notin> live_tasks s k'" if "k' \<noteq> k"
      using in_k [OF Some] that by (auto simp: live_tasks_def)
    ultimately show ?thesis using Some by (cases "k' = k") simp_all
  qed (simp add: cancel_in_flight_def)
  show "lingering s k' \<or> k' = k" if l: "lingering (snd (cancel_in_flight k s)) k'"
  proof (cases "dm_in_flight s k")
    case (Some i)
    then have "tk_key (cancel_task (lp_tasks s ! i)) = k"
      using in_k by (simp add: live_tasks_def cancel_task_def)
    with l Some show ?thesis
      using set_update_at [of i cancel_task "lp_tasks s"]
      by (auto simp: cancel_in_flight_def lingering_def)
  qed (use l in \<open>simp add: cancel_in_flight_def\<close>)
qed

lemma cancel_pending_cases:
  assumes "debounce_inv s" "cancel_pending k s = (b, s1)"
  obtains ts where "s1 = s\<lparr>dm_pending := (dm_pending s)(k := None), lp_timers := ts\<rparr>"
    and "length ts = length (lp_timers s)" "map tm_plan ts = map tm_plan (lp_timers s)"
    and "\<And>k'. live_timers s1 k' = (if k' = k then {} else live_timers s k')"
  using cancel_pending_effect [OF assms(1), of k] assms(2) by auto

lemma cancel_in_flight_cases:
  assumes "debounce_inv s" "cancel_in_flight k s = (b, s1)"
  obtains ts where "s1 = s\<lparr>dm_in_flight := (dm_in_flight s)(k := None), lp_tasks := ts\<rparr>"
    and "length ts = length (lp_tasks s)"
    and "\<And>k'. live_tasks s1 k' = live_tasks s k' - (if k' = k then set_option (dm_in_flight s k) else {})"
    and "\<And>k'. lingering s1 k' \<Longrightarrow> lingering s k' \<or> k' = k"
  using cancel_in_flight_effect [OF assms(1), of k] assms(2) by auto

lemma cancel_pending_inv:
  assumes "cancel_pending k s = (b, s1)"
  shows "debounce_inv s \<Longrightarrow> debounce_inv s1" "prompt_inv s \<Longrightarrow> prompt_inv s1"
proof -
  show d: "debounce_inv s1" if "debounce_inv s"
  proof -
    obtain ts where "s1 = s\<lparr>dm_pending := (dm_pending s)(k := None), lp_timers := ts\<rparr>"
      "\<And>k'. live_timers s1 k' = (if k' = k then {} else live_timers s k')"
      using cancel_pending_cases [OF \<open>debounce_inv s\<close> assms] by metis
    with debounce_invD [OF \<open>debounce_inv s\<close>] show ?thesis by (auto simp: debounce_inv_def)
  qed
  show "prompt_inv s1" if p: "prompt_inv s"
  proof -
    have inv: "debounce_inv s" using p by (simp add: prompt_inv_def)
    obtain ts where "s1 = s\<lparr>dm_pending := (dm_pending s)(k := None), lp_timers := ts\<rparr>"
      using cancel_pending_cases [OF inv assms] by metis
    with p d [OF inv] show ?thesis by (simp add: prompt_inv_def)
  qed
qed

lemma cancel_in_flight_inv:
  assumes "cancel_in_flight k s = (b, s1)"
  shows "debounce_inv s \<Longrightarrow> debounce_inv s1" "prompt_inv s \<Longrightarrow> prompt_inv s1"
proof -
  show d: "debounce_inv s1" if "debounce_inv s"
  proof -
    obtain ts where "s1 = s\<lparr>dm_in_flight := (dm_in_flight s)(k := None), lp_tasks := ts\<rparr>"
      "\<And>k'. live_tasks s1 k' = live_tasks s k' - (if k' = k then set_option (dm_in_flight s k) else {})"
      using cancel_in_flight_cases [OF \<open>debounce_inv s\<close> assms] by metis
    moreover have "dm_in_flight s k = Some i \<Longrightarrow> i \<in> live_tasks s k" for i k
      using debounce_invD(2) [OF \<open>debounce_inv s\<close>, of k] by simp
    ultimately show ?thesis
      using debounce_invD [OF \<open>debounce_inv s\<close>] by (auto simp: debounce_inv_def)
  qed
  show "prompt_inv s1" if p: "prompt_inv s"
  proof -
    have inv: "debounce_inv s" using p by (simp add: prompt_inv_def)
    obtain ts where s1: "s1 = s\<lparr>dm_in_flight := (dm_in_flight s)(k := None), lp_tasks := ts\<rparr>"
      "\<And>k'. live_tasks s1 k' = live_tasks s k' - (if k' = k then set_option (dm_in_flight s k) else {})"
      "\<And>k'. lingering s1 k' \<Longrightarrow> lingering s k' \<or> k' = k"
      using cancel_in_flight_cases [OF inv assms] by metis
    have "dm_in_flight s1 = (dm_in_flight s)(k := None)" by (simp add: s1(1))
    with p d [OF inv] s1(2,3) show ?thesis unfolding prompt_inv_def by fastforce
  qed
qed

definition add_timer :: "'k \<Rightarrow> 'c \<Rightarrow> ('k, 'c) debouncer \<Rightarrow> ('k, 'c) debouncer" where
  "add_timer k f s = s\<lparr>lp_timers := lp_timers s @ [\<lparr>tm_key = k, tm_factory = f,
     tm_when = lp_now s + dm_quiet_period s, tm_cancelled = False, tm_fired = False\<rparr>],
     dm_pending := (dm_pending s)(k \<mapsto> length (lp_timers s))\<rparr>"

lemma add_timer_inv:
  assumes "dm_pending s k = None" "dm_in_flight s k = None"
  shows "debounce_inv s \<Longrightarrow> debounce_inv (add_timer k f s)" "prompt_inv s \<Longrightarrow> prompt_inv (add_timer k f s)"
proof -
  show d: "debounce_inv (add_timer k f s)" if "debounce_inv s"
  proof -
    have "live_timers (add_timer k f s) k' = live_timers s k' \<union> (if k' = k then {length (lp_timers s)} else {})" for k'
      by (subst live_timers_snoc) (auto simp: add_timer_def)
    moreover have "live_tasks (add_timer k f s) = live_tasks s" by (simp add: add_timer_def)
    ultimately show ?thesis
      using debounce_invD [OF that] assms by (auto simp: debounce_inv_def add_timer_def)
  qed
  show "prompt_inv (add_timer k f s)" if "prompt_inv s"
    using that d by (simp add: prompt_inv_def) (simp add: add_timer_def)
qed

text \<open>\<open>schedule\<close> in terms of the two cancellations.\<close>

lemma schedule_cases:
  assumes "debounce_inv s"
  obtains b s1 b' s2 where "cancel_pending k s = (b, s1)" "cancel_in_flight k s1 = (b', s2)"
    and "schedule k f s = add_timer k f s2" "debounce_inv s1" "debounce_inv s2"
    and "dm_pending s2 = (dm_pending s)(k := None)" "dm_in_flight s2 = (dm_in_flight s)(k := None)"
    and "length (lp_timers s2) = length (lp_timers s)" "map tm_plan (lp_timers s2) = map tm_plan (lp_timers s)"
    and "lp_now s2 = lp_now s" "dm_quiet_period s2 = dm_quiet_period s"
    and "\<And>k'. live_timers s2 k' = (if k' = k then {} else live_timers s k')"
    and "length (lp_tasks s2) = length (lp_tasks s)"
proof -
  obtain b s1 where 1: "cancel_pending k s = (b, s1)" by (metis surj_pair)
  obtain b' s2 where 2: "cancel_in_flight k s1 = (b', s2)" by (metis surj_pair)
  note inv1 = cancel_pending_inv(1) [OF 1 assms]
  note inv2 = cancel_in_flight_inv(1) [OF 2 inv1]
  obtain ts where s1: "s1 = s\<lparr>dm_pending := (dm_pending s)(k := None), lp_timers := ts\<rparr>"
    "length ts = length (lp_timers s)" "map tm_plan ts = map tm_plan (lp_timers s)"
    "\<And>k'. live_timers s1 k' = (if k' = k then {} else live_timers s k')"
    using cancel_pending_cases [OF assms 1] by metis
  obtain us where s2: "s2 = s1\<lparr>dm_in_flight := (dm_in_flight s1)(k := None), lp_tasks := us\<rparr>"
    "length us = length (lp_tasks s1)"
    using cancel_in_flight_cases [OF inv1 2] by metis
  have "schedule k f s = add_timer k f s2"
    by (simp add: schedule_def 1 2 add_timer_def)
  moreover have "live_timers s2 k' = live_timers s1 k'" for k' by (simp add: s2)
  ultimately show thesis
    using that [OF 1 2 _ inv1 inv2] s1 s2 by simp
qed

lemma schedule_inv:
  "debounce_inv s \<Longrightarrow> debounce_inv (schedule k f s)" "prompt_inv s \<Longrightarrow> prompt_inv (schedule k f s)"
proof -
  show "debounce_inv (schedule k f s)" if "debounce_inv s"
    using schedule_cases [OF that, of k f] add_timer_inv(1) by (metis fun_upd_same)
  show "prompt_inv (schedule k f s)" if p: "prompt_inv s"
  proof -
    have "debounce_inv s" using p by (simp add: prompt_inv_def)
    then show ?thesis
      using schedule_cases [of s k f] cancel_pending_inv(2) [OF _ p] cancel_in_flight_inv(2) add_timer_inv(2)
      by (metis fun_upd_same)
  qed
qed

lemma cancel_inv:
  "debounce_inv s \<Longrightarrow> debounce_inv (snd (cancel k s))" "prompt_inv s \<Longrightarrow> prompt_inv (snd (cancel k s))"
proof -
  obtain b s1 where 1: "cancel_pending k s = (b, s1)" by (metis surj_pair)
  obtain b' s2 where 2: "cancel_in_flight k s1 = (b', s2)" by (metis surj_pair)
  note inv = cancel_pending_inv [OF 1] cancel_in_flight_inv [OF 2]
  show "debounce_inv s \<Longrightarrow> debounce_inv (snd (cancel k s))" "prompt_inv s \<Longrightarrow> prompt_inv (snd (cancel k s))"
    by (simp_all add: cancel_def 1 2 inv)
qed

lemma run_timer_effect:
  defines "t \<equiv> \<lambda>s h. lp_timers s ! h"
  shows "dm_pending (run_timer h s) = (dm_pending s)(tm_key (t s h) := None)"
    and "dm_in_flight (run_timer h s) = (dm_in_flight s)(tm_key (t s h) \<mapsto> length (lp_tasks s))"
    and "lp_tasks (run_timer h s) = lp_tasks s @ [\<lparr>tk_key = tm_key (t s h), tk_factory = tm_factory (t s h),
           tk_state = Created, tk_cancelled = False\<rparr>]"
    and "lp_timers (run_timer h s) = update_at h (\<lambda>t. t\<lparr>tm_fired := True\<rparr>) (lp_timers s)"
    and "lp_now (run_timer h s) = lp_now s" "dm_quiet_period (run_timer h s) = dm_quiet_period s"
  by (simp_all add: run_timer_def fire_def Let_def t_def)

lemma run_timer_live:
  "live_timers (run_timer h s) k = live_timers s k - {h}"
  "live_tasks (run_timer h s) k = live_tasks s k \<union> (if tm_key (lp_timers s ! h) = k then {length (lp_tasks s)} else {})"
  "lingering (run_timer h s) k \<longleftrightarrow> lingering s k"
  by (rule live_timers_update [OF run_timer_effect(4)]; simp)
    (auto simp: live_tasks_snoc [OF run_timer_effect(3)] lingering_def run_timer_effect(3))

lemma pending_of_live: "debounce_inv s \<Longrightarrow> timer_live s h \<Longrightarrow> dm_pending s (tm_key (lp_timers s ! h)) = Some h"
  unfolding elem_set [symmetric] by (subst debounce_invD(1) [symmetric]) (simp_all add: live_timers_def)

lemma live_of_pending:
  "debounce_inv s \<Longrightarrow> dm_pending s k = Some h \<Longrightarrow> timer_live s h \<and> tm_key (lp_timers s ! h) = k"
  using debounce_invD(1) [of s k] by (auto simp: live_timers_def)

lemma run_timer_inv:
  assumes "timer_live s h"
  shows "debounce_inv s \<Longrightarrow> debounce_inv (run_timer h s)"
    and "prompt_inv s \<Longrightarrow> \<not> lingering s (tm_key (lp_timers s ! h)) \<Longrightarrow> prompt_inv (run_timer h s)"
proof -
  let ?k = "tm_key (lp_timers s ! h)"
  show d: "debounce_inv (run_timer h s)" if inv: "debounce_inv s"
  proof -
    note p = pending_of_live [OF inv assms]
    have other: "h \<notin> live_timers s k" if "k \<noteq> ?k" for k using that by (auto simp: live_timers_def)
    show ?thesis
      unfolding debounce_inv_def run_timer_live run_timer_effect
      using debounce_invD [OF inv] p other by (auto split: if_splits)
  qed
  show "prompt_inv (run_timer h s)" if inv: "prompt_inv s" and l: "\<not> lingering s ?k"
  proof -
    have b: "debounce_inv s" using inv by (simp add: prompt_inv_def)
    have "dm_in_flight s ?k = None"
      using debounce_invD(3) [OF b, of ?k] pending_of_live [OF b assms] by simp
    moreover from this have "live_tasks s ?k \<subseteq> set_option None" using inv by (metis prompt_inv_def)
    ultimately show ?thesis
      using d [OF b] inv l
      unfolding prompt_inv_def run_timer_live run_timer_effect by (auto split: if_splits)
  qed
qed

lemma set_task_state_live:
  "live_tasks (set_task_state i Ended s) k = live_tasks s k - {i}"
  by (rule live_tasks_update [where f = "\<lambda>t. t\<lparr>tk_state := Ended\<rparr>"]) (simp_all add: set_task_state_def)

lemma set_task_state_lingering:
  assumes "\<not> (st = Running \<and> tk_cancelled (lp_tasks s ! i))"
  shows "lingering (set_task_state i st s) k \<Longrightarrow> lingering s k"
  using set_update_at [of i "\<lambda>t. t\<lparr>tk_state := st\<rparr>" "lp_tasks s"] assms
  by (auto simp: lingering_def set_task_state_def)

lemma set_task_state_frame [simp]:
  "dm_pending (set_task_state i st s) = dm_pending s" "dm_in_flight (set_task_state i st s) = dm_in_flight s"
  "lp_timers (set_task_state i st s) = lp_timers s" "lp_now (set_task_state i st s) = lp_now s"
  "dm_quiet_period (set_task_state i st s) = dm_quiet_period s"
  "live_timers (set_task_state i st s) = live_timers s"
  by (simp_all add: set_task_state_def)

lemma run_finally_frame [simp]:
  "dm_pending (run_finally k s) = dm_pending s" "dm_in_flight (run_finally k s) = (dm_in_flight s)(k := None)"
  "lp_timers (run_finally k s) = lp_timers s" "lp_now (run_finally k s) = lp_now s"
  "dm_quiet_period (run_finally k s) = dm_quiet_period s"
  "live_timers (run_finally k s) = live_timers s" "live_tasks (run_finally k s) = live_tasks s"
  "lingering (run_finally k s) = lingering s"
  by (simp_all add: run_finally_def)

lemma loop_step_inv: "loop_step resolution prompt s e s' \<Longrightarrow> debounce_inv s \<Longrightarrow> debounce_inv s'"
proof (induction rule: loop_step.induct)
  case (step_wait d s)
  then show ?case by (simp add: debounce_inv_def)
next
  case (step_fire s h)
  then show ?case by (simp add: run_timer_inv timer_due_def)
next
  case (step_start i s)
  then show ?case by (simp add: debounce_inv_def live_tasks_start)
next
  case (step_drop i s)
  then have "i \<notin> live_tasks s k" for k by (simp add: live_tasks_def task_live_def)
  with step_drop show ?case by (simp add: debounce_inv_def set_task_state_live)
next
  case (step_end i s)
  have "i \<notin> live_tasks s k" if "k \<noteq> tk_key (lp_tasks s ! i)" for k
    using that by (auto simp: live_tasks_def)
  with debounce_invD [OF step_end.prems] show ?case by (auto simp: debounce_inv_def set_task_state_live)
qed (simp_all add: schedule_inv cancel_inv)

lemma loop_step_prompt: "loop_step resolution True s e s' \<Longrightarrow> prompt_inv s \<Longrightarrow> prompt_inv s'"
proof -
  assume step: "loop_step resolution True s e s'" and inv: "prompt_inv s"
  then have d: "debounce_inv s" "debounce_inv s'" by (auto simp: prompt_inv_def dest: loop_step_inv)
  from inv have all: "live_tasks s k \<subseteq> set_option (dm_in_flight s k)" "lingering s k \<Longrightarrow> dm_in_flight s k = None" for k
    by (auto simp: prompt_inv_def)
  from step show "prompt_inv s'"
  proof cases
    case (step_start i)
    with d all set_task_state_lingering [of Running s i] show ?thesis
      by (auto simp: prompt_inv_def live_tasks_start)
  next
    case (step_drop i)
    with d all set_task_state_lingering [of Ended s i] show ?thesis
      by (auto simp: prompt_inv_def set_task_state_live)
  next
    case (step_end i)
    let ?k = "tk_key (lp_tasks s ! i)"
    have "live_tasks s ?k \<subseteq> {i}"
    proof (cases "tk_cancelled (lp_tasks s ! i)")
      case True
      then have "lingering s ?k" using step_end unfolding lingering_def by (metis nth_mem)
      with all [of ?k] show ?thesis by auto
    next
      case False
      then have "i \<in> live_tasks s ?k" using step_end by (simp add: live_tasks_def task_live_def)
      with all(1) [of ?k] show ?thesis by (cases "dm_in_flight s ?k") auto
    qed
    with d all set_task_state_lingering [of Ended s i] step_end show ?thesis
      by (auto simp: prompt_inv_def set_task_state_live)
  next
    case step_wait
    with d inv show ?thesis by (simp add: prompt_inv_def)
  next
    case (step_fire h)
    with inv show ?thesis by (simp add: run_timer_inv timer_due_def)
  qed (simp_all add: inv schedule_inv cancel_inv)
qed

lemma loop_run_inv: "loop_run resolution prompt q tr s \<Longrightarrow> debounce_inv s"
proof (induction rule: loop_run.induct)
  case (run_new now)
  show ?case
    by (auto simp: debounce_inv_def new_debouncer_def live_timers_def timer_live_def)
qed (blast intro: loop_step_inv)

lemma loop_run_prompt: "loop_run resolution True q tr s \<Longrightarrow> prompt_inv s"
proof (induction rule: loop_run.induct)
  case (run_new now)
  show ?case
    by (auto simp: prompt_inv_def debounce_inv_def new_debouncer_def live_timers_def timer_live_def
        live_tasks_def task_live_def lingering_def)
qed (blast intro: loop_step_prompt)

section \<open>The latest push wins\<close>

definition new_handle :: "'k \<Rightarrow> 'c \<Rightarrow> ('k, 'c) debouncer \<Rightarrow> nat" where
  "new_handle k f s = length (lp_timers s)"

interpretation timers: latest_wins debounce_inv live_timers schedule new_handle "\<lambda>k f s. True"
proof unfold_locales
  fix s :: "('a, 'b) debouncer" and k f assume inv: "debounce_inv s"
  then show "debounce_inv (schedule k f s)" by (rule schedule_inv)
  obtain s2 where s2: "schedule k f s = add_timer k f s2" "length (lp_timers s2) = length (lp_timers s)"
    "\<And>k'. live_timers s2 k' = (if k' = k then {} else live_timers s k')"
    using schedule_cases [OF inv, of k f] by metis
  have "live_timers (add_timer k f s2) k'
      = live_timers s2 k' \<union> (if k' = k then {length (lp_timers s2)} else {})" for k'
    by (subst live_timers_snoc) (auto simp: add_timer_def)
  with s2 show "live_timers (schedule k f s) k = {new_handle k f s}"
    and "k' \<noteq> k \<Longrightarrow> live_timers (schedule k f s) k' = live_timers s k'" for k'
    by (simp_all add: new_handle_def)
qed

section \<open>Traces\<close>

fun about :: "'k \<Rightarrow> ('k, 'c) loop_event \<Rightarrow> bool" where
  "about k (Scheduled k' f h t) = (k' = k)"
| "about k (Cancelled k') = (k' = k)"
| "about k (Fired k' h t) = (k' = k)"
| "about k _ = False"

definition last_about :: "'k \<Rightarrow> ('k, 'c) loop_event list \<Rightarrow> ('k, 'c) loop_event option" where
  "last_about k tr = find (about k) (rev tr)"

lemma last_about_simps [simp]:
  "last_about k [] = None"
  "last_about k (tr @ [e]) = (if about k e then Some e else last_about k tr)"
  by (simp_all add: last_about_def)

definition trace_inv :: "rat \<Rightarrow> ('k, 'c) loop_event list \<Rightarrow> ('k, 'c) debouncer \<Rightarrow> bool" where
  "trace_inv q tr s \<longleftrightarrow> dm_quiet_period s = q
     \<and> (\<forall>k f h t. last_about k tr = Some (Scheduled k f h t)
          \<longleftrightarrow> dm_pending s k = Some h \<and> tm_plan (lp_timers s ! h) = (k, f, t + q))"

lemma same_plan: "map tm_plan ts = map tm_plan us \<Longrightarrow> h < length us \<Longrightarrow> tm_plan (ts ! h) = tm_plan (us ! h)"
  by (metis length_map nth_map)

lemma cancel_effect:
  assumes "debounce_inv s"
  shows "dm_pending (snd (cancel k s)) = (dm_pending s)(k := None)"
    and "map tm_plan (lp_timers (snd (cancel k s))) = map tm_plan (lp_timers s)"
    and "dm_quiet_period (snd (cancel k s)) = dm_quiet_period s"
proof -
  obtain b s1 where 1: "cancel_pending k s = (b, s1)" by (metis surj_pair)
  obtain b' s2 where 2: "cancel_in_flight k s1 = (b', s2)" by (metis surj_pair)
  obtain ts where s1: "s1 = s\<lparr>dm_pending := (dm_pending s)(k := None), lp_timers := ts\<rparr>"
    "map tm_plan ts = map tm_plan (lp_timers s)"
    using cancel_pending_cases [OF assms 1] by metis
  obtain us where s2: "s2 = s1\<lparr>dm_in_flight := (dm_in_flight s1)(k := None), lp_tasks := us\<rparr>"
    using cancel_in_flight_cases [OF cancel_pending_inv(1) [OF 1 assms] 2] by metis
  show "dm_pending (snd (cancel k s)) = (dm_pending s)(k := None)"
    and "map tm_plan (lp_timers (snd (cancel k s))) = map tm_plan (lp_timers s)"
    and "dm_quiet_period (snd (cancel k s)) = dm_quiet_period s"
    by (simp_all add: cancel_def 1 2 s2) (simp_all add: s1)
qed

lemma schedule_effect:
  assumes "debounce_inv s"
  shows "dm_pending (schedule k f s) = (dm_pending s)(k \<mapsto> length (lp_timers s))"
    and "map tm_plan (lp_timers (schedule k f s)) = map tm_plan (lp_timers s) @ [(k, f, lp_now s + dm_quiet_period s)]"
    and "dm_quiet_period (schedule k f s) = dm_quiet_period s"
proof -
  obtain s2 where s2: "schedule k f s = add_timer k f s2" "length (lp_timers s2) = length (lp_timers s)"
    "dm_pending s2 = (dm_pending s)(k := None)" "map tm_plan (lp_timers s2) = map tm_plan (lp_timers s)"
    "lp_now s2 = lp_now s" "dm_quiet_period s2 = dm_quiet_period s"
    using schedule_cases [OF assms, of k f] by metis
  show "dm_pending (schedule k f s) = (dm_pending s)(k \<mapsto> length (lp_timers s))"
    and "map tm_plan (lp_timers (schedule k f s)) = map tm_plan (lp_timers s) @ [(k, f, lp_now s + dm_quiet_period s)]"
    and "dm_quiet_period (schedule k f s) = dm_quiet_period s"
    unfolding s2(1) by (simp_all add: add_timer_def tm_plan_def s2(2-))
qed

lemma trace_invD:
  assumes "trace_inv q tr s"
  shows "dm_quiet_period s = q"
    and "last_about k tr = Some (Scheduled k f h t)
      \<longleftrightarrow> dm_pending s k = Some h \<and> tm_plan (lp_timers s ! h) = (k, f, t + q)"
  using assms by (simp_all add: trace_inv_def)

lemma pending_bound: "debounce_inv s \<Longrightarrow> dm_pending s k = Some h \<Longrightarrow> h < length (lp_timers s)"
  using live_of_pending [of s k h] by (simp add: timer_live_def)

lemma trace_schedule:
  assumes "debounce_inv s" "trace_inv q tr s"
  shows "trace_inv q (tr @ [Scheduled k f (length (lp_timers s)) (lp_now s)]) (schedule k f s)"
proof -
  note eff = schedule_effect [OF assms(1), of k f] and q = trace_invD(1) [OF assms(2)]
  let ?s' = "schedule k f s"
  have len: "length (lp_timers ?s') = Suc (length (lp_timers s))"
    using arg_cong [OF eff(2), of length] by simp
  have new: "tm_plan (lp_timers ?s' ! length (lp_timers s)) = (k, f, lp_now s + q)"
    using arg_cong [OF eff(2), of "\<lambda>xs. xs ! length (lp_timers s)"] q len by (simp add: nth_append)
  have old: "tm_plan (lp_timers ?s' ! h) = tm_plan (lp_timers s ! h)" if "h < length (lp_timers s)" for h
    using arg_cong [OF eff(2), of "\<lambda>xs. xs ! h"] that len by (simp add: nth_append)
  show ?thesis
    unfolding trace_inv_def
  proof (intro conjI allI)
    show "dm_quiet_period ?s' = q" using eff q by simp
    fix k' g h t
    show "last_about k' (tr @ [Scheduled k f (length (lp_timers s)) (lp_now s)]) = Some (Scheduled k' g h t)
        \<longleftrightarrow> dm_pending ?s' k' = Some h \<and> tm_plan (lp_timers ?s' ! h) = (k', g, t + q)"
    proof (cases "k' = k")
      case True
      then show ?thesis using eff new by auto
    next
      case False
      then show ?thesis using eff trace_invD(2) [OF assms(2)] old pending_bound [OF assms(1)] by (auto cong: conj_cong)
    qed
  qed
qed

lemma trace_step:
  assumes "loop_step resolution prompt s e s'" "debounce_inv s" "trace_inv q tr s"
  shows "trace_inv q (tr @ [e]) s'"
proof -
  note q = trace_invD(1) [OF assms(3)] and T = trace_invD(2) [OF assms(3)] and bound = pending_bound [OF assms(2)]
  have keep: "trace_inv q (tr @ [e]) s'"
    if "dm_quiet_period s' = q" "\<not> (\<exists>k. about k e)" "dm_pending s' = dm_pending s" "lp_timers s' = lp_timers s"
    using that T by (simp add: trace_inv_def)
  have drop: "trace_inv q (tr @ [e]) s'"
    if "dm_quiet_period s' = q" "\<And>k'. about k' e \<longleftrightarrow> k' = k" "\<And>f h t. e \<noteq> Scheduled k f h t"
      "dm_pending s' = (dm_pending s)(k := None)" "map tm_plan (lp_timers s') = map tm_plan (lp_timers s)" for k
    using that T bound same_plan [OF that(5)] by (auto simp: trace_inv_def)
  from assms(1) show ?thesis
  proof cases
    case (step_schedule k f)
    then show ?thesis using trace_schedule [OF assms(2,3)] by simp
  next
    case (step_cancel k)
    with cancel_effect [OF assms(2), of k] q show ?thesis by (intro drop [of k]) auto
  next
    case (step_fire h)
    with q show ?thesis
      by (intro drop [of "tm_key (lp_timers s ! h)"]) (auto simp: run_timer_effect map_update_at tm_plan_def)
  qed (rule keep; simp add: q)+
qed

lemma loop_run_trace: "loop_run resolution prompt q tr s \<Longrightarrow> trace_inv q tr s"
proof (induction rule: loop_run.induct)
  case (run_new now)
  show ?case by (simp add: trace_inv_def new_debouncer_def)
qed (blast intro: trace_step loop_run_inv)

section \<open>Properties\<close>

definition fired_on_time :: "rat \<Rightarrow> rat \<Rightarrow> ('k, 'c) loop_event list \<Rightarrow> ('k, 'c) loop_event \<Rightarrow> bool" where
  "fired_on_time resolution q before e \<longleftrightarrow>
     (case e of
        Fired k h t \<Rightarrow> \<exists>f t0. last_about k before = Some (Scheduled k f h t0) \<and> t0 + q \<le> t + resolution
      | _ \<Rightarrow> True)"

lemma fired_step:
  assumes "loop_step resolution prompt s e s'" "debounce_inv s" "trace_inv q tr s"
  shows "fired_on_time resolution q tr e"
  using assms(1)
proof cases
  case (step_fire h)
  let ?t = "lp_timers s ! h"
  have "dm_pending s (tm_key ?t) = Some h"
    using step_fire pending_of_live [OF assms(2)] by (simp add: timer_due_def)
  moreover have "tm_plan ?t = (tm_key ?t, tm_factory ?t, (tm_when ?t - q) + q)"
    by (simp add: tm_plan_def)
  ultimately have "last_about (tm_key ?t) tr = Some (Scheduled (tm_key ?t) (tm_factory ?t) h (tm_when ?t - q))"
    using assms(3) unfolding trace_inv_def by blast
  moreover have "tm_when ?t - q + q \<le> lp_now s + resolution"
    using step_fire by (simp add: timer_due_def)
  ultimately show ?thesis using step_fire by (auto simp: fired_on_time_def)
qed (simp_all add: fired_on_time_def)

text \<open>
  Claim C23.  Whatever the loop and the tasks do, a review is triggered for a pull request only
  when the last thing that happened to it was the scheduling of just this timer, a full quiet
  period ago (up to the resolution of the clock): no push or cancellation came after it, and no
  timer fires twice.
\<close>

theorem debounce_quiet_period:
  assumes "loop_run resolution prompt q tr s"
  shows "all_steps (fired_on_time resolution q) tr"
  using assms
proof (induction rule: loop_run.induct)
  case (run_step tr s e s')
  then show ?case
    using fired_step [OF run_step.hyps(2) loop_run_inv loop_run_trace] by simp
qed simp

definition sample_debouncer :: "(nat, unit) debouncer" where
  "sample_debouncer = (schedule 7 () (new_debouncer 30 0))\<lparr>lp_now := 30\<rparr>"

lemma sample_run:
  "loop_run 0 prompt 30 [Scheduled 7 () 0 0, Waited] sample_debouncer"
  "loop_run 0 prompt 30 [Scheduled 7 () 0 0, Waited, Fired 7 0 30] (run_timer 0 sample_debouncer)"
proof -
  let ?s0 = "new_debouncer 30 0 :: (nat, unit) debouncer"
  have "loop_run 0 prompt 30 ([] @ [Scheduled 7 () (length (lp_timers ?s0)) (lp_now ?s0)]) (schedule 7 () ?s0)"
    by (rule run_step [OF run_new step_schedule])
  then have "loop_run 0 prompt 30 ([Scheduled 7 () 0 0] @ [Waited])
      ((schedule 7 () ?s0)\<lparr>lp_now := lp_now (schedule 7 () ?s0) + 30\<rparr>)"
    by (intro run_step [OF _ step_wait]) (simp_all add: new_debouncer_def)
  moreover have "lp_now (schedule 7 () ?s0) = 0"
    by (simp add: schedule_def cancel_pending_def cancel_in_flight_def new_debouncer_def)
  ultimately show r: "loop_run 0 prompt 30 [Scheduled 7 () 0 0, Waited] sample_debouncer"
    by (simp add: sample_debouncer_def)
  have t: "lp_timers sample_debouncer
      = [\<lparr>tm_key = 7, tm_factory = (), tm_when = 30, tm_cancelled = False, tm_fired = False\<rparr>]"
    "lp_now sample_debouncer = 30" "lp_tasks sample_debouncer = []"
    by (simp_all add: sample_debouncer_def schedule_def cancel_pending_def cancel_in_flight_def new_debouncer_def)
  have "timer_due 0 sample_debouncer 0" "\<not> lingering sample_debouncer k" for k
    by (simp_all add: timer_due_def timer_live_def t lingering_def)
  then have "loop_step 0 prompt sample_debouncer
      (Fired (tm_key (lp_timers sample_debouncer ! 0)) 0 (lp_now sample_debouncer)) (run_timer 0 sample_debouncer)"
    by (intro step_fire) auto
  from run_step [OF r this] show
    "loop_run 0 prompt 30 [Scheduled 7 () 0 0, Waited, Fired 7 0 30] (run_timer 0 sample_debouncer)"
    by (simp add: t)
qed

theorem debounce_quiet_period_witness:
  "all_steps (fired_on_time 0 30) [Scheduled (7 :: nat) () 0 0, Waited, Fired 7 0 30]"
  by (rule debounce_quiet_period [OF sample_run(2)])

text \<open>
  Claim C24.  When a cancelled review ends before the next timer of its pull request fires, at
  most one review of a pull request is alive at any time, and no cancelled one still runs beside
  it.
\<close>

theorem one_review_in_flight:
  assumes "loop_run resolution True q tr s" "task_live s i"
  shows "\<not> lingering s (tk_key (lp_tasks s ! i))
    \<and> (task_live s j \<and> tk_key (lp_tasks s ! j) = tk_key (lp_tasks s ! i) \<longrightarrow> j = i)"
proof -
  let ?k = "tk_key (lp_tasks s ! i)"
  have inv: "live_tasks s ?k \<subseteq> set_option (dm_in_flight s ?k)" "lingering s ?k \<longrightarrow> dm_in_flight s ?k = None"
    using loop_run_prompt [OF assms(1)] by (auto simp: prompt_inv_def)
  have "i \<in> live_tasks s ?k" using assms(2) by (simp add: live_tasks_def)
  with inv have i: "dm_in_flight s ?k = Some i" by auto
  moreover have "j \<in> live_tasks s ?k" if "task_live s j" "tk_key (lp_tasks s ! j) = ?k"
    using that by (simp add: live_tasks_def)
  ultimately show ?thesis using inv by auto
qed

theorem one_review_in_flight_witness:
  "task_live (run_timer 0 sample_debouncer) 0 \<and> \<not> lingering (run_timer 0 sample_debouncer) 7"
proof -
  let ?s = "run_timer 0 sample_debouncer"
  have t: "lp_tasks ?s = [\<lparr>tk_key = 7, tk_factory = (), tk_state = Created, tk_cancelled = False\<rparr>]"
    by (simp add: run_timer_effect sample_debouncer_def schedule_def cancel_pending_def cancel_in_flight_def
        new_debouncer_def)
  then have "task_live ?s 0" by (simp add: task_live_def)
  with one_review_in_flight [OF sample_run(2) this] show ?thesis by (simp add: t)
qed

section \<open>Due timers are run\<close>

definition task_of :: "('k, 'c) timer \<Rightarrow> ('k, 'c) review_task" where
  "task_of t = \<lparr>tk_key = tm_key t, tk_factory = tm_factory t, tk_state = Created, tk_cancelled = False\<rparr>"

lemma live_after_run: "timer_live (run_timer h s) h' \<longleftrightarrow> timer_live s h' \<and> h' \<noteq> h"
  by (cases "h' = h") (auto simp: timer_live_def run_timer_effect)

lemma run_live_timers:
  assumes "distinct hs" "\<forall>h \<in> set hs. timer_live s h" "debounce_inv s"
  defines "s' \<equiv> fold (\<lambda>h s. if timer_live s h then run_timer h s else s) hs s"
  shows "lp_tasks s' = lp_tasks s @ map (\<lambda>h. task_of (lp_timers s ! h)) hs
    \<and> debounce_inv s'
    \<and> (\<forall>k. dm_pending s' k = (if \<exists>h \<in> set hs. dm_pending s k = Some h then None else dm_pending s k))"
  using assms(1-3) unfolding s'_def
proof (induction hs arbitrary: s)
  case (Cons h hs)
  let ?s = "run_timer h s"
  have h: "timer_live s h" "dm_pending s (tm_key (lp_timers s ! h)) = Some h"
    using Cons.prems pending_of_live by auto
  have key: "dm_pending s k = Some h \<longleftrightarrow> k = tm_key (lp_timers s ! h)" for k
    using h(2) live_of_pending [OF Cons.prems(3), of k h] by blast
  have "\<forall>h' \<in> set hs. timer_live ?s h'" using Cons.prems by (auto simp: live_after_run)
  note IH = Cons.IH [OF _ this run_timer_inv(1) [OF h(1) Cons.prems(3)]]
  have timers: "lp_timers ?s ! h' = lp_timers s ! h'" if "h' \<in> set hs" for h'
    using that Cons.prems by (auto simp: run_timer_effect timer_live_def)
  have tasks: "map (\<lambda>h'. task_of (lp_timers ?s ! h')) hs = map (\<lambda>h'. task_of (lp_timers s ! h')) hs"
    using timers by simp
  show ?case
    using IH Cons.prems h(1) tasks key by (auto simp: run_timer_effect task_of_def)
qed simp

lemma filter_single: "distinct xs \<Longrightarrow> x \<in> set xs \<Longrightarrow> filter (\<lambda>y. y = x) xs = [x]"
  by (induction xs) (auto simp: filter_empty_conv)

lemma distinct_due: "distinct (sort_key (\<lambda>h. tm_when (lp_timers s ! h)) (filter (timer_due resolution s) [0..<length (lp_timers s)]))"
  by simp

text \<open>The timer that is pending for a key, when it is due, becomes the only new task of the key.\<close>

lemma due_timer_reviewed:
  assumes inv: "debounce_inv s"
    and p: "dm_pending s k = Some h" "tm_plan (lp_timers s ! h) = (k, f, w)" "w \<le> lp_now s + resolution"
  shows "filter (\<lambda>t. tk_key t = k) (drop (length (lp_tasks s)) (lp_tasks (run_due resolution s)))
      = [\<lparr>tk_key = k, tk_factory = f, tk_state = Created, tk_cancelled = False\<rparr>]
    \<and> dm_pending (run_due resolution s) k = None"
proof -
  let ?hs = "sort_key (\<lambda>h. tm_when (lp_timers s ! h)) (filter (timer_due resolution s) [0..<length (lp_timers s)])"
  have live: "timer_live s h" using live_of_pending [OF inv p(1)] by simp
  have hs: "h \<in> set ?hs"
    using live p(2,3) by (simp add: timer_due_def timer_live_def tm_plan_def)
  have all: "\<forall>h \<in> set ?hs. timer_live s h" by (simp add: timer_due_def)
  have only: "h' = h" if "h' \<in> set ?hs" "tm_key (lp_timers s ! h') = k" for h'
    using pending_of_live [OF inv, of h'] that all p(1) by simp
  have "filter (\<lambda>h'. tm_key (lp_timers s ! h') = k) ?hs = filter (\<lambda>h'. h' = h) ?hs"
    using only p(2) by (intro filter_cong) (auto simp: tm_plan_def)
  also have "\<dots> = [h]"
    by (rule filter_single [OF distinct_due hs])
  finally have "filter (\<lambda>t. tk_key t = k) (map (\<lambda>h. task_of (lp_timers s ! h)) ?hs) = [task_of (lp_timers s ! h)]"
    by (simp add: filter_map comp_def task_of_def)
  moreover have "task_of (lp_timers s ! h) = \<lparr>tk_key = k, tk_factory = f, tk_state = Created, tk_cancelled = False\<rparr>"
    using p(2) by (simp add: task_of_def tm_plan_def)
  ultimately show ?thesis
    using run_live_timers [OF distinct_due all inv] hs p(1) unfolding run_due_def by auto
qed

lemma no_timer_no_review:
  assumes inv: "debounce_inv s" and none: "dm_pending s k = None"
  shows "filter (\<lambda>t. tk_key t = k) (drop (length (lp_tasks s)) (lp_tasks (run_due resolution s))) = []"
proof -
  let ?hs = "sort_key (\<lambda>h. tm_when (lp_timers s ! h)) (filter (timer_due resolution s) [0..<length (lp_timers s)])"
  have all: "\<forall>h \<in> set ?hs. timer_live s h" by (simp add: timer_due_def)
  have "tm_key (lp_timers s ! h) \<noteq> k" if "h \<in> set ?hs" for h
    using pending_of_live [OF inv, of h] that all none by auto
  then have "filter (\<lambda>t. tk_key t = k) (map (\<lambda>h. task_of (lp_timers s ! h)) ?hs) = []"
    by (auto simp: filter_empty_conv task_of_def)
  then show ?thesis
    using run_live_timers [OF distinct_due all inv] unfolding run_due_def by auto
qed

text \<open>
  Claim C39.  The last push is reviewed: when a quiet period has passed since a push and nothing
  else has happened to its pull request, the next iteration of the loop creates exactly one
  review task for the pull request, with what that push scheduled; it is in flight and nothing
  is pending any more.
\<close>

theorem last_push_reviewed:
  assumes "loop_run resolution prompt q tr s"
    and "last_about k tr = Some (Scheduled k f h t)" "t + q \<le> lp_now s + resolution"
  shows "filter (\<lambda>t. tk_key t = k) (drop (length (lp_tasks s)) (lp_tasks (run_due resolution s)))
      = [\<lparr>tk_key = k, tk_factory = f, tk_state = Created, tk_cancelled = False\<rparr>]
    \<and> dm_pending (run_due resolution s) k = None"
proof -
  have "dm_pending s k = Some h" "tm_plan (lp_timers s ! h) = (k, f, t + q)"
    using loop_run_trace [OF assms(1)] assms(2) by (auto simp: trace_inv_def)
  from due_timer_reviewed [OF loop_run_inv [OF assms(1)] this assms(3)] show ?thesis .
qed

theorem last_push_reviewed_witness:
  "filter (\<lambda>t. tk_key t = 7) (drop (length (lp_tasks sample_debouncer)) (lp_tasks (run_due 0 sample_debouncer)))
     = [\<lparr>tk_key = 7, tk_factory = (), tk_state = Created, tk_cancelled = False\<rparr>]"
proof -
  have "lp_now sample_debouncer = 30" by (simp add: sample_debouncer_def)
  then show ?thesis
    by (intro last_push_reviewed [OF sample_run(1), of 7 "()" 0 0, THEN conjunct1])
      (simp_all add: last_about_def)
qed

section \<open>A cancelled review that takes its time\<close>

text \<open>
  The \<open>finally\<close> block removes whatever task is in flight for the key.  A cancelled review that
  ends after its successor has started removes the successor, which the next push then does not
  cancel: two reviews of one pull request run.
\<close>

definition slow_review :: "(nat, unit) debouncer" where
  "slow_review = \<lparr>dm_quiet_period = 30, dm_pending = [7 \<mapsto> 1], dm_in_flight = Map.empty, lp_now = 60,
     lp_timers = [\<lparr>tm_key = 7, tm_factory = (), tm_when = 30, tm_cancelled = False, tm_fired = True\<rparr>,
                  \<lparr>tm_key = 7, tm_factory = (), tm_when = 60, tm_cancelled = False, tm_fired = False\<rparr>],
     lp_tasks = [\<lparr>tk_key = 7, tk_factory = (), tk_state = Running, tk_cancelled = True\<rparr>]\<rparr>"

lemma slow_review_reachable: "\<exists>tr. loop_run 0 False 30 tr slow_review"
proof -
  let ?r = "run_timer 0 sample_debouncer"
  have r: "?r = \<lparr>dm_quiet_period = 30, dm_pending = Map.empty, dm_in_flight = [7 \<mapsto> 0], lp_now = 30,
     lp_timers = [\<lparr>tm_key = 7, tm_factory = (), tm_when = 30, tm_cancelled = False, tm_fired = True\<rparr>],
     lp_tasks = [\<lparr>tk_key = 7, tk_factory = (), tk_state = Created, tk_cancelled = False\<rparr>]\<rparr>"
    by (simp add: run_timer_def fire_def sample_debouncer_def schedule_def cancel_pending_def
        cancel_in_flight_def new_debouncer_def update_at_def)
  have "loop_step 0 False ?r Task_Moved (set_task_state 0 Running ?r)"
    by (rule step_start) (simp_all add: r)
  note run1 = run_step [OF sample_run(2) this]
  note run2 = run_step [OF run1 step_schedule [of 0 False _ 7 "()"]]
  note run3 = run_step [OF run2 step_wait [of 30 0 False]]
  have "(schedule 7 () (set_task_state 0 Running ?r))\<lparr>lp_now := lp_now (schedule 7 () (set_task_state 0 Running ?r)) + 30\<rparr>
      = slow_review"
    by (simp add: r slow_review_def schedule_def cancel_pending_def cancel_in_flight_def cancel_task_def
        set_task_state_def update_at_def fun_eq_iff)
  with run3 show ?thesis by auto
qed

lemma two_reviews_in_flight:
  "\<exists>tr s i j. loop_run 0 False 30 tr (s :: (nat, unit) debouncer) \<and> i \<noteq> j \<and> task_live s i \<and> task_live s j
     \<and> tk_key (lp_tasks s ! i) = tk_key (lp_tasks s ! j)"
proof -
  let ?s = slow_review and ?t = "\<lambda>st c. \<lparr>tk_key = 7 :: nat, tk_factory = (), tk_state = st, tk_cancelled = c\<rparr>"
  let ?m = "\<lambda>w. \<lparr>tm_key = 7 :: nat, tm_factory = (), tm_when = w, tm_cancelled = False, tm_fired = True\<rparr>"
  obtain tr where run: "loop_run 0 False 30 tr ?s" using slow_review_reachable by blast
  let ?a = "run_timer 1 ?s"
  have "loop_step 0 False ?s (Fired (tm_key (lp_timers ?s ! 1)) 1 (lp_now ?s)) ?a"
    by (rule step_fire) (simp_all add: timer_due_def timer_live_def slow_review_def)
  note run = run_step [OF run this]
  let ?b = "run_finally (tk_key (lp_tasks ?a ! 0)) (set_task_state 0 Ended ?a)"
  have "loop_step 0 False ?a Task_Moved ?b"
    by (rule step_end) (simp_all add: run_timer_effect slow_review_def)
  note run = run_step [OF run this]
  note run = run_step [OF run step_schedule [of 0 False _ 7 "()"]]
  note run = run_step [OF run step_wait [of 30 0 False]]
  let ?c = "\<lparr>dm_quiet_period = 30, dm_pending = [7 \<mapsto> 2], dm_in_flight = Map.empty, lp_now = 90,
     lp_timers = [?m 30, ?m 60, (?m 90)\<lparr>tm_fired := False\<rparr>], lp_tasks = [?t Ended True, ?t Created False]\<rparr>"
  have "(schedule 7 () ?b)\<lparr>lp_now := lp_now (schedule 7 () ?b) + 30\<rparr> = ?c"
    by (simp add: slow_review_def run_timer_def fire_def run_finally_def schedule_def cancel_pending_def
        cancel_in_flight_def set_task_state_def update_at_def fun_eq_iff)
  with run obtain tr' where run: "loop_run 0 False 30 tr' ?c" by auto
  have "loop_step 0 False ?c (Fired (tm_key (lp_timers ?c ! 2)) 2 (lp_now ?c)) (run_timer 2 ?c)"
    by (rule step_fire) (simp_all add: timer_due_def timer_live_def)
  note run = run_step [OF run this]
  have "task_live (run_timer 2 ?c) 1 \<and> task_live (run_timer 2 ?c) 2
      \<and> tk_key (lp_tasks (run_timer 2 ?c) ! 1) = tk_key (lp_tasks (run_timer 2 ?c) ! 2)"
    by (simp add: task_live_def run_timer_effect)
  with run show ?thesis by (metis n_not_Suc_n One_nat_def numeral_2_eq_2)
qed

end
