(* ===== verification/Webhook.thy ===== *)
theory Webhook
  imports Db_Models Findings Py_Effects Py_Int Debounce
begin

text \<open>
  The webhook endpoint (\<^verbatim>\<open>kenjutsu/server/webhook.py\<close>): HMAC verification, the response codes,
  the idempotent insertion of the event, and the routing of events to the debounce manager.

  \<open>json.loads\<close>, the lookup of the installation, the commit and the rollback are operations on an
  arbitrary world; the unique constraint on \<open>delivery_id\<close> is the table's.  A failed commit leaves
  no row.  An exception the handler does not catch is answered with status 500 by the framework.
\<close>

section \<open>JSON values as Python objects\<close>

text \<open>\<open>value.get(key, default)\<close>, \<open>int(value)\<close>, and a value as a key of a dictionary or set.\<close>

fun dict_get :: "json \<Rightarrow> pystr \<Rightarrow> json \<Rightarrow> json result" where
  "dict_get (J_Dict d) key fallback = Inr (case map_of d key of Some v \<Rightarrow> v | None \<Rightarrow> fallback)"
| "dict_get _ key fallback = Inl AttributeError"

fun json_int :: "json \<Rightarrow> int result" where
  "json_int (J_Int n) = Inr n"
| "json_int (J_Bool b) = Inr (if b then 1 else 0)"
| "json_int (J_Float (Fin x)) = Inr (if x \<ge> 0 then \<lfloor>x\<rfloor> else \<lceil>x\<rceil>)"
| "json_int (J_Float NaN) = Inl ValueError"
| "json_int (J_Float _) = Inl OtherError"
| "json_int (J_Str s) = py_int s"
| "json_int _ = Inl TypeError"

text \<open>Equal numbers are equal keys.\<close>

fun dict_key :: "json \<Rightarrow> json result" where
  "dict_key (J_List _) = Inl TypeError"
| "dict_key (J_Dict _) = Inl TypeError"
| "dict_key (J_Bool b) = Inr (J_Int (if b then 1 else 0))"
| "dict_key (J_Float (Fin x)) = Inr (if of_int \<lfloor>x\<rfloor> = x then J_Int \<lfloor>x\<rfloor> else J_Float (Fin x))"
| "dict_key v = Inr v"

section \<open>Signatures\<close>

text \<open>\<open>hmac.compare_digest\<close> of two strings: they must be ASCII.\<close>

definition compare_digest :: "pystr \<Rightarrow> pystr \<Rightarrow> bool result" where
  "compare_digest a b = (if list_all (\<lambda>c. c < 128) (a @ b) then Inr (a = b) else Inl TypeError)"

definition verify_signature :: "pybytes \<Rightarrow> pystr \<Rightarrow> pystr \<Rightarrow> bool result" where
  "verify_signature payload_bytes signature_header secret =
     (if signature_header = [] \<or> \<not> starts_with signature_header (u ''sha256='') then Inr False
      else let expected_digest = drop (length (u ''sha256='')) signature_header
        in and_then (utf8_encode secret) (\<lambda>key.
             compare_digest (hexdigest (hmac_sha256 key payload_bytes)) expected_digest))"

section \<open>The endpoint\<close>

record webhook_request =
  rq_signature :: "pystr option"
  rq_event :: "pystr option"
  rq_delivery :: "pystr option"
  rq_body :: pybytes

record 'w hook_services =
  hk_secret :: pystr
  hk_loads :: "pybytes \<Rightarrow> json result"
  hk_installation :: "json \<Rightarrow> ('w, installation_row option) proc"
  hk_commit :: "pystr \<Rightarrow> uuid \<Rightarrow> pystr \<Rightarrow> json \<Rightarrow> ('w, uuid \<times> rat) proc"
  hk_rollback :: "('w, unit) proc"

record 'w hook_server =
  hs_events :: "webhook_event_row list"
  hs_background :: "(pystr \<times> json \<times> json) list"
  hs_world :: 'w

datatype hook_status = Hook_Accepted | Hook_Duplicate

definition missing :: "pystr option \<Rightarrow> bool" where
  "missing header \<longleftrightarrow> header = None \<or> header = Some []"

definition in_hook_world :: "('w, 'a) proc \<Rightarrow> ('w hook_server, 'a) proc" where
  "in_hook_world m = (\<lambda>s. case m (hs_world s) of (r, w) \<Rightarrow> (r, s\<lparr>hs_world := w\<rparr>))"

text \<open>\<open>json.loads\<close> with the handler for \<open>JSONDecodeError\<close>; other exceptions pass.\<close>

definition parse_payload :: "'w hook_services \<Rightarrow> pybytes \<Rightarrow> json result" where
  "parse_payload hk body =
     (case hk_loads hk body of Inl JSONDecodeError \<Rightarrow> Inl (HTTPException 400) | r \<Rightarrow> r)"

definition installation_id_of :: "json \<Rightarrow> json result" where
  "installation_id_of payload =
     and_then (dict_get payload (u ''installation'') (J_Dict [])) (\<lambda>i. dict_get i (u ''id'') J_Null)"

text \<open>\<open>db.add\<close> and \<open>db.commit\<close>, with the unique constraint.\<close>

definition commit_event ::
  "'w hook_services \<Rightarrow> pystr \<Rightarrow> uuid \<Rightarrow> pystr \<Rightarrow> json \<Rightarrow> ('w hook_server, unit) proc" where
  "commit_event hk delivery installation_id event_type payload = (\<lambda>s.
     if delivery \<in> we_delivery_id ` set (hs_events s) then (Inl IntegrityError, s)
     else case hk_commit hk delivery installation_id event_type payload (hs_world s) of
         (Inl e, w) \<Rightarrow> (Inl e, s\<lparr>hs_world := w\<rparr>)
       | (Inr (new_id, now), w) \<Rightarrow> (Inr (), s\<lparr>hs_world := w, hs_events := hs_events s @
           [\<lparr>we_id = new_id, we_delivery_id = delivery, we_installation_id = installation_id,
             we_event_type = event_type, we_payload_json = payload, we_processed = False,
             we_created_at = now\<rparr>]\<rparr>))"

definition add_task :: "pystr \<Rightarrow> json \<Rightarrow> json \<Rightarrow> ('w hook_server, unit) proc" where
  "add_task event_type action payload = (\<lambda>s.
     (Inr (), s\<lparr>hs_background := hs_background s @ [(event_type, action, payload)]\<rparr>))"

definition catch_integrity_error ::
  "('w hook_server, unit) proc \<Rightarrow> ('w hook_server, hook_status) proc \<Rightarrow> ('w hook_server, hook_status) proc
     \<Rightarrow> ('w hook_server, hook_status) proc" where
  "catch_integrity_error m handler rest = (\<lambda>s. case m s of
       (Inl IntegrityError, s') \<Rightarrow> handler s'
     | (Inl e, s') \<Rightarrow> (Inl e, s')
     | (Inr _, s') \<Rightarrow> rest s')"

text \<open>Steps 5 to 7: the installation, the insertion, the background task.\<close>

definition persist_event :: "'w hook_services \<Rightarrow> pystr \<Rightarrow> pystr \<Rightarrow> json \<Rightarrow> ('w hook_server, hook_status) proc" where
  "persist_event hk event delivery payload =
     seq (from_result (installation_id_of payload)) (\<lambda>github_installation_id.
       if github_installation_id = J_Null then raise (HTTPException 400)
       else seq (in_hook_world (hk_installation hk github_installation_id)) (\<lambda>installation.
         case installation of
           None \<Rightarrow> raise (HTTPException 400)
         | Some row \<Rightarrow>
             catch_integrity_error (commit_event hk delivery (in_id row) event payload)
               (seq (in_hook_world (hk_rollback hk)) (\<lambda>_. return Hook_Duplicate))
               (seq (from_result (dict_get payload (u ''action'') J_Null)) (\<lambda>action.
                seq (add_task event action payload) (\<lambda>_. return Hook_Accepted)))))"

definition receive_webhook :: "'w hook_services \<Rightarrow> webhook_request \<Rightarrow> ('w hook_server, hook_status) proc" where
  "receive_webhook hk rq =
     (if missing (rq_event rq) then raise (HTTPException 400)
      else if missing (rq_delivery rq) then raise (HTTPException 400)
      else if hk_secret hk = [] then raise (HTTPException 500)
      else seq (from_result (verify_signature (rq_body rq)
               (case rq_signature rq of Some s \<Rightarrow> s | None \<Rightarrow> []) (hk_secret hk))) (\<lambda>ok.
           if \<not> ok then raise (HTTPException 401)
           else seq (from_result (parse_payload hk (rq_body rq))) (\<lambda>payload.
             persist_event hk (the (rq_event rq)) (the (rq_delivery rq)) payload)))"

definition http_status :: "hook_status result \<Rightarrow> nat" where
  "http_status r = (case r of Inr _ \<Rightarrow> 200 | Inl (HTTPException n) \<Rightarrow> n | Inl _ \<Rightarrow> 500)"

section \<open>Routing\<close>

definition action_triggers :: "json \<Rightarrow> bool result" where
  "action_triggers action = and_then (dict_key action) (\<lambda>a.
     Inr (a \<in> {J_Str (u ''opened''), J_Str (u ''synchronize''), J_Str (u ''reopened'')}))"

text \<open>The key and the closure that \<open>_route_event\<close> hands to the debounce manager, if it does.\<close>

definition route_key :: "pystr \<times> json \<times> json \<Rightarrow> ((json \<times> int) \<times> (json \<times> json)) option result" where
  "route_key task = (case task of (event_type, action, payload) \<Rightarrow>
     if event_type \<noteq> u ''pull_request'' then Inr None
     else and_then (action_triggers action) (\<lambda>b.
       if \<not> b then Inr None
       else and_then (dict_get payload (u ''number'') J_Null) (\<lambda>pr_number.
            and_then (dict_get payload (u ''repository'') (J_Dict [])) (\<lambda>repository.
            and_then (dict_get repository (u ''full_name'') (J_Str (u ''unknown''))) (\<lambda>repo.
              if pr_number = J_Null then Inr None
              else and_then (json_int pr_number) (\<lambda>n.
                   and_then (dict_key repo) (\<lambda>r. Inr (Some ((r, n), (repo, pr_number)))))))))) "

definition route_event ::
  "pystr \<times> json \<times> json \<Rightarrow> (json \<times> int, json \<times> json) debouncer \<Rightarrow> (json \<times> int, json \<times> json) debouncer" where
  "route_event task s = (case route_key task of
       Inr (Some (pr_key, enqueue_review)) \<Rightarrow> schedule pr_key enqueue_review s
     | _ \<Rightarrow> s)"

section \<open>Authenticity\<close>

definition authentic :: "'w hook_services \<Rightarrow> webhook_request \<Rightarrow> bool" where
  "authentic hk rq \<longleftrightarrow> hk_secret hk \<noteq> []
     \<and> (\<exists>key. utf8_encode (hk_secret hk) = Inr key
          \<and> rq_signature rq = Some (u ''sha256='' @ hexdigest (hmac_sha256 key (rq_body rq))))"

lemma hexdigest_ascii: "list_all (\<lambda>c. c < 128) (hexdigest (hmac_sha256 key m))"
  using is_hex_hexdigest [OF hmac_range, of key m] by (auto simp: is_hex_def list_all_iff)

lemma verify_signature_iff:
  "verify_signature body header secret = Inr True \<longleftrightarrow>
     (\<exists>key. utf8_encode secret = Inr key \<and> header = u ''sha256='' @ hexdigest (hmac_sha256 key body))"
proof
  assume v: "verify_signature body header secret = Inr True"
  then have h: "starts_with header (u ''sha256='')"
    unfolding verify_signature_def by (auto split: if_split_asm simp del: u_Cons)
  then obtain t where t: "header = u ''sha256='' @ t" by (auto simp: starts_with_iff)
  have d: "drop (length (u ''sha256='')) header = t" by (simp add: t)
  from v h show "\<exists>key. utf8_encode secret = Inr key \<and> header = u ''sha256='' @ hexdigest (hmac_sha256 key body)"
    unfolding verify_signature_def Let_def d
    by (auto simp: t compare_digest_def simp del: u_Cons split: if_split_asm)
next
  assume "\<exists>key. utf8_encode secret = Inr key \<and> header = u ''sha256='' @ hexdigest (hmac_sha256 key body)"
  then obtain key where k: "utf8_encode secret = Inr key"
    and h: "header = u ''sha256='' @ hexdigest (hmac_sha256 key body)" by blast
  have d: "drop (length (u ''sha256='')) header = hexdigest (hmac_sha256 key body)" by (simp add: h)
  have "header \<noteq> []" "starts_with header (u ''sha256='')" by (simp_all add: h)
  then show "verify_signature body header secret = Inr True"
    unfolding verify_signature_def Let_def d
    using hexdigest_ascii [of key body] by (simp add: k compare_digest_def)
qed

lemma verify_signature_error: "verify_signature body header secret = Inl e \<Longrightarrow> e \<noteq> HTTPException n"
  by (auto simp: verify_signature_def compare_digest_def Let_def and_then_eq_Inl utf8_encode_def
      split: if_split_asm dest: map_result_Inl)

text \<open>
  Claim C21.  A request that is not signed with the configured secret over the very bytes of its
  body changes nothing: no row, no background task, no access to the database, and its answer is
  an error.
\<close>

theorem webhook_authenticated:
  "authentic hk rq
   \<or> snd (receive_webhook hk rq s) = s \<and> http_status (fst (receive_webhook hk rq s)) \<in> {400, 401, 500}"
proof (cases "authentic hk rq")
  case False
  let ?h = "case rq_signature rq of Some s \<Rightarrow> s | None \<Rightarrow> []"
  show ?thesis
  proof (cases "missing (rq_event rq) \<or> missing (rq_delivery rq) \<or> hk_secret hk = []")
    case True
    then show ?thesis by (auto simp: receive_webhook_def raise_def http_status_def)
  next
    case guards: False
    have nv: "verify_signature (rq_body rq) ?h (hk_secret hk) \<noteq> Inr True"
    proof
      assume "verify_signature (rq_body rq) ?h (hk_secret hk) = Inr True"
      then obtain key where "utf8_encode (hk_secret hk) = Inr key"
        "?h = u ''sha256='' @ hexdigest (hmac_sha256 key (rq_body rq))"
        unfolding verify_signature_iff by blast
      moreover from this(2) have "rq_signature rq = Some ?h" by (cases "rq_signature rq") auto
      ultimately show False using False guards unfolding authentic_def by metis
    qed
    then show ?thesis
    proof (cases "verify_signature (rq_body rq) ?h (hk_secret hk)")
      case (Inl e)
      with guards have "receive_webhook hk rq s = (Inl e, s)"
        by (simp add: receive_webhook_def seq_def from_result_def)
      moreover have "http_status (Inl e) = 500"
        using verify_signature_error [OF Inl] by (cases e) (auto simp: http_status_def)
      ultimately show ?thesis by simp
    next
      case (Inr b)
      with guards nv have "receive_webhook hk rq s = (Inl (HTTPException 401), s)"
        by (simp add: receive_webhook_def seq_def from_result_def raise_def)
      then show ?thesis by (simp add: http_status_def)
    qed
  qed
qed simp

section \<open>Each delivery once\<close>

definition action_of :: "json \<Rightarrow> json" where
  "action_of payload = (case dict_get payload (u ''action'') J_Null of Inr a \<Rightarrow> a | Inl _ \<Rightarrow> J_Null)"

definition task_of_event :: "webhook_event_row \<Rightarrow> pystr \<times> json \<times> json" where
  "task_of_event row = (we_event_type row, action_of (we_payload_json row), we_payload_json row)"

text \<open>The two ways a request can end.\<close>

definition accepts :: "'w hook_server \<Rightarrow> 'w hook_server \<Rightarrow> bool" where
  "accepts s s' \<longleftrightarrow> (\<exists>row. we_delivery_id row \<notin> we_delivery_id ` set (hs_events s)
     \<and> hs_events s' = hs_events s @ [row] \<and> hs_background s' = hs_background s @ [task_of_event row])"

definition unchanged :: "'w hook_server \<Rightarrow> 'w hook_server \<Rightarrow> bool" where
  "unchanged s s' \<longleftrightarrow> hs_events s' = hs_events s \<and> hs_background s' = hs_background s"

definition webhook_post :: "'w hook_server \<Rightarrow> hook_status result \<Rightarrow> 'w hook_server \<Rightarrow> bool" where
  "webhook_post s r s' \<longleftrightarrow> (if r = Inr Hook_Accepted then accepts s s' else unchanged s s')"

text \<open>The insertion and the task behind it.\<close>

definition insert_and_start :: "'w hook_services \<Rightarrow> pystr \<Rightarrow> pystr \<Rightarrow> json \<Rightarrow> uuid \<Rightarrow> ('w hook_server, hook_status) proc" where
  "insert_and_start hk event delivery payload i =
     catch_integrity_error (commit_event hk delivery i event payload)
       (seq (in_hook_world (hk_rollback hk)) (\<lambda>_. return Hook_Duplicate))
       (seq (from_result (dict_get payload (u ''action'') J_Null)) (\<lambda>action.
        seq (add_task event action payload) (\<lambda>_. return Hook_Accepted)))"

lemma persist_event_start:
  "persist_event hk event delivery payload s =
     (case installation_id_of payload of
        Inl e \<Rightarrow> (Inl e, s)
      | Inr i \<Rightarrow> if i = J_Null then (Inl (HTTPException 400), s)
          else (case hk_installation hk i (hs_world s) of
              (Inl e, w) \<Rightarrow> (Inl e, s\<lparr>hs_world := w\<rparr>)
            | (Inr None, w) \<Rightarrow> (Inl (HTTPException 400), s\<lparr>hs_world := w\<rparr>)
            | (Inr (Some row), w) \<Rightarrow> insert_and_start hk event delivery payload (in_id row) (s\<lparr>hs_world := w\<rparr>)))"
  by (simp add: persist_event_def insert_and_start_def seq_def from_result_def in_hook_world_def raise_def
      split: sum.split prod.split option.split)

lemma insert_and_start_cases:
  assumes "insert_and_start hk event delivery payload i s = (r, s')" "payload = J_Dict d"
  shows "webhook_post s r s'"
proof -
  obtain c t where c: "commit_event hk delivery i event payload s = (c, t)" by (metis surj_pair)
  obtain a where a: "dict_get payload (u ''action'') J_Null = Inr a" by (simp add: assms(2))
  show ?thesis
  proof (cases c)
    case (Inr x)
    with c obtain new where new: "hs_events t = hs_events s @ [new]" "hs_background t = hs_background s"
      "we_delivery_id new \<notin> we_delivery_id ` set (hs_events s)"
      "we_event_type new = event" "we_payload_json new = payload"
      by (auto simp: commit_event_def split: if_split_asm prod.split_asm sum.split_asm)
    have "r = Inr Hook_Accepted" "s' = t\<lparr>hs_background := hs_background t @ [(event, a, payload)]\<rparr>"
      using assms(1) c Inr a
      by (simp_all add: insert_and_start_def catch_integrity_error_def seq_def from_result_def add_task_def return_def)
    moreover have "task_of_event new = (event, a, payload)"
      using a new by (simp add: task_of_event_def action_of_def)
    ultimately show ?thesis using new by (auto simp: webhook_post_def accepts_def)
  next
    case (Inl e)
    with c have t: "hs_events t = hs_events s" "hs_background t = hs_background s"
      by (auto simp: commit_event_def split: if_split_asm prod.split_asm sum.split_asm)
    obtain b w' where b: "hk_rollback hk (hs_world t) = (b, w')" by (metis surj_pair)
    have "r \<noteq> Inr Hook_Accepted \<and> unchanged t s'"
      using assms(1) c Inl b
      by (cases e; cases b)
        (auto simp: insert_and_start_def catch_integrity_error_def seq_def in_hook_world_def return_def unchanged_def)
    with t show ?thesis by (simp add: webhook_post_def unchanged_def)
  qed
qed

lemma persist_event_cases:
  assumes "persist_event hk event delivery payload s = (r, s')"
  shows "webhook_post s r s'"
proof (cases "\<exists>i row w. installation_id_of payload = Inr i \<and> i \<noteq> J_Null \<and> hk_installation hk i (hs_world s) = (Inr (Some row), w)")
  case True
  then obtain i row w where i: "installation_id_of payload = Inr i" "i \<noteq> J_Null" "hk_installation hk i (hs_world s) = (Inr (Some row), w)"
    by blast
  then obtain d where d: "payload = J_Dict d"
    by (cases payload) (auto simp: installation_id_of_def)
  have "insert_and_start hk event delivery payload (in_id row) (s\<lparr>hs_world := w\<rparr>) = (r, s')"
    using assms i by (simp add: persist_event_start)
  from insert_and_start_cases [OF this d] show ?thesis
    by (auto simp: webhook_post_def accepts_def unchanged_def)
next
  case False
  with assms show ?thesis
    unfolding persist_event_start
    by (auto simp: webhook_post_def unchanged_def split: sum.split_asm if_split_asm prod.split_asm option.split_asm)
qed

lemma webhook_post_error: "webhook_post s (Inl e) s"
  by (simp add: webhook_post_def unchanged_def)

lemma receive_webhook_cases: "receive_webhook hk rq s = (r, s') \<Longrightarrow> webhook_post s r s'"
  unfolding receive_webhook_def
  by (auto simp: seq_def from_result_def raise_def webhook_post_error
      split: if_split_asm sum.split_asm intro: persist_event_cases)

fun receive_all :: "'w hook_services \<Rightarrow> webhook_request list \<Rightarrow> 'w hook_server \<Rightarrow> hook_status result list \<times> 'w hook_server"
where
  "receive_all hk [] s = ([], s)"
| "receive_all hk (rq # rqs) s =
     (let (r, s') = receive_webhook hk rq s; (rs, s'') = receive_all hk rqs s' in (r # rs, s''))"

definition server_inv :: "'w hook_server \<Rightarrow> bool" where
  "server_inv s \<longleftrightarrow> distinct (map we_delivery_id (hs_events s)) \<and> hs_background s = map task_of_event (hs_events s)"

lemma receive_all_inv:
  assumes "server_inv s"
  shows "server_inv (snd (receive_all hk rqs s))
    \<and> length (hs_events (snd (receive_all hk rqs s)))
      = length (hs_events s) + length (filter (\<lambda>r. r = Inr Hook_Accepted) (fst (receive_all hk rqs s)))"
  using assms
proof (induction rqs arbitrary: s)
  case (Cons rq rqs)
  obtain r s' where r: "receive_webhook hk rq s = (r, s')" by (metis surj_pair)
  obtain rs s'' where rs: "receive_all hk rqs s' = (rs, s'')" by (metis surj_pair)
  note post = receive_webhook_cases [OF r]
  show ?case
  proof (cases "r = Inr Hook_Accepted")
    case True
    with post obtain row where "we_delivery_id row \<notin> we_delivery_id ` set (hs_events s)"
      "hs_events s' = hs_events s @ [row]" "hs_background s' = hs_background s @ [task_of_event row]"
      by (auto simp: webhook_post_def accepts_def)
    moreover from this Cons.prems have "server_inv s'" by (simp add: server_inv_def)
    ultimately show ?thesis using Cons.IH [of s'] r rs True by simp
  next
    case False
    with post have "hs_events s' = hs_events s" "server_inv s'"
      using Cons.prems by (simp_all add: webhook_post_def unchanged_def server_inv_def)
    with Cons.IH [of s'] r rs False show ?thesis by simp
  qed
qed simp

text \<open>
  Claim C22.  Deliveries are handled exactly once.  Over any sequence of requests, with
  redeliveries and failures, no delivery id is stored twice, one background task is started for
  each stored event and no other, with this event's type, action and payload, and as many events
  are stored as requests were answered \<open>accepted\<close>.
\<close>

theorem deliveries_once:
  "let (answers, s) = receive_all hk rqs \<lparr>hs_events = [], hs_background = [], hs_world = w\<rparr>
   in distinct (map we_delivery_id (hs_events s))
      \<and> hs_background s = map task_of_event (hs_events s)
      \<and> length (hs_events s) = length (filter (\<lambda>r. r = Inr Hook_Accepted) answers)"
  using receive_all_inv [of "\<lparr>hs_events = [], hs_background = [], hs_world = w\<rparr>" hk rqs]
  by (simp add: server_inv_def case_prod_beta Let_def)

section \<open>Sample deliveries\<close>

definition sample_payload :: json where
  "sample_payload = J_Dict [(u ''action'', J_Str (u ''opened'')), (u ''number'', J_Int 7),
     (u ''repository'', J_Dict [(u ''full_name'', J_Str (u ''a/b''))]), (u ''installation'', J_Dict [(u ''id'', J_Int 1)])]"

definition sample_hook :: "unit hook_services" where
  "sample_hook = \<lparr>hk_secret = u ''k'', hk_loads = (\<lambda>_. Inr sample_payload),
     hk_installation = (\<lambda>_. return (Some \<lparr>in_id = u ''i'', in_github_installation_id = 1, in_account_login = [],
        in_account_type = [], in_suspended = False, in_created_at = 0, in_updated_at = 0\<rparr>)),
     hk_commit = (\<lambda>d _ _ _. return (d, 0)), hk_rollback = return ()\<rparr>"

definition sample_delivery :: "pystr \<Rightarrow> webhook_request" where
  "sample_delivery d = \<lparr>rq_signature = Some (u ''sha256='' @ hexdigest (hmac_sha256 (u ''k'') [])),
     rq_event = Some (u ''pull_request''), rq_delivery = Some d, rq_body = []\<rparr>"

lemma sample_signed: "verify_signature [] (u ''sha256='' @ hexdigest (hmac_sha256 (u ''k'') [])) (u ''k'') = Inr True"
proof -
  have "utf8_encode (u ''k'') = Inr (u ''k'')"
    by (simp add: utf8_encode_def is_surrogate_def utf8_char_def)
  then show ?thesis unfolding verify_signature_iff by blast
qed

definition sample_rows :: "webhook_event_row list" where
  "sample_rows = map (\<lambda>d. \<lparr>we_id = d, we_delivery_id = d, we_installation_id = u ''i'', we_event_type = u ''pull_request'',
     we_payload_json = sample_payload, we_processed = False, we_created_at = 0\<rparr>) [u ''1'', u ''2'']"

lemma sample_accepted:
  assumes "d \<notin> we_delivery_id ` set (hs_events s)" "d \<noteq> []"
  shows "receive_webhook sample_hook (sample_delivery d) s
    = (Inr Hook_Accepted, s\<lparr>hs_events := hs_events s @ [\<lparr>we_id = d, we_delivery_id = d, we_installation_id = u ''i'',
         we_event_type = u ''pull_request'', we_payload_json = sample_payload, we_processed = False, we_created_at = 0\<rparr>],
        hs_background := hs_background s @ [(u ''pull_request'', J_Str (u ''opened''), sample_payload)]\<rparr>)"
  using assms sample_signed
  by (simp add: receive_webhook_def sample_hook_def sample_delivery_def missing_def seq_def from_result_def
      parse_payload_def persist_event_def sample_payload_def installation_id_of_def in_hook_world_def return_def
      catch_integrity_error_def commit_event_def add_task_def del: u_Cons)

lemma sample_redelivered:
  assumes "d \<in> we_delivery_id ` set (hs_events s)" "d \<noteq> []"
  shows "receive_webhook sample_hook (sample_delivery d) s = (Inr Hook_Duplicate, s)"
  using assms sample_signed
  by (simp add: receive_webhook_def sample_hook_def sample_delivery_def missing_def seq_def from_result_def
      parse_payload_def persist_event_def sample_payload_def installation_id_of_def in_hook_world_def return_def
      catch_integrity_error_def commit_event_def del: u_Cons)

section \<open>Observations\<close>

text \<open>Some malformed requests raise instead of being refused.\<close>

lemma null_installation_raises:
  "installation_id_of (J_Dict [(u ''installation'', J_Null)]) = Inl AttributeError"
  by (simp add: installation_id_of_def)

lemma non_ascii_signature_raises:
  "utf8_encode secret = Inr key \<Longrightarrow> verify_signature body (u ''sha256='' @ [233]) secret = Inl TypeError"
  by (simp add: verify_signature_def compare_digest_def)

text \<open>A redelivery is answered with status 200.\<close>

lemma redelivery_is_200: "http_status (Inr Hook_Duplicate) = 200"
  by (simp add: http_status_def)

text \<open>
  Every \<open>IntegrityError\<close> counts as a redelivery.  A foreign key that fails, because the installation
  has been deleted since it was looked up, is answered with \<open>duplicate\<close>, and the event is lost.
\<close>

lemma foreign_key_failure_is_duplicate:
  assumes "installation_id_of payload = Inr i" "i \<noteq> J_Null"
    and "hk_installation hk i (hs_world s) = (Inr (Some row), w1)"
    and "hk_commit hk delivery (in_id row) event payload w1 = (Inl IntegrityError, w2)"
    and "hk_rollback hk w2 = (Inr (), w3)"
  shows "persist_event hk event delivery payload s = (Inr Hook_Duplicate, s\<lparr>hs_world := w3\<rparr>)
    \<or> delivery \<in> we_delivery_id ` set (hs_events s)"
  using assms
  by (auto simp: persist_event_def seq_def from_result_def in_hook_world_def catch_integrity_error_def
      commit_event_def return_def)

end
