(* ===== verification/Deliveries.thy ===== *)
theory Deliveries
  imports Webhook
begin

text \<open>
  The server as a whole: requests are received, background tasks run, and the event loop moves, in any
  interleaving and at any times.  Every stored event that asks for a review of a pull request leads to
  one, unless a later event of the same pull request comes first.
\<close>

section \<open>What an event asks for\<close>

text \<open>
  The reference, read off the stored payload: a \<open>pull_request\<close> event with one of the three actions, a
  number and a readable repository asks for a review; the key is the name of the repository
  (\<open>unknown\<close> where it is missing) and the number.
\<close>

definition repository_name :: "(pystr \<times> json) list \<Rightarrow> json option" where
  "repository_name d = (case map_of d (u ''repository'') of
       None \<Rightarrow> Some (J_Str (u ''unknown''))
     | Some (J_Dict r) \<Rightarrow> Some (case map_of r (u ''full_name'') of None \<Rightarrow> J_Str (u ''unknown'') | Some name \<Rightarrow> name)
     | Some _ \<Rightarrow> None)"

definition review_action :: "json option \<Rightarrow> bool" where
  "review_action a \<longleftrightarrow> a = Some (J_Str (u ''opened'')) \<or> a = Some (J_Str (u ''synchronize''))
     \<or> a = Some (J_Str (u ''reopened''))"

definition asked :: "webhook_event_row \<Rightarrow> ((json \<times> int) \<times> (json \<times> json)) option" where
  "asked row = (case we_payload_json row of
       J_Dict d \<Rightarrow>
         (if we_event_type row = u ''pull_request'' \<and> review_action (map_of d (u ''action''))
          then (case (map_of d (u ''number''), repository_name d) of
               (Some number, Some repo) \<Rightarrow>
                 if number = J_Null then None
                 else (case (json_int number, dict_key repo) of
                     (Inr n, Inr r) \<Rightarrow> Some ((r, n), (repo, number)) | _ \<Rightarrow> None)
             | _ \<Rightarrow> None)
          else None)
     | _ \<Rightarrow> None)"

lemma dict_key_str: "dict_key v = Inr (J_Str x) \<longleftrightarrow> v = J_Str x"
  by (cases v rule: dict_key.cases) auto

lemma action_triggers_iff:
  "action_triggers (case a of Some v \<Rightarrow> v | None \<Rightarrow> J_Null) = Inr True \<longleftrightarrow> review_action a"
  by (cases a) (auto simp: action_triggers_def review_action_def and_then_eq_Inr dict_key_str simp del: u_Cons)

lemma route_key_asked: "route_key (task_of_event row) = Inr (Some x) \<longleftrightarrow> asked row = Some x"
proof (cases "\<exists>d. we_payload_json row = J_Dict d")
  case True
  then obtain d where d: "we_payload_json row = J_Dict d" by blast
  have action: "action_of (J_Dict d) = (case map_of d (u ''action'') of Some v \<Rightarrow> v | None \<Rightarrow> J_Null)"
    by (simp add: action_of_def del: u_Cons)
  show ?thesis
  proof (cases "we_event_type row = u ''pull_request'' \<and> review_action (map_of d (u ''action''))")
    case False
    then show ?thesis
      using action_triggers_iff [of "map_of d (u ''action'')"]
      by (cases "action_triggers (action_of (J_Dict d))")
        (auto simp: route_key_def task_of_event_def d asked_def action simp del: u_Cons split: if_split_asm)
  next
    case True
    then have "action_triggers (action_of (J_Dict d)) = Inr True"
      using action_triggers_iff [of "map_of d (u ''action'')"] by (simp add: action)
    then show ?thesis
      using True
      by (auto simp: route_key_def task_of_event_def d asked_def repository_name_def simp del: u_Cons
          split: option.splits json.splits if_splits sum.splits)
  qed
next
  case False
  then have "action_of (we_payload_json row) = J_Null" "asked row = None"
    by (cases "we_payload_json row"; simp add: action_of_def asked_def del: u_Cons)+
  then show ?thesis
    by (auto simp: route_key_def task_of_event_def action_triggers_def simp del: u_Cons)
qed

section \<open>The run of the server\<close>

text \<open>
  Requests arrive at any time; each background task of an accepted one runs once, at any later time and
  in any order; and the loop takes its own steps.  The log keeps, for each task that has run, its
  index, the time, and how many review tasks had been created by then.
\<close>

type_synonym task_log = "(nat \<times> rat \<times> nat) list"

type_synonym pr_debouncer = "(json \<times> int, json \<times> json) debouncer"

inductive service_run ::
  "'w hook_services \<Rightarrow> rat \<Rightarrow> bool \<Rightarrow> rat \<Rightarrow> 'w hook_server \<Rightarrow> task_log \<Rightarrow> pr_debouncer \<Rightarrow> bool"
  for hk :: "'w hook_services" and resolution :: rat and prompt :: bool and quiet_period :: rat where
  started: "service_run hk resolution prompt quiet_period \<lparr>hs_events = [], hs_background = [], hs_world = w\<rparr> []
     (new_debouncer quiet_period now)"
| received: "service_run hk resolution prompt quiet_period s done_tasks d \<Longrightarrow> receive_webhook hk rq s = (r, s')
     \<Longrightarrow> service_run hk resolution prompt quiet_period s' done_tasks d"
| task_run: "service_run hk resolution prompt quiet_period s done_tasks d \<Longrightarrow> i < length (hs_background s) \<Longrightarrow> i \<notin> fst ` set done_tasks
     \<Longrightarrow> service_run hk resolution prompt quiet_period s (done_tasks @ [(i, lp_now d, length (lp_tasks d))])
           (route_event (hs_background s ! i) d)"
| loop_moved: "service_run hk resolution prompt quiet_period s done_tasks d \<Longrightarrow> loop_step resolution prompt d e d'
     \<Longrightarrow> (\<forall>k f h t. e \<noteq> Scheduled k f h t) \<Longrightarrow> (\<forall>k. e \<noteq> Cancelled k)
     \<Longrightarrow> service_run hk resolution prompt quiet_period s done_tasks d'"

text \<open>The last event of a pull request whose task has run: what it asked for, when, and after how many tasks.\<close>

definition requests :: "webhook_event_row list \<Rightarrow> task_log \<Rightarrow> ((json \<times> int) \<times> (json \<times> json) \<times> rat \<times> nat) list" where
  "requests rows done_tasks = List.map_filter (\<lambda>(i, t, n). map_option (\<lambda>(k, f). (k, f, t, n)) (asked (rows ! i))) done_tasks"

definition last_request :: "(json \<times> int) \<Rightarrow> webhook_event_row list \<Rightarrow> task_log \<Rightarrow> ((json \<times> json) \<times> rat \<times> nat) option" where
  "last_request k rows done_tasks = map_option snd (find (\<lambda>r. fst r = k) (rev (requests rows done_tasks)))"

text \<open>
  The reviews of a pull request created after the first \<open>n\<close> tasks: what each was created for, and
  whether it was asked to cancel.
\<close>

definition reviews_since :: "nat \<Rightarrow> 'k \<Rightarrow> ('k, 'c) debouncer \<Rightarrow> ('c \<times> bool) list" where
  "reviews_since n k d = map (\<lambda>t. (tk_factory t, tk_cancelled t)) (filter (\<lambda>t. tk_key t = k) (drop n (lp_tasks d)))"

section \<open>Reviews under the steps\<close>

lemma reviews_since_cong:
  assumes "list_all2 (\<lambda>t t'. tk_key t' = tk_key t \<and> (tk_key t = k \<longrightarrow> tk_factory t' = tk_factory t \<and> tk_cancelled t' = tk_cancelled t))
      (lp_tasks d) (lp_tasks d')"
  shows "reviews_since n k d' = reviews_since n k d"
  unfolding reviews_since_def
  using list_all2_dropI [OF assms, of n] by (induction rule: list_all2_induct) auto

lemma list_all2_update_at:
  assumes "\<And>x. x \<in> set xs \<Longrightarrow> R x x" "i < length xs \<Longrightarrow> R (xs ! i) (f (xs ! i))"
  shows "list_all2 R xs (update_at i f xs)"
  using assms by (auto simp: list_all2_conv_all_nth)

lemma reviews_since_moved:
  "reviews_since n k (set_task_state i st d) = reviews_since n k d"
  "reviews_since n k (run_finally k' d) = reviews_since n k d"
  "reviews_since n k (d\<lparr>lp_now := x\<rparr>) = reviews_since n k d"
  by (rule reviews_since_cong; simp add: set_task_state_def run_finally_def list_all2_update_at list_all2_same)+

lemma reviews_since_schedule:
  assumes "debounce_inv d" "k' \<noteq> k"
  shows "reviews_since n k (schedule k' f d) = reviews_since n k d"
proof -
  obtain b s1 b' s2 where s: "cancel_pending k' d = (b, s1)" "cancel_in_flight k' s1 = (b', s2)"
    "schedule k' f d = add_timer k' f s2" "debounce_inv s1"
    using schedule_cases [OF assms(1), of k' f] by metis
  have "lp_tasks s1 = lp_tasks d" using s(1) by (auto simp: cancel_pending_def split: option.split_asm)
  moreover have "reviews_since n k s2 = reviews_since n k s1"
  proof (cases "dm_in_flight s1 k'")
    case None
    with s(2) show ?thesis by (simp add: cancel_in_flight_def)
  next
    case (Some i)
    then have "tk_key (lp_tasks s1 ! i) = k'"
      using debounce_invD(2) [OF s(4), of k'] by (simp add: live_tasks_def)
    with Some s(2) assms(2) show ?thesis
      by (intro reviews_since_cong)
        (auto simp: cancel_in_flight_def cancel_task_def intro!: list_all2_update_at)
  qed
  ultimately show ?thesis by (simp add: s(3) reviews_since_def add_timer_def)
qed

lemma schedule_clock:
  "debounce_inv d \<Longrightarrow> lp_now (schedule k f d) = lp_now d \<and> dm_quiet_period (schedule k f d) = dm_quiet_period d"
  by (rule schedule_cases [of d k f]) (simp_all add: add_timer_def)

lemma schedule_tasks_length: "debounce_inv d \<Longrightarrow> length (lp_tasks (schedule k f d)) = length (lp_tasks d)"
  by (rule schedule_cases [of d k f]) (simp_all add: add_timer_def)

lemma reviews_since_run_timer:
  assumes "n \<le> length (lp_tasks d)"
  shows "reviews_since n k (run_timer h d) = reviews_since n k d
    @ (if tm_key (lp_timers d ! h) = k then [(tm_factory (lp_timers d ! h), False)] else [])"
  using assms by (simp add: reviews_since_def run_timer_effect)

section \<open>The invariant\<close>

text \<open>
  For each pull request, since its last event: either its timer is pending and no review was
  created, or its only review was created and no timer is pending.
\<close>

definition key_served :: "rat \<Rightarrow> (json \<times> int) \<Rightarrow> ((json \<times> json) \<times> rat \<times> nat) option \<Rightarrow> pr_debouncer \<Rightarrow> bool" where
  "key_served q k request d \<longleftrightarrow> (case request of
       None \<Rightarrow> dm_pending d k = None \<and> reviews_since 0 k d = []
     | Some (f, t, n) \<Rightarrow> n \<le> length (lp_tasks d) \<and>
         ((\<exists>h. dm_pending d k = Some h \<and> tm_plan (lp_timers d ! h) = (k, f, t + q) \<and> reviews_since n k d = [])
          \<or> dm_pending d k = None \<and> reviews_since n k d = [(f, False)]))"

definition service_inv :: "rat \<Rightarrow> 'w hook_server \<Rightarrow> task_log \<Rightarrow> pr_debouncer \<Rightarrow> bool" where
  "service_inv q s done_tasks d \<longleftrightarrow> debounce_inv d \<and> dm_quiet_period d = q \<and> hs_background s = map task_of_event (hs_events s)
     \<and> (\<forall>e \<in> set done_tasks. fst e < length (hs_events s))
     \<and> (\<forall>k. key_served q k (last_request k (hs_events s) done_tasks) d)"

lemma requests_snoc:
  "requests rows (done_tasks @ [(i, t, n)]) = requests rows done_tasks @ (case asked (rows ! i) of None \<Rightarrow> [] | Some (k, f) \<Rightarrow> [(k, f, t, n)])"
  by (simp add: requests_def map_filter_def split: option.split prod.split)

lemma last_request_snoc:
  "last_request k rows (done_tasks @ [(i, t, n)]) = (case asked (rows ! i) of
      None \<Rightarrow> last_request k rows done_tasks
    | Some (k', f) \<Rightarrow> if k' = k then Some (f, t, n) else last_request k rows done_tasks)"
  by (simp add: last_request_def requests_snoc split: option.split prod.split)

lemma map_filter_cong: "(\<And>x. x \<in> set xs \<Longrightarrow> f x = g x) \<Longrightarrow> List.map_filter f xs = List.map_filter g xs"
  by (induction xs) (auto simp: map_filter_simps split: option.split)

lemma last_request_rows:
  assumes "\<forall>e \<in> set done_tasks. fst e < length rows"
  shows "last_request k (rows @ later) done_tasks = last_request k rows done_tasks"
proof -
  have "requests (rows @ later) done_tasks = requests rows done_tasks"
    unfolding requests_def using assms
    by (intro map_filter_cong) (auto simp: nth_append split: prod.split)
  then show ?thesis by (simp add: last_request_def)
qed

lemma key_served_new: "key_served q k None (new_debouncer q now)"
  by (simp add: key_served_def new_debouncer_def reviews_since_def)

lemma key_served_schedule:
  assumes "debounce_inv d" "dm_quiet_period d = q"
  shows "key_served q k (Some (f, lp_now d, length (lp_tasks d))) (schedule k f d)"
    and "k' \<noteq> k \<Longrightarrow> key_served q k' request d \<Longrightarrow> key_served q k' request (schedule k f d)"
proof -
  let ?d = "schedule k f d"
  note eff = schedule_effect [OF assms(1), of k f]
  have len: "length (lp_timers ?d) = Suc (length (lp_timers d))" using arg_cong [OF eff(2), of length] by simp
  have plan: "tm_plan (lp_timers ?d ! h) = (map tm_plan (lp_timers d) @ [(k, f, lp_now d + q)]) ! h"
    if "h \<le> length (lp_timers d)" for h
    using arg_cong [OF eff(2), of "\<lambda>xs. xs ! h"] that len assms(2) by simp
  have "reviews_since (length (lp_tasks d)) k ?d = []"
    using schedule_tasks_length [OF assms(1), of k f] by (simp add: reviews_since_def)
  then show "key_served q k (Some (f, lp_now d, length (lp_tasks d))) ?d"
    using plan [of "length (lp_timers d)"] eff(1) schedule_tasks_length [OF assms(1), of k f]
    by (simp add: key_served_def nth_append)
  assume other: "k' \<noteq> k" and served: "key_served q k' request d"
  have "tm_plan (lp_timers ?d ! h) = tm_plan (lp_timers d ! h)" if "dm_pending d k' = Some h" for h
    using live_of_pending [OF assms(1) that] plan [of h] by (simp add: timer_live_def nth_append)
  then show "key_served q k' request ?d"
    using served other reviews_since_schedule [OF assms(1), of k k'] eff(1) schedule_tasks_length [OF assms(1), of k f]
    by (auto simp: key_served_def split: option.split_asm prod.split_asm)
qed

lemma key_served_fire:
  assumes "debounce_inv d" "timer_live d h" "key_served q k request d"
  shows "key_served q k request (run_timer h d)"
proof (cases "tm_key (lp_timers d ! h) = k")
  case True
  then have p: "dm_pending d k = Some h" using pending_of_live [OF assms(1,2)] by simp
  with assms(3) True show ?thesis
    by (auto simp: key_served_def run_timer_effect reviews_since_run_timer tm_plan_def split: option.split_asm)
next
  case False
  then have other: "h' \<noteq> h" if "dm_pending d k = Some h'" for h'
    using live_of_pending [OF assms(1) that] by auto
  have "tm_plan (lp_timers (run_timer h d) ! h') = tm_plan (lp_timers d ! h')" if "dm_pending d k = Some h'" for h'
    using live_of_pending [OF assms(1) that] other [OF that] by (simp add: run_timer_effect timer_live_def)
  with assms(3) False show ?thesis
    by (auto simp: key_served_def run_timer_effect reviews_since_run_timer split: option.split_asm)
qed

lemma key_served_cong:
  "dm_pending d' = dm_pending d \<Longrightarrow> lp_timers d' = lp_timers d \<Longrightarrow> length (lp_tasks d') = length (lp_tasks d)
     \<Longrightarrow> (\<And>n. reviews_since n k d' = reviews_since n k d) \<Longrightarrow> key_served q k request d' = key_served q k request d"
  by (simp add: key_served_def split: option.split prod.split)

lemma moved_sel [simp]:
  "dm_pending (set_task_state i st d) = dm_pending d" "lp_timers (set_task_state i st d) = lp_timers d"
  "length (lp_tasks (set_task_state i st d)) = length (lp_tasks d)" "dm_quiet_period (set_task_state i st d) = dm_quiet_period d"
  "dm_pending (run_finally k d) = dm_pending d" "lp_timers (run_finally k d) = lp_timers d"
  "lp_tasks (run_finally k d) = lp_tasks d" "dm_quiet_period (run_finally k d) = dm_quiet_period d"
  by (simp_all add: set_task_state_def run_finally_def)

lemma key_served_moved:
  "key_served q k request (set_task_state i st d) = key_served q k request d"
  "key_served q k request (run_finally k' d) = key_served q k request d"
  "key_served q k request (d\<lparr>lp_now := x\<rparr>) = key_served q k request d"
  by (rule key_served_cong; simp add: reviews_since_moved)+

lemma key_served_loop:
  assumes "loop_step resolution prompt d e d'" "\<forall>k f h t. e \<noteq> Scheduled k f h t" "\<forall>k. e \<noteq> Cancelled k"
    and "debounce_inv d"
  shows "(key_served q k request d \<longrightarrow> key_served q k request d') \<and> dm_quiet_period d' = dm_quiet_period d"
  using assms(1)
proof cases
  case (step_fire h)
  then show ?thesis using key_served_fire [OF assms(4)] by (simp add: timer_due_def run_timer_effect)
qed (use assms(2,3) in \<open>auto simp: key_served_moved\<close>)

lemma receive_rows:
  assumes "receive_webhook hk rq s = (r, s')" "hs_background s = map task_of_event (hs_events s)"
  obtains rows where "hs_events s' = hs_events s @ rows" "hs_background s' = map task_of_event (hs_events s')"
proof (cases "r = Inr Hook_Accepted")
  case True
  with receive_webhook_cases [OF assms(1)] obtain row where
    "hs_events s' = hs_events s @ [row]" "hs_background s' = hs_background s @ [task_of_event row]"
    by (auto simp: webhook_post_def accepts_def)
  with assms(2) that show thesis by simp
next
  case False
  with receive_webhook_cases [OF assms(1)] have "hs_events s' = hs_events s" "hs_background s' = hs_background s"
    by (auto simp: webhook_post_def unchanged_def)
  with assms(2) that [of "[]"] show thesis by simp
qed

lemma route_event_asked:
  "route_event (task_of_event row) d = (case asked row of None \<Rightarrow> d | Some (k, f) \<Rightarrow> schedule k f d)"
proof (cases "asked row")
  case None
  then have "\<nexists>x. route_key (task_of_event row) = Inr (Some x)" using route_key_asked [of row] by simp
  with None show ?thesis by (auto simp: route_event_def split: sum.split option.split)
next
  case (Some x)
  then have "route_key (task_of_event row) = Inr (Some x)" using route_key_asked [of row x] by simp
  with Some show ?thesis by (simp add: route_event_def split: prod.split)
qed

lemma service_run_inv: "service_run hk resolution prompt q s done_tasks d \<Longrightarrow> service_inv q s done_tasks d"
proof (induction rule: service_run.induct)
  case (started w now)
  have "debounce_inv (new_debouncer q now :: pr_debouncer)"
    by (rule loop_run_inv [where resolution = 0 and prompt = True, OF run_new])
  then show ?case
    using key_served_new [of q _ now]
    by (simp add: service_inv_def last_request_def requests_def map_filter_simps) (simp add: new_debouncer_def)
next
  case (received s done_tasks d rq r s')
  then have inv: "service_inv q s done_tasks d" by blast
  then obtain rows where "hs_events s' = hs_events s @ rows" "hs_background s' = map task_of_event (hs_events s')"
    using receive_rows [OF received.hyps(2)] by (metis service_inv_def)
  with inv show ?case by (auto simp: service_inv_def last_request_rows intro: trans_less_add1)
next
  case (task_run s done_tasks d i)
  let ?row = "hs_events s ! i"
  have inv: "service_inv q s done_tasks d" and i: "i < length (hs_events s)" "hs_background s ! i = task_of_event ?row"
    using task_run by (auto simp: service_inv_def)
  show ?case
  proof (cases "asked ?row")
    case None
    with inv i show ?thesis by (simp add: service_inv_def last_request_snoc route_event_asked)
  next
    case (Some x)
    then obtain k f where x: "asked ?row = Some (k, f)" by (cases x) simp
    have d: "debounce_inv d" "dm_quiet_period d = q" using inv by (simp_all add: service_inv_def)
    have "key_served q k' (last_request k' (hs_events s) (done_tasks @ [(i, lp_now d, length (lp_tasks d))])) (schedule k f d)" for k'
    proof -
      have "key_served q k' (last_request k' (hs_events s) done_tasks) d" using inv unfolding service_inv_def by blast
      then show ?thesis
        using key_served_schedule(1) [OF d, of k f] key_served_schedule(2) [OF d, of k' k]
        by (cases "k' = k") (simp_all add: last_request_snoc x)
    qed
    with inv i x d show ?thesis
      by (simp add: service_inv_def route_event_asked schedule_inv(1) schedule_clock)
  qed
next
  case (loop_moved s done_tasks d e d')
  then have "service_inv q s done_tasks d" by blast
  with loop_step_inv [OF loop_moved.hyps(2)] key_served_loop [OF loop_moved.hyps(2-4)] show ?case
    by (simp add: service_inv_def)
qed

section \<open>Every request is served\<close>

lemma run_due_tasks:
  assumes "debounce_inv d"
  obtains new where "lp_tasks (run_due resolution d) = lp_tasks d @ new"
    and "dm_pending d k = None \<Longrightarrow> dm_pending (run_due resolution d) k = None"
proof -
  let ?hs = "sort_key (\<lambda>h. tm_when (lp_timers d ! h)) (filter (timer_due resolution d) [0..<length (lp_timers d)])"
  have "\<forall>h \<in> set ?hs. timer_live d h" by (simp add: timer_due_def)
  from run_live_timers [OF distinct_due this assms] that show thesis unfolding run_due_def by auto
qed

lemma due_review:
  assumes "debounce_inv d" "key_served q k (Some (f, t, n)) d" "t + q \<le> lp_now d + resolution"
  shows "reviews_since n k (run_due resolution d) = [(f, False)] \<and> dm_pending (run_due resolution d) k = None"
proof -
  obtain new where new: "lp_tasks (run_due resolution d) = lp_tasks d @ new"
    "dm_pending d k = None \<Longrightarrow> dm_pending (run_due resolution d) k = None"
    using run_due_tasks [OF assms(1)] by metis
  have n: "n \<le> length (lp_tasks d)" using assms(2) by (simp add: key_served_def)
  then have split: "reviews_since n k (run_due resolution d)
      = reviews_since n k d @ map (\<lambda>t. (tk_factory t, tk_cancelled t)) (filter (\<lambda>t. tk_key t = k) new)"
    by (simp add: reviews_since_def new(1))
  have drop: "drop (length (lp_tasks d)) (lp_tasks (run_due resolution d)) = new" by (simp add: new(1))
  show ?thesis
  proof (cases "dm_pending d k")
    case None
    with assms(2) no_timer_no_review [OF assms(1) None, of resolution] split new(2) show ?thesis
      by (simp add: key_served_def drop)
  next
    case (Some h)
    with assms(2) have h: "tm_plan (lp_timers d ! h) = (k, f, t + q)" "reviews_since n k d = []"
      by (auto simp: key_served_def)
    from due_timer_reviewed [OF assms(1) Some h(1) assms(3)] split h(2) show ?thesis by (simp add: drop)
  qed
qed

text \<open>
  Claim C25.  From delivery to review, at any times.  However requests (redelivered, forged and
  malformed ones included), background tasks and the steps of the event loop interleave: when a quiet
  period has passed since the task of the last event that asked for a review of a pull request (a
  \<open>pull_request\<close> event with action \<open>opened\<close>, \<open>synchronize\<close> or \<open>reopened\<close>), then after the next iteration of
  the loop exactly one review of this pull request was created since that event, for what it asked,
  which nothing has cancelled, and no further one is pending; and a pull request that no event asked for has no review.
\<close>

theorem deliveries_reviewed:
  assumes "service_run hk resolution prompt q s done_tasks d"
  shows "case last_request k (hs_events s) done_tasks of
      None \<Rightarrow> reviews_since 0 k (run_due resolution d) = []
    | Some (f, t, n) \<Rightarrow> t + q \<le> lp_now d + resolution \<longrightarrow>
        reviews_since n k (run_due resolution d) = [(f, False)] \<and> dm_pending (run_due resolution d) k = None"
proof -
  have inv: "debounce_inv d" "key_served q k (last_request k (hs_events s) done_tasks) d"
    using service_run_inv [OF assms] unfolding service_inv_def by blast+
  show ?thesis
  proof (cases "last_request k (hs_events s) done_tasks")
    case None
    then have none: "dm_pending d k = None" "reviews_since 0 k d = []" using inv(2) by (simp_all add: key_served_def)
    obtain new where "lp_tasks (run_due resolution d) = lp_tasks d @ new"
      using run_due_tasks [OF inv(1)] by metis
    with none no_timer_no_review [OF inv(1) none(1), of resolution] None show ?thesis
      by (simp add: reviews_since_def)
  next
    case (Some x)
    then obtain f t n where "last_request k (hs_events s) done_tasks = Some (f, t, n)" by (cases x) auto
    with inv due_review [OF inv(1), of q k f t n resolution] show ?thesis by simp
  qed
qed

section \<open>A push and a second push\<close>

text \<open>
  Two deliveries, one of them repeated; the second task runs ten seconds after the first, and half a
  minute later one review is created.
\<close>

definition sample_server :: "unit hook_server" where
  "sample_server = \<lparr>hs_events = sample_rows, hs_background = map task_of_event sample_rows, hs_world = ()\<rparr>"

definition sample_key :: "json \<times> int" where
  "sample_key = (J_Str (u ''a/b''), 7)"

definition sample_loop :: pr_debouncer where
  "sample_loop = (schedule sample_key (J_Str (u ''a/b''), J_Int 7)
     ((schedule sample_key (J_Str (u ''a/b''), J_Int 7) (new_debouncer 30 0))\<lparr>lp_now := 10\<rparr>))\<lparr>lp_now := 40\<rparr>"

lemma sample_asked: "asked (sample_rows ! i) = Some (sample_key, (J_Str (u ''a/b''), J_Int 7))" if "i < 2"
proof -
  have "i = 0 \<or> i = 1" using that by linarith
  then show ?thesis
    by (auto simp: sample_rows_def asked_def sample_payload_def sample_key_def repository_name_def review_action_def)
qed

lemma sample_service_run: "service_run sample_hook 0 True 30 sample_server [(0, 0, 0), (1, 10, 0)] sample_loop"
proof -
  let ?s0 = "\<lparr>hs_events = [], hs_background = [], hs_world = ()\<rparr>" and ?rq = "\<lambda>d s. snd (receive_webhook sample_hook (sample_delivery (u d)) s)"
  let ?s = "?rq ''1'' (?rq ''2'' (?rq ''1'' ?s0))"
  let ?f = "(J_Str (u ''a/b''), J_Int 7)"
  have s: "?s = sample_server"
    by (simp add: sample_accepted sample_redelivered sample_server_def sample_rows_def task_of_event_def action_of_def sample_payload_def)
  have tasks: "hs_background sample_server ! i = task_of_event (sample_rows ! i)" if "i < 2" for i
    using that by (simp add: sample_server_def sample_rows_def nth_Cons')
  have len: "length (hs_background sample_server) = 2" by (simp add: sample_server_def sample_rows_def)
  have got: "service_run sample_hook 0 True 30 (?rq d s) done_tasks e"
    if "service_run sample_hook 0 True 30 s done_tasks e" for d s done_tasks e
    by (rule service_run.received [OF that]) (rule prod.collapse [symmetric])
  have start: "service_run sample_hook 0 True 30 sample_server [] (new_debouncer 30 0)"
    unfolding s [symmetric] by (intro got service_run.started)
  have ran: "service_run sample_hook 0 True 30 sample_server (done_tasks @ [(i, lp_now d, length (lp_tasks d))]) (schedule sample_key ?f d)"
    if "service_run sample_hook 0 True 30 sample_server done_tasks d" "i < 2" "i \<notin> fst ` set done_tasks" for done_tasks d i
    using service_run.task_run [OF that(1) _ that(3)] that(2) by (simp add: len tasks route_event_asked sample_asked)
  have waited: "service_run sample_hook 0 True 30 sample_server done_tasks (d\<lparr>lp_now := lp_now d + x\<rparr>)"
    if "service_run sample_hook 0 True 30 sample_server done_tasks d" "0 \<le> x" for done_tasks d x
    by (rule service_run.loop_moved [OF that(1) step_wait [OF that(2)]]) simp_all
  let ?d1 = "schedule sample_key ?f (new_debouncer 30 0)"
  have clock: "debounce_inv (new_debouncer 30 0 :: pr_debouncer)" "lp_now (new_debouncer 30 0 :: pr_debouncer) = 0"
    "lp_tasks (new_debouncer 30 0 :: pr_debouncer) = []"
    using service_run_inv [OF start] by (simp_all add: service_inv_def) (simp_all add: new_debouncer_def)
  have run1: "service_run sample_hook 0 True 30 sample_server [(0, 0, 0)] ?d1"
    using ran [OF start, of 0] clock by simp
  have run2: "service_run sample_hook 0 True 30 sample_server [(0, 0, 0)] (?d1\<lparr>lp_now := 10\<rparr>)"
    using waited [OF run1, of 10] clock by (simp add: schedule_clock)
  note run3 = ran [OF run2, of 1]
  have "debounce_inv (?d1\<lparr>lp_now := 10\<rparr>)" using service_run_inv [OF run2] by (simp add: service_inv_def)
  then show ?thesis
    using waited [OF run3, of 30] schedule_tasks_length [OF clock(1)] clock by (simp add: schedule_clock sample_loop_def)
qed

theorem deliveries_reviewed_witness:
  "service_run sample_hook 0 True 30 sample_server [(0, 0, 0), (1, 10, 0)] sample_loop
   \<and> reviews_since 0 sample_key (run_due 0 sample_loop) = [((J_Str (u ''a/b''), J_Int 7), False)]"
proof
  show "service_run sample_hook 0 True 30 sample_server [(0, 0, 0), (1, 10, 0)] sample_loop"
    by (rule sample_service_run)
  have "last_request sample_key (hs_events sample_server) [(0, 0, 0), (1, 10, 0)] = Some ((J_Str (u ''a/b''), J_Int 7), 10, 0)"
    using sample_asked [of 0] sample_asked [of 1]
    by (simp add: last_request_def requests_def map_filter_simps sample_server_def)
  with deliveries_reviewed [OF sample_service_run, of sample_key]
  show "reviews_since 0 sample_key (run_due 0 sample_loop) = [((J_Str (u ''a/b''), J_Int 7), False)]"
    by (simp add: sample_loop_def)
qed

end
