(* ===== verification/Eval_Matching.thy ===== *)
theory Eval_Matching
  imports Findings "HOL-Library.Multiset"
begin

text \<open>
  The benchmark corpus and the matching of findings against it
  (\<^verbatim>\<open>kenjutsu/evaluation/runner.py\<close>).
\<close>

record annotated_finding =
  an_file_path :: pystr
  an_line_range :: "int \<times> int"
  an_category :: category
  an_severity :: severity
  an_confidence :: confidence
  an_description :: pystr

record benchmark_pr =
  bp_pr_id :: pystr
  bp_repo :: pystr
  bp_pr_number :: int
  bp_head_sha :: pystr
  bp_base_sha :: pystr
  bp_languages :: "pystr list"
  bp_size :: pystr
  bp_tags :: "pystr list"
  bp_expected_findings :: "annotated_finding list"
  bp_false_positive_patterns :: "(pystr \<times> pystr) list list"

type_synonym corpus = "benchmark_pr list"

definition line_ranges_overlap :: "int \<times> int \<Rightarrow> int \<times> int \<Rightarrow> int \<Rightarrow> bool" where
  "line_ranges_overlap produced expected tolerance =
     (case produced of (p_start, p_end) \<Rightarrow> case expected of (e_start, e_end) \<Rightarrow>
       let e_start_adj = e_start - tolerance; e_end_adj = e_end + tolerance
       in p_start \<le> e_end_adj \<and> p_end \<ge> e_start_adj)"

definition finding_matches :: "finding \<Rightarrow> annotated_finding \<Rightarrow> bool" where
  "finding_matches f ann \<longleftrightarrow> fd_file_path f = an_file_path ann \<and> fd_category f = an_category ann
     \<and> line_ranges_overlap (fd_line_start f, fd_line_end f) (an_line_range ann) 5"

text \<open>The inner loop: the list without its first match, or None when nothing matches.\<close>

fun pop_match :: "finding \<Rightarrow> annotated_finding list \<Rightarrow> annotated_finding list option" where
  "pop_match f [] = None"
| "pop_match f (ann # anns) =
     (if finding_matches f ann then Some anns else map_option ((#) ann) (pop_match f anns))"

fun match_loop ::
  "finding list \<Rightarrow> annotated_finding list \<Rightarrow> finding list \<Rightarrow> finding list
     \<Rightarrow> finding list \<times> finding list \<times> annotated_finding list" where
  "match_loop [] unmatched tp fp = (tp, fp, unmatched)"
| "match_loop (f # fs) unmatched tp fp =
     (case pop_match f unmatched of
        Some unmatched' \<Rightarrow> match_loop fs unmatched' (tp @ [f]) fp
      | None \<Rightarrow> match_loop fs unmatched tp (fp @ [f]))"

definition match_findings ::
  "finding list \<Rightarrow> annotated_finding list \<Rightarrow> finding list \<times> finding list \<times> annotated_finding list" where
  "match_findings produced expected = match_loop produced expected [] []"

section \<open>Facts\<close>

lemma pop_match_None: "pop_match f anns = None \<longleftrightarrow> list_all (\<lambda>a. \<not> finding_matches f a) anns"
  by (induction anns) auto

lemma pop_match_Some:
  "pop_match f anns = Some anns' \<Longrightarrow>
     \<exists>pre a post. anns = pre @ a # post \<and> anns' = pre @ post \<and> finding_matches f a
       \<and> list_all (\<lambda>a. \<not> finding_matches f a) pre"
proof (induction anns arbitrary: anns')
  case (Cons ann anns)
  show ?case
  proof (cases "finding_matches f ann")
    case True
    with Cons.prems show ?thesis by (intro exI [of _ "[]"]) auto
  next
    case False
    with Cons.prems obtain anns'' where "pop_match f anns = Some anns''" "anns' = ann # anns''" by auto
    with Cons.IH obtain pre a post where "anns = pre @ a # post" "anns'' = pre @ post"
      "finding_matches f a" "list_all (\<lambda>a. \<not> finding_matches f a) pre" by blast
    with \<open>anns' = ann # anns''\<close> False show ?thesis
      by (intro exI [of _ "ann # pre"] exI [of _ a] exI [of _ post]) simp
  qed
qed simp

text \<open>What a matching is: the pairs that were matched, what is left on either side.\<close>

definition is_matching ::
  "(finding \<times> annotated_finding) list \<Rightarrow> finding list \<Rightarrow> annotated_finding list
     \<Rightarrow> finding list \<times> finding list \<times> annotated_finding list \<Rightarrow> bool" where
  "is_matching pairs produced expected r \<longleftrightarrow>
     (case r of (tp, fp, missed) \<Rightarrow>
       produced \<in> shuffles tp fp
       \<and> map fst pairs = tp \<and> list_all (\<lambda>(f, a). finding_matches f a) pairs
       \<and> mset (map snd pairs) + mset missed = mset expected \<and> subseq missed expected
       \<and> list_all (\<lambda>f. list_all (\<lambda>a. \<not> finding_matches f a) missed) fp)"

lemma match_loop_shuffles: "match_loop fs un tp fp = (tp', fp', m) \<Longrightarrow>
    \<exists>tq fq. tp' = tp @ tq \<and> fp' = fp @ fq \<and> fs \<in> shuffles tq fq"
proof (induction fs arbitrary: un tp fp)
  case (Cons f fs)
  show ?case
  proof (cases "pop_match f un")
    case None
    with Cons.prems have "match_loop fs un tp (fp @ [f]) = (tp', fp', m)" by simp
    from Cons.IH [OF this] obtain tq fq where "tp' = tp @ tq" "fp' = (fp @ [f]) @ fq" "fs \<in> shuffles tq fq" by blast
    then show ?thesis
      by (intro exI [of _ tq] exI [of _ "f # fq"]) (simp add: Cons_in_shuffles_rightI)
  next
    case (Some un')
    with Cons.prems have "match_loop fs un' (tp @ [f]) fp = (tp', fp', m)" by simp
    from Cons.IH [OF this] obtain tq fq where "tp' = (tp @ [f]) @ tq" "fp' = fp @ fq" "fs \<in> shuffles tq fq" by blast
    then show ?thesis
      by (intro exI [of _ "f # tq"] exI [of _ fq]) (simp add: Cons_in_shuffles_leftI)
  qed
qed simp

lemma subseq_remove: "subseq (pre @ post) (pre @ a # post)"
  by (intro list_emb_append_mono list_emb_Cons subseq_order.order_refl)

lemma match_loop_pairs: "match_loop fs un tp fp = (tp', fp', m) \<Longrightarrow>
    (\<exists>pairs. tp' = tp @ map fst pairs \<and> list_all (\<lambda>(f, a). finding_matches f a) pairs
       \<and> mset (map snd pairs) + mset m = mset un)
    \<and> subseq m un
    \<and> (list_all (\<lambda>f. list_all (\<lambda>a. \<not> finding_matches f a) un) fp
        \<longrightarrow> list_all (\<lambda>f. list_all (\<lambda>a. \<not> finding_matches f a) m) fp')"
proof (induction fs arbitrary: un tp fp)
  case Nil
  then show ?case by (auto intro: exI [of _ "[]"])
next
  case (Cons f fs)
  show ?case
  proof (cases "pop_match f un")
    case None
    with Cons.prems have run: "match_loop fs un tp (fp @ [f]) = (tp', fp', m)" by simp
    show ?thesis using Cons.IH [OF run] None by (simp add: pop_match_None)
  next
    case (Some un')
    with Cons.prems have run: "match_loop fs un' (tp @ [f]) fp = (tp', fp', m)" by simp
    obtain pre a post where un: "un = pre @ a # post" "un' = pre @ post" "finding_matches f a"
      using pop_match_Some [OF Some] by blast
    from Cons.IH [OF run] obtain pairs where pairs: "tp' = (tp @ [f]) @ map fst pairs"
      "list_all (\<lambda>(f, a). finding_matches f a) pairs" "mset (map snd pairs) + mset m = mset un'"
      and sub: "subseq m un'"
      and rest: "list_all (\<lambda>f. list_all (\<lambda>a. \<not> finding_matches f a) un') fp
        \<longrightarrow> list_all (\<lambda>f. list_all (\<lambda>a. \<not> finding_matches f a) m) fp'" by blast
    have "subseq m un" using sub un subseq_remove [of pre post a] subseq_order.trans by blast
    moreover have "list_all (\<lambda>f. list_all (\<lambda>a. \<not> finding_matches f a) un) fp
        \<longrightarrow> list_all (\<lambda>f. list_all (\<lambda>a. \<not> finding_matches f a) m) fp'"
      using rest un by (auto simp: list_all_iff)
    moreover have "tp' = tp @ map fst ((f, a) # pairs)" "list_all (\<lambda>(f, a). finding_matches f a) ((f, a) # pairs)"
      "mset (map snd ((f, a) # pairs)) + mset m = mset un"
      using pairs un by simp_all
    ultimately show ?thesis by blast
  qed
qed

lemma is_matching_match_findings:
  "\<exists>pairs. is_matching pairs produced expected (match_findings produced expected)"
proof -
  obtain tp fp m where r: "match_loop produced expected [] [] = (tp, fp, m)"
    using prod_cases3 by blast
  with match_loop_shuffles [OF r] match_loop_pairs [OF r] show ?thesis
    by (auto simp: is_matching_def match_findings_def)
qed

text \<open>
  Claim C29.  The classification is a maximal matching.  The produced findings are split, in
  order, into true and false positives; each true positive is paired with an expected finding of
  its own that it matches; the missed findings are the other expected ones, in order; and no
  false positive matches a missed finding.
\<close>

theorem match_findings_maximal:
  "\<exists>pairs. is_matching pairs produced expected (match_findings produced expected)"
  by (rule is_matching_match_findings)

lemma match_findings_counts:
  assumes "match_findings produced expected = (tp, fp, missed)"
  shows "length tp + length fp = length produced" "length tp + length missed = length expected"
    "set tp \<subseteq> set produced" "set fp \<subseteq> set produced"
proof -
  obtain pairs where m: "is_matching pairs produced expected (tp, fp, missed)"
    using is_matching_match_findings [of produced expected] unfolding assms by blast
  then have sh: "produced \<in> shuffles tp fp" by (simp add: is_matching_def)
  show "length tp + length fp = length produced" using length_shuffles [OF sh] by simp
  show "set tp \<subseteq> set produced" "set fp \<subseteq> set produced" using set_shuffles [OF sh] by auto
  have "size (mset (map snd pairs) + mset missed) = size (mset expected)" "map fst pairs = tp"
    using m by (simp_all add: is_matching_def)
  then show "length tp + length missed = length expected" by (auto simp flip: \<open>map fst pairs = tp\<close>)
qed

end
