(* ===== verification/Py_Number.thy ===== *)
theory Py_Number
  imports Py_Float
begin

text \<open>
  Python numbers that may be ints or floats, the statistics functions and the number formats the
  evaluation runner uses.  The two zeros are one value, so a format never prints a minus sign
  for a zero.
\<close>

datatype py_number = N_Int int | N_Float pyfloat

text \<open>The exact value, for comparisons: Python compares ints and floats exactly.\<close>

fun num_val :: "py_number \<Rightarrow> pyfloat" where
  "num_val (N_Int i) = Fin (of_int i)"
| "num_val (N_Float x) = x"

definition num_lt :: "py_number \<Rightarrow> py_number \<Rightarrow> bool" where
  "num_lt a b = flt (num_val a) (num_val b)"

definition num_ge_0 :: "py_number \<Rightarrow> bool" where
  "num_ge_0 a = fle (Fin 0) (num_val a)"

text \<open>\<open>float(i)\<close>: too large an int raises \<open>OverflowError\<close>.\<close>

definition float_of_int :: "int \<Rightarrow> pyfloat result" where
  "float_of_int i = (case to_float (of_int i) of Fin x \<Rightarrow> Inr (Fin x) | _ \<Rightarrow> Inl OtherError)"

fun num_float :: "py_number \<Rightarrow> pyfloat result" where
  "num_float (N_Int i) = float_of_int i"
| "num_float (N_Float x) = Inr x"

fun num_sub :: "py_number \<Rightarrow> py_number \<Rightarrow> py_number result" where
  "num_sub (N_Int i) (N_Int j) = Inr (N_Int (i - j))"
| "num_sub a b = and_then (num_float a) (\<lambda>x. and_then (num_float b) (\<lambda>y. Inr (N_Float (fsub x y))))"

text \<open>\<open>int(x)\<close> truncates.\<close>

definition trunc :: "rat \<Rightarrow> int" where
  "trunc x = (if 0 \<le> x then \<lfloor>x\<rfloor> else \<lceil>x\<rceil>)"

fun num_int :: "py_number \<Rightarrow> int result" where
  "num_int (N_Int i) = Inr i"
| "num_int (N_Float (Fin x)) = Inr (trunc x)"
| "num_int (N_Float NaN) = Inl ValueError"
| "num_int (N_Float _) = Inl OtherError"

text \<open>\<open>a / b\<close> of two ints is correctly rounded.\<close>

definition int_div :: "int \<Rightarrow> int \<Rightarrow> pyfloat result" where
  "int_div a b = (if b = 0 then Inl ZeroDivisionError
     else case to_float (of_int a / of_int b) of Fin x \<Rightarrow> Inr (Fin x) | _ \<Rightarrow> Inl OtherError)"

fun fmul :: "pyfloat \<Rightarrow> pyfloat \<Rightarrow> pyfloat" where
  "fmul (Fin x) (Fin y) = to_float (x * y)"
| "fmul NaN _ = NaN"
| "fmul _ NaN = NaN"
| "fmul (Fin x) y = (if x = 0 then NaN else if x > 0 then y else fneg y)"
| "fmul x (Fin y) = (if y = 0 then NaN else if y > 0 then x else fneg x)"
| "fmul PInf PInf = PInf"
| "fmul NInf NInf = PInf"
| "fmul _ _ = NInf"

fun fabs :: "pyfloat \<Rightarrow> pyfloat" where
  "fabs (Fin x) = Fin \<bar>x\<bar>"
| "fabs NInf = PInf"
| "fabs x = x"

section \<open>\<open>sum\<close> of floats, \<open>statistics.mean\<close> of ints, \<open>statistics.median\<close> of floats\<close>

text \<open>Since Python 3.12 \<open>sum\<close> carries a compensation term; an infinite one is dropped.\<close>

fun float_sum_loop :: "pyfloat \<Rightarrow> pyfloat \<Rightarrow> pyfloat list \<Rightarrow> pyfloat" where
  "float_sum_loop s c [] =
     (case c of Fin x \<Rightarrow> if x = 0 then s else fadd s c | _ \<Rightarrow> s)"
| "float_sum_loop s c (x # xs) =
     (let t = fadd s x;
          c' = (if fle (fabs x) (fabs s) then fadd c (fadd (fsub s t) x) else fadd c (fadd (fsub x t) s))
      in float_sum_loop t c' xs)"

definition float_sum :: "pyfloat list \<Rightarrow> py_number" where
  "float_sum xs = (case xs of [] \<Rightarrow> N_Int 0 | x # xs \<Rightarrow> N_Float (float_sum_loop x (Fin 0) xs))"

text \<open>The mean of ints is an int when it is one.\<close>

definition int_mean :: "int list \<Rightarrow> py_number" where
  "int_mean xs =
     (let total = sum_list xs; n = int (length xs)
      in if n dvd total then N_Int (total div n) else N_Float (to_float (of_int total / of_int n)))"

definition float_median :: "rat list \<Rightarrow> pyfloat result" where
  "float_median xs =
     (let data = sort xs; n = length xs; i = n div 2
      in if n = 0 then Inl ValueError
         else if odd n then Inr (Fin (data ! i))
         else fdiv (fadd (Fin (data ! (i - 1))) (Fin (data ! i))) (Fin 2))"

section \<open>Rounding and formats\<close>

definition decimal :: "nat \<Rightarrow> rat \<Rightarrow> int" where
  "decimal n x = round_even (x * 10 ^ n)"

fun num_round :: "nat \<Rightarrow> py_number \<Rightarrow> py_number" where
  "num_round n (N_Int i) = N_Int i"
| "num_round n (N_Float (Fin x)) = N_Float (to_float (of_int (decimal n x) / 10 ^ n))"
| "num_round n (N_Float x) = N_Float x"

definition zero_pad :: "nat \<Rightarrow> pystr \<Rightarrow> pystr" where
  "zero_pad n s = replicate (n - length s) 48 @ s"

definition fixed_digits :: "nat \<Rightarrow> nat \<Rightarrow> pystr" where
  "fixed_digits n k = nat_str (k div 10 ^ n) @ (if n = 0 then [] else u ''.'' @ zero_pad n (nat_str (k mod 10 ^ n)))"

text \<open>\<open>f"{x:.nf}"\<close> and \<open>f"{x:.n%}"\<close>.\<close>

fun format_fixed :: "nat \<Rightarrow> pyfloat \<Rightarrow> pystr" where
  "format_fixed n (Fin x) = (if x < 0 then u ''-'' else []) @ fixed_digits n (nat (decimal n \<bar>x\<bar>))"
| "format_fixed n PInf = u ''inf''"
| "format_fixed n NInf = u ''-inf''"
| "format_fixed n NaN = u ''nan''"

definition format_percent :: "nat \<Rightarrow> pyfloat \<Rightarrow> pystr" where
  "format_percent n x = format_fixed n (fmul x (Fin 100)) @ u ''%''"

definition num_format :: "nat \<Rightarrow> py_number \<Rightarrow> pystr result" where
  "num_format n a = and_then (num_float a) (\<lambda>x. Inr (format_fixed n x))"

definition num_percent :: "nat \<Rightarrow> py_number \<Rightarrow> pystr result" where
  "num_percent n a = and_then (num_float a) (\<lambda>x. Inr (format_percent n x))"

text \<open>\<open>f"{i:,}"\<close>: commas between groups of three digits.\<close>

fun group3 :: "nat \<Rightarrow> pystr" where
  "group3 n = (if n < 1000 then nat_str n else group3 (n div 1000) @ u '','' @ zero_pad 3 (nat_str (n mod 1000)))"

declare group3.simps [simp del]

definition format_commas :: "int \<Rightarrow> pystr" where
  "format_commas i = (if i < 0 then u ''-'' else []) @ group3 (nat \<bar>i\<bar>)"

section \<open>Facts\<close>

lemma to_float_of_nat:
  assumes "n \<le> 2 ^ 53"
  shows "to_float (of_nat n) = Fin (of_nat n)"
proof -
  have i: "(of_nat n :: rat) = of_int (int n)" by simp
  have b: "\<bar>int n\<bar> \<le> 2 ^ 53"
    using assms by (metis abs_of_nat of_nat_le_iff of_nat_numeral of_nat_power)
  have "fl (of_nat n) = of_nat n" unfolding i by (rule fl_int [OF b])
  moreover have "(of_nat n :: rat) \<le> 2 ^ 53"
    using assms by (metis of_nat_le_iff of_nat_numeral of_nat_power)
  then have "(of_nat n :: rat) < 2 ^ 1024"
    by (rule le_less_trans) (simp add: power_strict_increasing)
  moreover have "- (2 ^ 1024) < (of_nat n :: rat)"
    by (rule less_le_trans [of _ 0]) simp_all
  ultimately show ?thesis by (simp add: to_float_def)
qed

lemma int_div_unit:
  assumes "0 \<le> a" "a \<le> b" "0 < b"
  shows "int_div a b = Inr (Fin (fl (of_int a / of_int b))) \<and> 0 \<le> fl (of_int a / of_int b) \<and> fl (of_int a / of_int b) \<le> 1"
proof -
  have "0 \<le> (of_int a / of_int b :: rat)" "(of_int a / of_int b :: rat) \<le> 1"
    using assms by (simp_all add: divide_le_eq)
  from to_float_unit [OF this] show ?thesis using assms by (simp add: int_div_def)
qed

end
