(* ===== verification/Eval_Metrics.thy ===== *)
theory Eval_Metrics
  imports Eval_Matching Py_Number Py_Effects
begin

text \<open>
  The evaluation runner and its metrics (\<^verbatim>\<open>kenjutsu/evaluation/runner.py\<close>).  The review pipeline
  and the clock are operations on an arbitrary world.  Token and cost telemetry are Python
  numbers, rates and latencies IEEE doubles.
\<close>

record eval_result =
  er_pr_id :: pystr
  er_variant :: pystr
  er_findings_produced :: "finding list"
  er_expected_findings :: "annotated_finding list"
  er_true_positives :: "finding list"
  er_false_positives :: "finding list"
  er_missed :: "annotated_finding list"
  er_latency_ms :: int
  er_tokens_in :: int
  er_tokens_out :: int
  er_cost_usd :: pyfloat

record eval_metrics =
  em_variant :: pystr
  em_pr_count :: int
  em_total_findings_produced :: int
  em_total_true_positives :: int
  em_total_false_positives :: int
  em_total_missed :: int
  em_comments_per_pr_defects :: py_number
  em_accepted_finding_rate :: pyfloat
  em_fp_rate_verified :: pyfloat
  em_fp_rate_high_confidence :: pyfloat
  em_latency_p50_seconds :: pyfloat
  em_latency_p95_seconds :: pyfloat
  em_total_tokens_in :: int
  em_total_tokens_out :: int
  em_total_cost_usd :: py_number
  em_avg_cost_per_pr_usd :: pyfloat
  em_meets_comments_per_pr_target :: bool
  em_meets_accepted_finding_target :: bool
  em_meets_fp_verified_target :: bool
  em_meets_fp_high_confidence_target :: bool
  em_meets_latency_p50_target :: bool
  em_meets_latency_p95_target :: bool

definition all_targets_met :: "eval_metrics \<Rightarrow> bool" where
  "all_targets_met m = list_all id
     [em_meets_comments_per_pr_target m, em_meets_accepted_finding_target m, em_meets_fp_verified_target m,
      em_meets_fp_high_confidence_target m, em_meets_latency_p50_target m, em_meets_latency_p95_target m]"

section \<open>Metrics\<close>

definition defect_categories :: "category set" where
  "defect_categories = {BUG, SECURITY, BREAKING_CHANGE}"

definition total :: "(eval_result \<Rightarrow> 'a list) \<Rightarrow> eval_result list \<Rightarrow> int" where
  "total field results = sum_list (map (\<lambda>r. int (length (field r))) results)"

definition rate :: "int \<Rightarrow> int \<Rightarrow> pyfloat result" where
  "rate n d = (if d > 0 then int_div n d else Inr (Fin 0))"

definition false_positives_of :: "confidence set \<Rightarrow> eval_result list \<Rightarrow> finding list" where
  "false_positives_of levels results =
     concat (map (\<lambda>r. filter (\<lambda>f. fd_confidence f \<in> levels) (er_false_positives r)) results)"

definition latency_s :: "eval_result \<Rightarrow> rat result" where
  "latency_s r = and_then (float_of_int (er_latency_ms r)) (\<lambda>x.
     and_then (fdiv x (Fin 1000)) (\<lambda>y. case y of Fin z \<Rightarrow> Inr z | _ \<Rightarrow> Inl OtherError))"

text \<open>\<open>int(n * 0.95)\<close>, in floats.\<close>

definition p95_index :: "nat \<Rightarrow> nat" where
  "p95_index n = (case fmul (to_float (of_nat n)) (to_float (95 / 100)) of Fin x \<Rightarrow> nat (trunc x) | _ \<Rightarrow> 0)"

definition latency_p95 :: "rat list \<Rightarrow> pyfloat" where
  "latency_p95 latencies = Fin (sort latencies ! min (p95_index (length latencies)) (length latencies - 1))"

definition compute_metrics :: "eval_result list \<Rightarrow> eval_metrics result" where
  "compute_metrics results = (case results of [] \<Rightarrow> Inl ValueError | r0 # _ \<Rightarrow>
     let pr_count = int (length results);
         produced = total er_findings_produced results;
         tp = total er_true_positives results;
         fp = total er_false_positives results;
         missed = total er_missed results;
         comments = int_mean (map (\<lambda>r. int (length (filter (\<lambda>f. fd_category f \<in> defect_categories)
                      (er_findings_produced r)))) results);
         total_cost = float_sum (map er_cost_usd results)
     in and_then (rate tp (tp + missed)) (\<lambda>accepted.
        and_then (rate (int (length (false_positives_of {VERIFIED} results))) produced) (\<lambda>fp_verified.
        and_then (rate (int (length (false_positives_of {VERIFIED, HIGH} results))) produced) (\<lambda>fp_high.
        and_then (map_result latency_s results) (\<lambda>latencies.
        and_then (float_median latencies) (\<lambda>p50.
        let p95 = latency_p95 latencies in
        and_then (num_float total_cost) (\<lambda>cost.
        and_then (float_of_int pr_count) (\<lambda>n.
        and_then (fdiv cost n) (\<lambda>avg_cost.
          Inr \<lparr>em_variant = er_variant r0, em_pr_count = pr_count, em_total_findings_produced = produced,
            em_total_true_positives = tp, em_total_false_positives = fp, em_total_missed = missed,
            em_comments_per_pr_defects = comments, em_accepted_finding_rate = accepted,
            em_fp_rate_verified = fp_verified, em_fp_rate_high_confidence = fp_high,
            em_latency_p50_seconds = p50, em_latency_p95_seconds = p95,
            em_total_tokens_in = sum_list (map er_tokens_in results),
            em_total_tokens_out = sum_list (map er_tokens_out results),
            em_total_cost_usd = total_cost, em_avg_cost_per_pr_usd = avg_cost,
            em_meets_comments_per_pr_target = num_lt comments (N_Int 8),
            em_meets_accepted_finding_target = flt (to_float (60 / 100)) accepted,
            em_meets_fp_verified_target = flt fp_verified (to_float (1 / 100)),
            em_meets_fp_high_confidence_target = flt fp_high (to_float (10 / 100)),
            em_meets_latency_p50_target = flt p50 (Fin 30),
            em_meets_latency_p95_target = flt p95 (Fin 60)\<rparr>)))))))))"

section \<open>The runner\<close>

type_synonym telemetry = "pystr \<rightharpoonup> py_number"

record 'w review_pipeline =
  pl_review :: "pystr \<Rightarrow> int \<Rightarrow> pystr \<Rightarrow> pystr \<Rightarrow> pystr \<Rightarrow> ('w, finding list \<times> telemetry) proc"
  pl_monotonic :: "('w, pyfloat) proc"

definition telemetry_get :: "telemetry \<Rightarrow> pystr \<Rightarrow> py_number \<Rightarrow> py_number" where
  "telemetry_get t key fallback = (case t key of Some v \<Rightarrow> v | None \<Rightarrow> fallback)"

definition eval_one :: "'w review_pipeline \<Rightarrow> pystr \<Rightarrow> benchmark_pr \<Rightarrow> ('w, eval_result) proc" where
  "eval_one pl variant pr =
     seq (pl_monotonic pl) (\<lambda>t0.
     seq (pl_review pl (bp_repo pr) (bp_pr_number pr) (bp_head_sha pr) (bp_base_sha pr) variant) (\<lambda>(findings, tel).
     seq (pl_monotonic pl) (\<lambda>t1.
     seq (from_result (num_int (N_Float (fmul (fsub t1 t0) (Fin 1000))))) (\<lambda>elapsed_ms.
     seq (from_result (num_int (telemetry_get tel (u ''latency_ms'') (N_Int elapsed_ms)))) (\<lambda>latency_ms.
     seq (from_result (num_int (telemetry_get tel (u ''tokens_in'') (N_Int 0)))) (\<lambda>tokens_in.
     seq (from_result (num_int (telemetry_get tel (u ''tokens_out'') (N_Int 0)))) (\<lambda>tokens_out.
     seq (from_result (num_float (telemetry_get tel (u ''cost_usd'') (N_Float (Fin 0))))) (\<lambda>cost_usd.
       let (tp, fp, missed) = match_findings findings (bp_expected_findings pr)
       in return \<lparr>er_pr_id = bp_pr_id pr, er_variant = variant, er_findings_produced = findings,
            er_expected_findings = bp_expected_findings pr, er_true_positives = tp,
            er_false_positives = fp, er_missed = missed, er_latency_ms = latency_ms,
            er_tokens_in = tokens_in, er_tokens_out = tokens_out, er_cost_usd = cost_usd\<rparr>))))))))"

fun run_eval_loop ::
  "'w review_pipeline \<Rightarrow> pystr \<Rightarrow> corpus \<Rightarrow> eval_result list \<Rightarrow> ('w, eval_result list) proc" where
  "run_eval_loop pl variant [] results = return results"
| "run_eval_loop pl variant (pr # prs) results =
     seq (eval_one pl variant pr) (\<lambda>r. run_eval_loop pl variant prs (results @ [r]))"

definition run_eval :: "'w review_pipeline \<Rightarrow> pystr \<Rightarrow> corpus \<Rightarrow> ('w, eval_result list) proc" where
  "run_eval pl variant corpus = run_eval_loop pl variant corpus []"

section \<open>Results of a run\<close>

definition result_of_pr :: "pystr \<Rightarrow> benchmark_pr \<Rightarrow> eval_result \<Rightarrow> bool" where
  "result_of_pr variant pr r \<longleftrightarrow> er_pr_id r = bp_pr_id pr \<and> er_variant r = variant
     \<and> er_expected_findings r = bp_expected_findings pr
     \<and> match_findings (er_findings_produced r) (bp_expected_findings pr)
         = (er_true_positives r, er_false_positives r, er_missed r)"

lemma seq_InrD: "seq m f s = (Inr y, s'') \<Longrightarrow> \<exists>x s'. m s = (Inr x, s') \<and> f x s' = (Inr y, s'')"
  by (auto simp: seq_def split: prod.split_asm sum.split_asm)

lemma eval_one_result: "eval_one pl variant pr w = (Inr r, w') \<Longrightarrow> result_of_pr variant pr r"
  unfolding eval_one_def
  by (auto simp: return_def result_of_pr_def dest!: seq_InrD split: prod.split_asm)

lemma run_eval_loop_results:
  "run_eval_loop pl variant prs done_prs w = (Inr results, w') \<Longrightarrow>
     \<exists>new. results = done_prs @ new \<and> list_all2 (result_of_pr variant) prs new"
proof (induction prs arbitrary: done_prs w)
  case Nil
  then show ?case by (simp add: return_def)
next
  case (Cons pr prs)
  then obtain r w1 where r: "eval_one pl variant pr w = (Inr r, w1)"
    and rest: "run_eval_loop pl variant prs (done_prs @ [r]) w1 = (Inr results, w')"
    by (auto dest!: seq_InrD)
  from Cons.IH [OF rest] eval_one_result [OF r] show ?case by auto
qed

lemma run_eval_results: "run_eval pl variant corpus w = (Inr results, w') \<Longrightarrow> list_all2 (result_of_pr variant) corpus results"
  using run_eval_loop_results [of pl variant corpus "[]" w results w'] by (auto simp: run_eval_def)

section \<open>The percentile\<close>

lemma float_95: "to_float (95 / 100) = Fin (4278419646001971 / 4503599627370496)"
proof -
  have "fl (95 / 100) = of_int 8556839292003942 * 2 powi - 53"
    by (rule fl_near) (simp_all add: power_int_def power_one_over)
  then have "fl (95 / 100) = 4278419646001971 / 4503599627370496" by (simp add: power_int_def power_one_over)
  then show ?thesis by (simp only: to_float_def) simp
qed

lemma to_float_between:
  assumes "0 \<le> x" "x \<le> of_nat n" "n \<le> 2 ^ 53"
  shows "to_float x = Fin (fl x)" "0 \<le> fl x" "fl x \<le> of_nat n"
proof -
  have "fl (of_nat n) = of_nat n"
    using to_float_of_nat [OF assms(3)] by (simp add: to_float_def split: if_split_asm)
  then show up: "fl x \<le> of_nat n" using fl_mono [OF assms(2)] by simp
  show low: "0 \<le> fl x" using assms(1) by (rule fl_nonneg)
  have "(of_nat n :: rat) \<le> 2 ^ 53"
    using assms(3) by (metis of_nat_le_iff of_nat_numeral of_nat_power)
  with up have "fl x \<le> 2 ^ 53" by (rule order_trans)
  also have "(2 ^ 53 :: rat) < 2 ^ 1024" by (rule power_strict_increasing) simp_all
  finally have "fl x < 2 ^ 1024" .
  moreover have "- (2 ^ 1024) < fl x" by (rule less_le_trans [OF _ low]) simp
  ultimately show "to_float x = Fin (fl x)" by (simp add: to_float_def)
qed

lemma p95_index_eq:
  assumes "n \<le> 2 ^ 53"
  defines "x \<equiv> of_nat n * (4278419646001971 / 4503599627370496)"
  shows "p95_index n = nat \<lfloor>fl x\<rfloor>" "0 \<le> fl x" "fl x \<le> of_nat n"
proof -
  have "0 \<le> x" "x \<le> of_nat n" by (simp_all add: x_def)
  note b = to_float_between [OF this assms(1)]
  then show "0 \<le> fl x" "fl x \<le> of_nat n" by simp_all
  have "fmul (to_float (of_nat n)) (to_float (95 / 100)) = to_float x"
    by (simp only: to_float_of_nat [OF assms(1)] float_95 fmul.simps x_def)
  with b show "p95_index n = nat \<lfloor>fl x\<rfloor>" by (simp add: p95_index_def trunc_def)
qed

lemma fl_ge_nat: "of_nat k \<le> x \<Longrightarrow> k \<le> 2 ^ 53 \<Longrightarrow> of_nat k \<le> fl x"
  using fl_mono [of "of_nat k" x] to_float_of_nat [of k] by (simp add: to_float_def split: if_split_asm)

lemma p95_index_bounds:
  assumes "n \<le> 2 ^ 53"
  shows "p95_index n \<le> n" "n div 2 \<le> p95_index n"
proof -
  define x where "x = (of_nat n :: rat) * (4278419646001971 / 4503599627370496)"
  note eq = p95_index_eq [OF assms, folded x_def]
  show "p95_index n \<le> n" unfolding eq(1) using eq(3) by linarith
  have "2 * (n div 2) \<le> n" by simp
  then have "(of_nat (2 * (n div 2)) :: rat) \<le> of_nat n" by (simp only: of_nat_le_iff)
  then have "(of_nat (n div 2) :: rat) \<le> of_nat n / 2" by simp
  also have "\<dots> \<le> x" by (simp add: x_def)
  finally have "of_nat (n div 2) \<le> fl x" using assms by (intro fl_ge_nat) auto
  then show "n div 2 \<le> p95_index n" unfolding eq(1) by linarith
qed

lemma covers_arith: "20 * (p + 1) + 1 \<le> 19 * n \<Longrightarrow> p + 1 \<le> n" for p n :: nat
proof (rule ccontr)
  assume l: "20 * (p + 1) + 1 \<le> 19 * n" and "\<not> p + 1 \<le> n"
  then have "n \<le> p" by simp
  then have "19 * n \<le> 19 * p" by (rule mult_le_mono2)
  with l have "20 * (p + 1) + 1 \<le> 19 * p" by (rule order_trans)
  then show False by simp
qed

text \<open>The index leaves at least 95 per cent of the values at or below it.\<close>

lemma p95_index_covers:
  assumes "n \<le> 2 ^ 49"
  shows "95 * n \<le> 100 * (p95_index n + 1)"
proof (rule ccontr)
  assume "\<not> 95 * n \<le> 100 * (p95_index n + 1)"
  then have less: "20 * (p95_index n + 1) + 1 \<le> 19 * n" by linarith
  define x where "x = (of_nat n :: rat) * (4278419646001971 / 4503599627370496)"
  have n53: "n \<le> 2 ^ 53" using assms by (rule order_trans) simp
  note eq = p95_index_eq [OF n53, folded x_def]
  have "p95_index n + 1 \<le> n" by (rule covers_arith [OF less])
  then have k: "p95_index n + 1 \<le> 2 ^ 53" using n53 by (rule order_trans)
  have "(of_nat (20 * (p95_index n + 1) + 1) :: rat) \<le> of_nat (19 * n)"
    using less by (simp only: of_nat_le_iff)
  then have "20 * (of_nat (p95_index n + 1) :: rat) + 1 \<le> 19 * of_nat n" by simp
  moreover have "(of_nat n :: rat) \<le> 2 ^ 49"
    using assms by (metis of_nat_le_iff of_nat_numeral of_nat_power)
  ultimately have "(of_nat (p95_index n + 1) :: rat) \<le> x" by (simp add: x_def)
  from fl_ge_nat [OF this k] have "of_nat (p95_index n + 1) \<le> fl x" .
  then show False unfolding eq(1) using eq(2) by linarith
qed

lemma count_le_nth:
  assumes "i < length xs" "sorted xs"
  shows "Suc i \<le> length (filter (\<lambda>y. y \<le> xs ! i) xs)"
proof -
  have "filter (\<lambda>y. y \<le> xs ! i) (take (Suc i) xs) = take (Suc i) xs"
  proof (rule filter_True, rule ballI)
    fix y assume "y \<in> set (take (Suc i) xs)"
    then obtain j where "j < Suc i" "j < length xs" "y = xs ! j" by (auto simp: in_set_conv_nth)
    with assms show "y \<le> xs ! i" by (auto intro: sorted_nth_mono)
  qed
  moreover have "filter (\<lambda>y. y \<le> xs ! i) xs
      = filter (\<lambda>y. y \<le> xs ! i) (take (Suc i) xs) @ filter (\<lambda>y. y \<le> xs ! i) (drop (Suc i) xs)"
    by (simp flip: filter_append)
  ultimately show ?thesis using assms(1) by simp
qed

lemma count_sort: "length (filter P (sort xs)) = length (filter P xs)"
  by (metis filter_sort length_sort)

text \<open>
  Claim C40.  The reported P95 latency is one of the measured ones, and at least 95 per cent of
  the measured latencies do not exceed it, in spite of the rounding of \<open>n * 0.95\<close>.
\<close>

theorem latency_p95_percentile:
  assumes "lats \<noteq> []" "length lats \<le> 2 ^ 49"
  shows "\<exists>x. latency_p95 lats = Fin x \<and> x \<in> set lats
    \<and> 95 * length lats \<le> 100 * length (filter (\<lambda>y. y \<le> x) lats)"
proof -
  let ?i = "min (p95_index (length lats)) (length lats - 1)"
  let ?x = "sort lats ! ?i"
  have i: "?i < length (sort lats)" using assms(1) by (simp add: min_less_iff_disj)
  have count: "Suc ?i \<le> length (filter (\<lambda>y. y \<le> ?x) lats)"
    using count_le_nth [OF i sorted_sort] by (simp only: count_sort)
  have "95 * length lats \<le> 100 * Suc ?i"
    using p95_index_covers [OF assms(2)] assms(1) by (cases "p95_index (length lats) \<le> length lats - 1") auto
  also have "\<dots> \<le> 100 * length (filter (\<lambda>y. y \<le> ?x) lats)" using count by (rule mult_le_mono2)
  finally have "95 * length lats \<le> 100 * length (filter (\<lambda>y. y \<le> ?x) lats)" .
  moreover have "?x \<in> set lats" using nth_mem [OF i] by simp
  ultimately show ?thesis unfolding latency_p95_def by blast
qed

theorem latency_p95_percentile_witness:
  "\<exists>x. latency_p95 [3, 1, 2] = Fin x \<and> x \<in> set [3, 1, 2] \<and> 95 * length [3, 1, 2 :: rat] \<le> 100 * length (filter (\<lambda>y. y \<le> x) [3, 1, 2])"
  by (rule latency_p95_percentile) simp_all

section \<open>Bounds of the metrics\<close>

lemma rate_unit:
  assumes "0 \<le> n" "n \<le> d"
  shows "rate n d = Inr (Fin (fl (of_int n / of_int d))) \<and> 0 \<le> fl (of_int n / of_int d) \<and> fl (of_int n / of_int d) \<le> 1"
proof (cases "d > 0")
  case True
  with assms int_div_unit [of n d] show ?thesis by (simp add: rate_def)
next
  case False
  with assms have "d = 0" by simp
  then show ?thesis by (simp add: rate_def)
qed

lemma rate_mono: "n \<le> m \<Longrightarrow> 0 \<le> d \<Longrightarrow> fl (of_int n / of_int d) \<le> fl (of_int m / of_int d)"
  by (rule fl_mono) (simp add: divide_right_mono)

lemma half_of_sum:
  assumes "fl b = b" "0 \<le> a" "a \<le> b" "b \<le> 2 ^ 52"
  shows "\<exists>y. fdiv (fadd (Fin a) (Fin b)) (Fin 2) = Inr (Fin y) \<and> y \<le> b"
proof -
  have sum: "0 \<le> a + b" "a + b \<le> of_nat (2 ^ 53)" using assms by simp_all
  note f = to_float_between [OF sum order_refl]
  have "fl (a + b) \<le> fl (2 * b)" using assms by (intro fl_mono) simp
  then have le: "fl (a + b) / 2 \<le> b" using fl_double [OF assms(1)] by simp
  have "0 \<le> fl (a + b) / 2" "fl (a + b) / 2 \<le> of_nat (2 ^ 53)" using f(2,3) by simp_all
  note g = to_float_between [OF this order_refl]
  have "fl (fl (a + b) / 2) \<le> b" using fl_mono [OF le] assms(1) by simp
  moreover have "fdiv (fadd (Fin a) (Fin b)) (Fin 2) = Inr (to_float (fl (a + b) / 2))" by (simp add: f(1))
  ultimately show ?thesis using g(1) by simp
qed

lemma median_le_p95:
  assumes "lats \<noteq> []" "length lats \<le> 2 ^ 53" "\<forall>x \<in> set lats. 0 \<le> x \<and> x \<le> 2 ^ 52 \<and> fl x = x"
  shows "\<exists>x y. float_median lats = Inr (Fin x) \<and> latency_p95 lats = Fin y \<and> x \<le> y"
proof -
  let ?n = "length lats" and ?d = "sort lats"
  let ?i = "min (p95_index ?n) (?n - 1)"
  have n: "0 < ?n" using assms(1) by simp
  have mid: "?n div 2 \<le> ?i" "?i < length ?d"
    using p95_index_bounds(2) [OF assms(2)] n by (auto simp: min_less_iff_disj)
  have top: "?d ! (?n div 2) \<le> ?d ! ?i"
    by (rule sorted_nth_mono [OF sorted_sort mid])
  show ?thesis
  proof (cases "odd ?n")
    case True
    with n top show ?thesis by (auto simp: float_median_def latency_p95_def Let_def)
  next
    case False
    let ?a = "?d ! (?n div 2 - 1)" and ?b = "?d ! (?n div 2)"
    have in_range: "?n div 2 < length ?d" "?n div 2 - 1 < length ?d" using mid by simp_all
    have b: "?b \<in> set lats" and a: "?a \<in> set lats"
      using nth_mem [OF in_range(1)] nth_mem [OF in_range(2)] by simp_all
    have "?a \<le> ?b" using in_range by (intro sorted_nth_mono) simp_all
    with half_of_sum [of ?b ?a] a b assms(3) obtain y
      where y: "fdiv (fadd (Fin ?a) (Fin ?b)) (Fin 2) = Inr (Fin y)" "y \<le> ?b" by blast
    have "float_median lats = Inr (Fin y)" using False n y(1) unfolding float_median_def Let_def by simp
    moreover have "y \<le> ?d ! ?i" using y(2) top by simp
    ultimately show ?thesis by (simp add: latency_p95_def)
  qed
qed

definition plain_latency :: "eval_result \<Rightarrow> bool" where
  "plain_latency r \<longleftrightarrow> 0 \<le> er_latency_ms r \<and> er_latency_ms r \<le> 2 ^ 53"

lemma latency_s_plain:
  assumes "plain_latency r"
  shows "\<exists>x. latency_s r = Inr x \<and> 0 \<le> x \<and> x \<le> 2 ^ 52 \<and> fl x = x"
proof -
  define k where "k = nat (er_latency_ms r)"
  have ms: "er_latency_ms r = int k" and k: "k \<le> 2 ^ 53"
    using assms by (simp_all add: plain_latency_def k_def nat_le_iff)
  have "(of_nat k :: rat) \<le> 2 ^ 53" using k by (metis of_nat_le_iff of_nat_numeral of_nat_power)
  then have x: "0 \<le> (of_nat k / 1000 :: rat)" "of_nat k / 1000 \<le> (of_nat (2 ^ 52) :: rat)" by simp_all
  have "(2 :: nat) ^ 52 \<le> 2 ^ 53" by (rule power_increasing) simp_all
  note f = to_float_between [OF x this]
  have "latency_s r = Inr (fl (of_nat k / 1000))"
    by (simp add: latency_s_def float_of_int_def ms to_float_of_nat [OF k] f(1))
  with f(2,3) show ?thesis by simp
qed

lemma latencies_plain:
  "list_all plain_latency results \<Longrightarrow>
     \<exists>lats. map_result latency_s results = Inr lats \<and> length lats = length results
       \<and> (\<forall>x \<in> set lats. 0 \<le> x \<and> x \<le> 2 ^ 52 \<and> fl x = x)"
proof (induction results)
  case (Cons r results)
  then obtain lats where "map_result latency_s results = Inr lats" "length lats = length results"
    "\<forall>x \<in> set lats. 0 \<le> x \<and> x \<le> 2 ^ 52 \<and> fl x = x" by auto
  moreover obtain x where "latency_s r = Inr x" "0 \<le> x \<and> x \<le> 2 ^ 52 \<and> fl x = x"
    using latency_s_plain [of r] Cons.prems by auto
  ultimately show ?case by simp
qed simp

lemma total_nonneg: "0 \<le> total field results"
  unfolding total_def by (rule sum_list_nonneg) auto

lemma run_totals:
  assumes "list_all2 (result_of_pr variant) corpus results"
  shows "total er_true_positives results + total er_false_positives results = total er_findings_produced results"
    and "total er_true_positives results + total er_missed results
      = sum_list (map (\<lambda>pr. int (length (bp_expected_findings pr))) corpus)"
    and "length results = length corpus"
  using assms
proof (induction rule: list_all2_induct)
  case (Cons pr corpus r results)
  have "match_findings (er_findings_produced r) (bp_expected_findings pr)
      = (er_true_positives r, er_false_positives r, er_missed r)"
    using Cons by (simp add: result_of_pr_def)
  note c = match_findings_counts(1,2) [OF this]
  { case 1 from Cons.IH(1) c show ?case by (simp add: total_def flip: of_nat_add) }
  { case 2 from Cons.IH(2) c show ?case by (simp add: total_def flip: of_nat_add) }
  { case 3 from Cons.IH(3) show ?case by simp }
qed (simp_all add: total_def)

lemma false_positives_le:
  "int (length (false_positives_of levels results)) \<le> total er_false_positives results"
  by (induction results) (auto simp: false_positives_of_def total_def intro: add_mono)

lemma false_positives_mono:
  "levels \<subseteq> levels' \<Longrightarrow> int (length (false_positives_of levels results)) \<le> int (length (false_positives_of levels' results))"
proof (induction results)
  case (Cons r results)
  have "length (filter (\<lambda>f. fd_confidence f \<in> levels) fs) \<le> length (filter (\<lambda>f. fd_confidence f \<in> levels') fs)" for fs
    using Cons.prems by (induction fs) auto
  from this [of "er_false_positives r"] Cons show ?case by (simp add: false_positives_of_def)
qed (simp add: false_positives_of_def)

lemma float_sum_nonempty: "xs \<noteq> [] \<Longrightarrow> \<exists>x. num_float (float_sum xs) = Inr x"
  by (cases xs) (simp_all add: float_sum_def)

lemma avg_total:
  assumes "0 < n" "n \<le> 2 ^ 53"
  shows "\<exists>y. and_then (float_of_int (int n)) (fdiv x) = Inr y"
proof -
  have "float_of_int (int n) = Inr (Fin (of_nat n))"
    using to_float_of_nat [OF assms(2)] by (simp add: float_of_int_def)
  with assms(1) show ?thesis by (cases x) auto
qed

definition metrics_in_bounds :: "eval_metrics \<Rightarrow> bool" where
  "metrics_in_bounds m \<longleftrightarrow> (\<exists>a v h p50 p95.
     em_accepted_finding_rate m = Fin a \<and> 0 \<le> a \<and> a \<le> 1
     \<and> em_fp_rate_verified m = Fin v \<and> em_fp_rate_high_confidence m = Fin h \<and> 0 \<le> v \<and> v \<le> h \<and> h \<le> 1
     \<and> em_latency_p50_seconds m = Fin p50 \<and> em_latency_p95_seconds m = Fin p95 \<and> p50 \<le> p95)"

text \<open>The steps of \<open>compute_metrics\<close> succeed, with the rates in their bounds.\<close>

lemma rates_in_bounds:
  assumes "total er_true_positives results + total er_false_positives results = total er_findings_produced results"
  defines "n \<equiv> total er_findings_produced results"
  shows "\<exists>a v h. rate (total er_true_positives results) (total er_true_positives results + total er_missed results) = Inr (Fin a)
      \<and> rate (int (length (false_positives_of {VERIFIED} results))) n = Inr (Fin v)
      \<and> rate (int (length (false_positives_of {VERIFIED, HIGH} results))) n = Inr (Fin h)
      \<and> 0 \<le> a \<and> a \<le> 1 \<and> 0 \<le> v \<and> v \<le> h \<and> h \<le> 1"
proof -
  let ?tp = "total er_true_positives results" and ?missed = "total er_missed results"
    and ?v = "int (length (false_positives_of {VERIFIED} results))"
    and ?h = "int (length (false_positives_of {VERIFIED, HIGH} results))"
  have nn: "0 \<le> ?tp" "0 \<le> ?missed" "0 \<le> total er_false_positives results" by (simp_all add: total_nonneg)
  have "?v \<le> ?h" by (rule false_positives_mono) simp
  moreover have "?h \<le> n" using false_positives_le [of "{VERIFIED, HIGH}" results] assms nn by (simp add: n_def)
  ultimately show ?thesis
    using rate_unit [of ?tp "?tp + ?missed"] rate_unit [of ?v n] rate_unit [of ?h n] rate_mono [of ?v ?h n] nn
    by simp
qed

lemma compute_metrics_in_bounds:
  assumes "total er_true_positives results + total er_false_positives results = total er_findings_produced results"
    and "results \<noteq> []" "length results \<le> 2 ^ 53" "list_all plain_latency results"
  shows "\<exists>m. compute_metrics results = Inr m \<and> metrics_in_bounds m
    \<and> em_total_true_positives m = total er_true_positives results
    \<and> em_total_false_positives m = total er_false_positives results
    \<and> em_total_findings_produced m = total er_findings_produced results
    \<and> em_total_missed m = total er_missed results"
proof -
  obtain r0 rest where r0: "results = r0 # rest" using assms(2) by (cases results) auto
  obtain a v h where rates:
      "rate (total er_true_positives results) (total er_true_positives results + total er_missed results) = Inr (Fin a)"
      "rate (int (length (false_positives_of {VERIFIED} results))) (total er_findings_produced results) = Inr (Fin v)"
      "rate (int (length (false_positives_of {VERIFIED, HIGH} results))) (total er_findings_produced results) = Inr (Fin h)"
    and bounds: "0 \<le> a \<and> a \<le> 1 \<and> 0 \<le> v \<and> v \<le> h \<and> h \<le> 1"
    using rates_in_bounds [OF assms(1)] by (elim exE conjE) simp
  obtain lats where lats: "map_result latency_s results = Inr lats" "length lats = length results"
      "\<forall>x \<in> set lats. 0 \<le> x \<and> x \<le> 2 ^ 52 \<and> fl x = x"
    using latencies_plain [OF assms(4)] by blast
  have "lats \<noteq> []" "length lats \<le> 2 ^ 53" using lats(2) assms(2,3) by auto
  from median_le_p95 [OF this lats(3)] obtain p50 p95
    where p: "float_median lats = Inr (Fin p50)" "latency_p95 lats = Fin p95" "p50 \<le> p95" by blast
  obtain cost where cost: "num_float (float_sum (map er_cost_usd results)) = Inr cost"
    using float_sum_nonempty [of "map er_cost_usd results"] r0 by auto
  have "0 < length results" using assms(2) by simp
  from avg_total [OF this assms(3), of cost] obtain n avg
    where avg: "float_of_int (int (length results)) = Inr n" "fdiv cost n = Inr avg" by auto
  show ?thesis
    unfolding compute_metrics_def Let_def rates lats(1) cost avg p(1,2) and_then_simps
    using bounds p(3) by (simp add: r0 metrics_in_bounds_def)
qed

text \<open>
  Claim C30.  Metrics of a run exist and make sense.  For every run over a non-empty corpus
  with latencies from 0 to 2^53 milliseconds, the metrics are computed without an exception; the
  true positives with the false positives are the findings produced and with the missed ones
  the findings expected; the accepted-finding rate lies between 0 and 1; the rate of verified
  false positives lies between 0 and the rate of those of high or better confidence, which is
  at most 1; and the P50 latency does not exceed the P95 latency.
\<close>

theorem run_metrics_bounds:
  assumes "run_eval pl variant corpus w = (Inr results, w')"
    and "corpus \<noteq> []" "length corpus \<le> 2 ^ 53" "list_all plain_latency results"
  shows "\<exists>m. compute_metrics results = Inr m
    \<and> em_total_true_positives m + em_total_false_positives m = em_total_findings_produced m
    \<and> em_total_true_positives m + em_total_missed m = sum_list (map (\<lambda>pr. int (length (bp_expected_findings pr))) corpus)
    \<and> metrics_in_bounds m"
proof -
  note tot = run_totals [OF run_eval_results [OF assms(1)]]
  have "results \<noteq> []" "length results \<le> 2 ^ 53" using tot(3) assms(2,3) by auto
  from compute_metrics_in_bounds [OF tot(1) this assms(4)] show ?thesis
    using tot(1,2) by (elim exE conjE) (intro exI conjI, assumption, simp_all)
qed

definition sample_pipeline :: "unit review_pipeline" where
  "sample_pipeline = \<lparr>pl_review = (\<lambda>repo n head base variant. return ([sample_finding], [u ''latency_ms'' \<mapsto> N_Int 1500])),
     pl_monotonic = return (Fin 0)\<rparr>"

definition sample_corpus :: corpus where
  "sample_corpus = [\<lparr>bp_pr_id = u ''r_1'', bp_repo = u ''o/r'', bp_pr_number = 1, bp_head_sha = u ''h'',
     bp_base_sha = u ''b'', bp_languages = [], bp_size = u ''small'', bp_tags = [],
     bp_expected_findings = [\<lparr>an_file_path = u ''a.py'', an_line_range = (8, 9), an_category = BUG,
       an_severity = WARNING, an_confidence = HIGH, an_description = []\<rparr>],
     bp_false_positive_patterns = []\<rparr>]"

theorem run_metrics_bounds_witness:
  "\<exists>results w' m. run_eval sample_pipeline (u ''structural'') sample_corpus () = (Inr results, w')
     \<and> length results = 1 \<and> compute_metrics results = Inr m \<and> em_total_true_positives m + em_total_missed m = 1"
proof -
  have zero: "to_float 0 = Fin 0" by (simp add: to_float_def)
  have "\<exists>results. run_eval sample_pipeline (u ''structural'') sample_corpus () = (Inr results, ())
      \<and> map er_latency_ms results = [1500]"
    by (simp add: run_eval_def sample_corpus_def sample_pipeline_def eval_one_def seq_def return_def from_result_def
        fsub_def zero trunc_def telemetry_get_def match_findings_def finding_matches_def line_ranges_overlap_def
        sample_finding_def)
  then obtain results where r: "run_eval sample_pipeline (u ''structural'') sample_corpus () = (Inr results, ())"
    "map er_latency_ms results = [1500]" by (elim exE conjE)
  then obtain x where x: "results = [x]" "er_latency_ms x = 1500" by auto
  have "sample_corpus \<noteq> []" "length sample_corpus \<le> 2 ^ 53" "list_all plain_latency results"
    by (simp_all add: sample_corpus_def x plain_latency_def)
  from run_metrics_bounds [OF r(1) this] obtain m where m: "compute_metrics results = Inr m"
    "em_total_true_positives m + em_total_missed m
      = sum_list (map (\<lambda>pr. int (length (bp_expected_findings pr))) sample_corpus)"
    by (elim exE conjE)
  from m(2) have "em_total_true_positives m + em_total_missed m = 1" by (simp add: sample_corpus_def)
  with r(1) m(1) show ?thesis unfolding x(1) by (intro exI conjI) simp_all
qed

end
