(* ===== verification/Eval_Compare.thy ===== *)
theory Eval_Compare
  imports Eval_Metrics
begin

text \<open>
  The comparison of the structural and the diff-only variant with the go/no-go verdict for Bet A
  (\<^verbatim>\<open>kenjutsu/evaluation/runner.py\<close>).
\<close>

record metric_comparison =
  mc_metric :: pystr
  mc_diff_only :: py_number
  mc_structural :: py_number
  mc_lift :: py_number
  mc_unit :: pystr

record comparison_report =
  cr_comparisons :: "metric_comparison list"
  cr_accepted_finding_lift :: pyfloat
  cr_graph_origin_fraction :: pyfloat
  cr_bet_a_go :: bool
  cr_bet_a_reason :: pystr

definition lift_threshold :: pyfloat where
  "lift_threshold = to_float (15 / 100)"

definition graph_fraction_threshold :: pyfloat where
  "graph_fraction_threshold = to_float (20 / 100)"

definition comparison :: "pystr \<Rightarrow> py_number \<Rightarrow> py_number \<Rightarrow> py_number result \<Rightarrow> pystr \<Rightarrow> metric_comparison result" where
  "comparison metric diff_only structural lift unit_text = and_then lift (\<lambda>l.
     Inr \<lparr>mc_metric = metric, mc_diff_only = diff_only, mc_structural = structural, mc_lift = l, mc_unit = unit_text\<rparr>)"

definition graph_tps :: "eval_result list \<Rightarrow> int" where
  "graph_tps results = sum_list (map (\<lambda>r. int (length (filter (\<lambda>f. fd_origin f = GRAPH) (er_true_positives r)))) results)"

definition graph_fraction :: "eval_result list option \<Rightarrow> pyfloat result" where
  "graph_fraction structural_results =
     (case structural_results of
        None \<Rightarrow> Inr (Fin 0)
      | Some results \<Rightarrow>
          if results \<noteq> [] \<and> total er_true_positives results > 0
          then int_div (graph_tps results) (total er_true_positives results)
          else Inr (Fin 0))"

text \<open>One half of the reason; 8804 is the sign for at most.\<close>

definition reason_part :: "pystr \<Rightarrow> pyfloat \<Rightarrow> pyfloat \<Rightarrow> pystr" where
  "reason_part name x threshold =
     name @ u '' '' @ format_percent 1 x @ u '' '' @ (if flt threshold x then u ''>'' else [8804]) @ u '' ''
       @ format_percent 0 threshold @ u '' threshold''"

definition compare_variants ::
  "eval_metrics \<Rightarrow> eval_metrics \<Rightarrow> eval_result list option \<Rightarrow> comparison_report result" where
  "compare_variants structural diff_only structural_results =
     (let s = (\<lambda>field. N_Float (field structural)); d = (\<lambda>field. N_Float (field diff_only))
      in and_then (comparison (u ''Accepted-finding rate'') (d em_accepted_finding_rate) (s em_accepted_finding_rate)
            (num_sub (s em_accepted_finding_rate) (d em_accepted_finding_rate)) (u ''%'')) (\<lambda>c1.
         and_then (comparison (u ''FP rate (high confidence)'') (d em_fp_rate_high_confidence) (s em_fp_rate_high_confidence)
            (num_sub (d em_fp_rate_high_confidence) (s em_fp_rate_high_confidence)) (u ''%'')) (\<lambda>c2.
         and_then (comparison (u ''Comments per PR'') (em_comments_per_pr_defects diff_only) (em_comments_per_pr_defects structural)
            (num_sub (em_comments_per_pr_defects diff_only) (em_comments_per_pr_defects structural)) []) (\<lambda>c3.
         and_then (comparison (u ''Latency P50'') (d em_latency_p50_seconds) (s em_latency_p50_seconds)
            (num_sub (d em_latency_p50_seconds) (s em_latency_p50_seconds)) (u ''s'')) (\<lambda>c4.
         and_then (comparison (u ''Latency P95'') (d em_latency_p95_seconds) (s em_latency_p95_seconds)
            (num_sub (d em_latency_p95_seconds) (s em_latency_p95_seconds)) (u ''s'')) (\<lambda>c5.
         let lift = fsub (em_accepted_finding_rate structural) (em_accepted_finding_rate diff_only) in
         and_then (graph_fraction structural_results) (\<lambda>fraction.
           Inr \<lparr>cr_comparisons = [c1, c2, c3, c4, c5], cr_accepted_finding_lift = lift,
             cr_graph_origin_fraction = fraction,
             cr_bet_a_go = (flt lift_threshold lift \<and> flt graph_fraction_threshold fraction),
             cr_bet_a_reason = join (u ''; '')
               [reason_part (u ''accepted-finding lift'') lift lift_threshold,
                reason_part (u ''graph-origin fraction'') fraction graph_fraction_threshold]\<rparr>)))))))"

section \<open>The verdict\<close>

text \<open>Comparisons of rounded values decide comparisons of exact ones in one direction.\<close>

lemma fl_less_imp: "fl x < fl y \<Longrightarrow> x < y"
  using fl_mono [of y x] by (meson not_le)

lemma to_float_abs_le_1: "\<bar>x\<bar> \<le> 1 \<Longrightarrow> to_float x = Fin (fl x)"
proof -
  assume "\<bar>x\<bar> \<le> 1"
  then have "- 1 \<le> x" "x \<le> 1" by simp_all
  then have "- 1 \<le> fl x" "fl x \<le> 1" using fl_bound [of "- 1" x] fl_bound [of 1 x] by simp_all
  moreover have "fl x < 2 ^ 1024" by (rule le_less_trans [OF \<open>fl x \<le> 1\<close>]) simp
  moreover have "- (2 ^ 1024) < fl x" by (rule less_le_trans [OF _ \<open>- 1 \<le> fl x\<close>]) simp
  ultimately show ?thesis by (simp add: to_float_def)
qed

lemma thresholds: "lift_threshold = Fin (fl (15 / 100))" "graph_fraction_threshold = Fin (fl (20 / 100))"
  unfolding lift_threshold_def graph_fraction_threshold_def by (rule to_float_abs_le_1, simp)+

lemma graph_tps_le: "0 \<le> graph_tps results \<and> graph_tps results \<le> total er_true_positives results"
proof (induction results)
  case (Cons r results)
  have "length (filter (\<lambda>f. fd_origin f = GRAPH) (er_true_positives r)) \<le> length (er_true_positives r)" by simp
  then have "int (length (filter (\<lambda>f. fd_origin f = GRAPH) (er_true_positives r))) \<le> int (length (er_true_positives r))"
    by (simp only: of_nat_le_iff)
  with Cons show ?case unfolding graph_tps_def total_def list.map sum_list.Cons by linarith
qed (simp add: graph_tps_def total_def)

lemma unit_lift: "\<lbrakk>0 \<le> x; x \<le> 1; 0 \<le> y; y \<le> 1\<rbrakk> \<Longrightarrow> fsub (Fin x) (Fin y) = Fin (fl (x - y))"
  using to_float_abs_le_1 [of "x - y"] by (simp add: fsub_def)

lemma go_cases:
  assumes "compare_variants structural diff_only (Some results) = Inr report" and "cr_bet_a_go report"
  obtains fraction where "graph_fraction (Some results) = Inr fraction" "flt graph_fraction_threshold fraction"
    "flt lift_threshold (fsub (em_accepted_finding_rate structural) (em_accepted_finding_rate diff_only))"
  using assms unfolding compare_variants_def Let_def by auto

lemma go_lift:
  assumes "compare_variants structural diff_only results = Inr report" and "cr_bet_a_go report"
    and "em_accepted_finding_rate structural = Fin a" "em_accepted_finding_rate diff_only = Fin b"
    and "0 \<le> a" "a \<le> 1" "0 \<le> b" "b \<le> 1"
  shows "b + 15 / 100 < a"
proof -
  have "flt lift_threshold (fsub (Fin a) (Fin b))"
    using assms(1,2) unfolding compare_variants_def Let_def assms(3,4) by auto
  then have "fl (15 / 100) < fl (a - b)" using assms(5-8) by (simp add: thresholds unit_lift flt_def not_le)
  then have "15 / 100 < a - b" by (rule fl_less_imp)
  then show ?thesis by simp
qed

lemma go_fraction:
  assumes "graph_fraction (Some results) = Inr fraction" and "flt graph_fraction_threshold fraction"
  shows "total er_true_positives results < 5 * graph_tps results"
proof -
  let ?g = "graph_tps results" and ?t = "total er_true_positives results"
  have pos: "?t > 0"
  proof (rule ccontr)
    assume "\<not> ?thesis"
    with assms(1) have "fraction = Fin 0" by (simp add: graph_fraction_def)
    with assms(2) have "fl (20 / 100) < fl 0" by (simp add: thresholds flt_def not_le)
    from fl_less_imp [OF this] show False by simp
  qed
  have "int_div ?g ?t = Inr (Fin (fl (of_int ?g / of_int ?t)))"
    using int_div_unit [of ?g ?t] graph_tps_le [of results] pos by simp
  moreover have "results \<noteq> []" using pos by (auto simp: total_def)
  ultimately have "fraction = Fin (fl (of_int ?g / of_int ?t))"
    using assms(1) pos by (simp add: graph_fraction_def)
  with assms(2) have "fl (20 / 100) < fl (of_int ?g / of_int ?t)" by (simp add: thresholds flt_def not_le)
  then have "20 / 100 < (of_int ?g / of_int ?t :: rat)" by (rule fl_less_imp)
  then have "(of_int ?t :: rat) < of_int (5 * ?g)" using pos by (simp add: field_simps)
  then show ?thesis by (simp only: of_int_less_iff)
qed

text \<open>
  Claim C31.  The verdict for Bet A is sound: when the report says go, the accepted-finding rates
  (as doubles) differ by more than 15 percentage points in favour of the structural variant, and
  more than a fifth of its true positives come from the graph; both hold exactly, in spite of
  rounding.  No pair of variants gets a go in both directions.
\<close>

theorem bet_a_sound:
  assumes "compare_variants structural diff_only (Some results) = Inr report"
    and "em_accepted_finding_rate structural = Fin a" "em_accepted_finding_rate diff_only = Fin b"
    and "0 \<le> a" "a \<le> 1" "0 \<le> b" "b \<le> 1" "cr_bet_a_go report"
  shows "b + 15 / 100 < a \<and> total er_true_positives results < 5 * graph_tps results
    \<and> (compare_variants diff_only structural results' = Inr report' \<longrightarrow> \<not> cr_bet_a_go report')"
proof -
  have ab: "b + 15 / 100 < a" by (rule go_lift [OF assms(1,8,2-7)])
  have "total er_true_positives results < 5 * graph_tps results"
    using go_cases [OF assms(1,8)] go_fraction by metis
  moreover have "\<not> cr_bet_a_go report'" if "compare_variants diff_only structural results' = Inr report'"
  proof
    assume "cr_bet_a_go report'"
    from go_lift [OF that this assms(3,2,6,7,4,5)] ab show False by simp
  qed
  ultimately show ?thesis using ab by blast
qed

definition sample_metrics :: "rat \<Rightarrow> eval_metrics" where
  "sample_metrics a = \<lparr>em_variant = [], em_pr_count = 1, em_total_findings_produced = 1,
     em_total_true_positives = 1, em_total_false_positives = 0, em_total_missed = 0,
     em_comments_per_pr_defects = N_Int 1, em_accepted_finding_rate = Fin a, em_fp_rate_verified = Fin 0,
     em_fp_rate_high_confidence = Fin 0, em_latency_p50_seconds = Fin 1, em_latency_p95_seconds = Fin 1,
     em_total_tokens_in = 0, em_total_tokens_out = 0, em_total_cost_usd = N_Float (Fin 0),
     em_avg_cost_per_pr_usd = Fin 0, em_meets_comments_per_pr_target = True,
     em_meets_accepted_finding_target = True, em_meets_fp_verified_target = True,
     em_meets_fp_high_confidence_target = True, em_meets_latency_p50_target = True,
     em_meets_latency_p95_target = True\<rparr>"

definition sample_graph_result :: eval_result where
  "sample_graph_result = \<lparr>er_pr_id = [], er_variant = [], er_findings_produced = [sample_finding\<lparr>fd_origin := GRAPH\<rparr>],
     er_expected_findings = [], er_true_positives = [sample_finding\<lparr>fd_origin := GRAPH\<rparr>],
     er_false_positives = [], er_missed = [], er_latency_ms = 0, er_tokens_in = 0, er_tokens_out = 0,
     er_cost_usd = Fin 0\<rparr>"

lemma threshold_values: "fl (15 / 100) < 1" "fl (20 / 100) < 1"
proof -
  have "fl (15 / 100) \<le> fl (1 / 2)" "fl (20 / 100) \<le> fl (1 / 2)" by (rule fl_mono; simp)+
  moreover have "fl (1 / 2) = 1 / 2"
    using fl_near [of "- 53" "1 / 2" 4503599627370496] by (simp add: power_int_def power_one_over)
  ultimately show "fl (15 / 100) < 1" "fl (20 / 100) < 1" by simp_all
qed

lemma sample_go:
  "\<exists>report. compare_variants (sample_metrics 1) (sample_metrics 0) (Some [sample_graph_result]) = Inr report
     \<and> cr_bet_a_go report"
proof -
  have "fsub (Fin 1) (Fin 0) = Fin 1" using to_float_abs_le_1 [of 1] by (simp add: fsub_def)
  then have lift: "flt lift_threshold (fsub (Fin 1) (Fin 0))"
    using threshold_values(1) unfolding thresholds by (simp only: flt_def fle.simps not_le) simp
  have counts: "graph_tps [sample_graph_result] = 1" "total er_true_positives [sample_graph_result] = 1"
    by (simp_all add: graph_tps_def total_def sample_graph_result_def)
  have fr: "graph_fraction (Some [sample_graph_result]) = Inr (Fin 1)"
    using int_div_unit [of 1 1] by (simp add: graph_fraction_def counts)
  have graph: "flt graph_fraction_threshold (Fin 1)"
    using threshold_values(2) unfolding thresholds by (simp only: flt_def fle.simps not_le) simp
  show ?thesis
    unfolding compare_variants_def Let_def fr comparison_def
    by (simp add: sample_metrics_def lift graph)
qed

theorem bet_a_sound_witness:
  "total er_true_positives [sample_graph_result] < 5 * graph_tps [sample_graph_result]"
proof -
  obtain report where r: "compare_variants (sample_metrics 1) (sample_metrics 0) (Some [sample_graph_result]) = Inr report"
    "cr_bet_a_go report" using sample_go by (elim exE conjE)
  have "em_accepted_finding_rate (sample_metrics 1) = Fin 1" "em_accepted_finding_rate (sample_metrics 0) = Fin 0"
    by (simp_all add: sample_metrics_def)
  from bet_a_sound [OF r(1) this _ _ _ _ r(2)] show ?thesis by simp
qed

text \<open>
  The rates themselves are rounded: with 3 of 4 expected findings accepted against 3 of 5, which is
  a lift of 15 points and not more, the difference of the doubles is above the threshold.
\<close>

lemma exactly_15_points_pass:
  "rate 3 4 = Inr (Fin x) \<Longrightarrow> rate 3 5 = Inr (Fin y) \<Longrightarrow> flt lift_threshold (fsub (Fin x) (Fin y))"
proof -
  have x: "fl (3 / 4) = 3 / 4"
    using fl_near [of "- 53" "3 / 4" 6755399441055744] by (simp add: power_int_def power_one_over)
  have y: "fl (3 / 5) = 5404319552844595 / 9007199254740992"
    using fl_near [of "- 53" "3 / 5" 5404319552844595] by (simp add: power_int_def power_one_over)
  have t: "fl (15 / 100) = 5404319552844595 / 36028797018963968"
    using fl_near [of "- 55" "15 / 100" 5404319552844595] by (simp add: power_int_def power_one_over)
  have d: "fl (1351079888211149 / 9007199254740992) = 1351079888211149 / 9007199254740992"
    using fl_near [of "- 55" "1351079888211149 / 9007199254740992" 5404319552844596]
    by (simp add: power_int_def power_one_over)
  assume "rate 3 4 = Inr (Fin x)" "rate 3 5 = Inr (Fin y)"
  then have xy: "x = 3 / 4" "y = 5404319552844595 / 9007199254740992"
    using rate_unit [of 3 4] rate_unit [of 3 5] x y by simp_all
  have diff: "fsub (Fin (3 / 4)) (Fin (5404319552844595 / 9007199254740992))
      = Fin (1351079888211149 / 9007199254740992)"
    using to_float_abs_le_1 [of "1351079888211149 / 9007199254740992"] d by (simp add: fsub_def)
  show ?thesis unfolding xy diff thresholds(1) t by (simp add: flt_def)
qed

end
