(* ===== verification/Py_Path.thy ===== *)
theory Py_Path
  imports Kenjutsu_Prelude
begin

text \<open>
  \<open>pathlib.PurePosixPath\<close> as the program uses it: parsing, \<open>/\<close> and \<open>str\<close>.  Empty and dot
  components vanish, dot-dot stays, and an absolute right operand replaces the left one.
\<close>

record py_path =
  pa_root :: pystr
  pa_parts :: "pystr list"

definition path_root :: "pystr \<Rightarrow> pystr" where
  "path_root s =
     (if \<not> starts_with s (u ''/'') then []
      else if starts_with s (u ''//'') \<and> \<not> starts_with s (u ''///'') then u ''//''
      else u ''/'')"

definition path_parts :: "pystr \<Rightarrow> pystr list" where
  "path_parts s = filter (\<lambda>c. c \<noteq> [] \<and> c \<noteq> u ''.'') (split_on (of_char CHR ''/'') s)"

definition parse_path :: "pystr \<Rightarrow> py_path" where
  "parse_path s = \<lparr>pa_root = path_root s, pa_parts = path_parts s\<rparr>"

definition path_join :: "py_path \<Rightarrow> pystr \<Rightarrow> py_path" where
  "path_join p s =
     (let q = parse_path s
      in if pa_root q \<noteq> [] then q else p\<lparr>pa_parts := pa_parts p @ pa_parts q\<rparr>)"

definition path_str :: "py_path \<Rightarrow> pystr" where
  "path_str p = (if pa_root p = [] \<and> pa_parts p = [] then u ''.''
     else pa_root p @ join (u ''/'') (pa_parts p))"

text \<open>A plain name is one component: a repository id or a directory entry, for instance.\<close>

definition plain_name :: "pystr \<Rightarrow> bool" where
  "plain_name s \<longleftrightarrow> s \<noteq> [] \<and> of_char CHR ''/'' \<notin> set s \<and> s \<noteq> u ''.'' \<and> s \<noteq> u ''..''"

lemma split_on_plain: "c \<notin> set s \<Longrightarrow> split_on c s = [s]"
  by (induction s) auto

lemma path_join_plain:
  assumes "plain_name s"
  shows "path_join p s = p\<lparr>pa_parts := pa_parts p @ [s]\<rparr>"
proof -
  have "\<not> starts_with s (u ''/'')"
    using assms by (cases s) (auto simp: plain_name_def)
  moreover have "path_parts s = [s]"
    using assms split_on_plain [of "of_char CHR ''/''" s] by (simp add: path_parts_def plain_name_def)
  ultimately show ?thesis by (simp add: path_join_def parse_path_def path_root_def)
qed

end
