(* ===== verification/Eval_Reports.thy ===== *)
theory Eval_Reports
  imports Eval_Compare Db_Models Py_Path
begin

text \<open>
  The reports of the evaluation runner (\<^verbatim>\<open>kenjutsu/evaluation/runner.py\<close>): the JSON values that
  \<open>json.dumps\<close> writes, the Markdown texts, and the files.  The file system and the clock, whose
  time stamp is a text, are operations on an arbitrary world.
\<close>

section \<open>Files\<close>

datatype report_content = Json_Text json | Plain_Text pystr

record 'w report_io =
  ri_mkdir :: "py_path \<Rightarrow> ('w, unit) proc"
  ri_timestamp :: "('w, pystr) proc"
  ri_write :: "py_path \<Rightarrow> report_content \<Rightarrow> ('w, unit) proc"

fun num_json :: "py_number \<Rightarrow> json" where
  "num_json (N_Int i) = J_Int i"
| "num_json (N_Float x) = J_Float x"

definition rounded :: "nat \<Rightarrow> py_number \<Rightarrow> json" where
  "rounded n a = num_json (num_round n a)"

definition newline_join :: "pystr list \<Rightarrow> pystr" where
  "newline_join lines = join [10] lines @ [10]"

section \<open>The metrics report\<close>

definition pr_payload :: "eval_result \<Rightarrow> json" where
  "pr_payload r = J_Dict
     [(u ''pr_id'', J_Str (er_pr_id r)),
      (u ''findings_produced'', J_Int (int (length (er_findings_produced r)))),
      (u ''true_positives'', J_Int (int (length (er_true_positives r)))),
      (u ''false_positives'', J_Int (int (length (er_false_positives r)))),
      (u ''missed'', J_Int (int (length (er_missed r)))),
      (u ''latency_ms'', J_Int (er_latency_ms r)),
      (u ''tokens_in'', J_Int (er_tokens_in r)),
      (u ''tokens_out'', J_Int (er_tokens_out r)),
      (u ''cost_usd'', rounded 6 (N_Float (er_cost_usd r)))]"

definition metrics_payload :: "eval_metrics \<Rightarrow> eval_result list \<Rightarrow> pystr \<Rightarrow> json" where
  "metrics_payload m results timestamp = J_Dict
     [(u ''variant'', J_Str (em_variant m)),
      (u ''generated_at'', J_Str timestamp),
      (u ''pr_count'', J_Int (em_pr_count m)),
      (u ''metrics'', J_Dict
        [(u ''comments_per_pr_defects'', rounded 2 (em_comments_per_pr_defects m)),
         (u ''accepted_finding_rate'', rounded 4 (N_Float (em_accepted_finding_rate m))),
         (u ''fp_rate_verified'', rounded 4 (N_Float (em_fp_rate_verified m))),
         (u ''fp_rate_high_confidence'', rounded 4 (N_Float (em_fp_rate_high_confidence m))),
         (u ''latency_p50_seconds'', rounded 2 (N_Float (em_latency_p50_seconds m))),
         (u ''latency_p95_seconds'', rounded 2 (N_Float (em_latency_p95_seconds m)))]),
      (u ''targets'', J_Dict
        [(u ''comments_per_pr_defects'', J_Bool (em_meets_comments_per_pr_target m)),
         (u ''accepted_finding_rate'', J_Bool (em_meets_accepted_finding_target m)),
         (u ''fp_rate_verified'', J_Bool (em_meets_fp_verified_target m)),
         (u ''fp_rate_high_confidence'', J_Bool (em_meets_fp_high_confidence_target m)),
         (u ''latency_p50'', J_Bool (em_meets_latency_p50_target m)),
         (u ''latency_p95'', J_Bool (em_meets_latency_p95_target m)),
         (u ''all_met'', J_Bool (all_targets_met m))]),
      (u ''totals'', J_Dict
        [(u ''findings_produced'', J_Int (em_total_findings_produced m)),
         (u ''true_positives'', J_Int (em_total_true_positives m)),
         (u ''false_positives'', J_Int (em_total_false_positives m)),
         (u ''missed'', J_Int (em_total_missed m)),
         (u ''tokens_in'', J_Int (em_total_tokens_in m)),
         (u ''tokens_out'', J_Int (em_total_tokens_out m)),
         (u ''cost_usd'', rounded 6 (em_total_cost_usd m)),
         (u ''avg_cost_per_pr_usd'', rounded 6 (N_Float (em_avg_cost_per_pr_usd m)))]),
      (u ''per_pr'', J_List (map pr_payload results))]"

definition check_mark :: "bool \<Rightarrow> pystr" where
  "check_mark passed = (if passed then [0x2705] else [0x274C])"

definition metric_row :: "string \<Rightarrow> pystr \<Rightarrow> string \<Rightarrow> bool \<Rightarrow> pystr" where
  "metric_row name value target passed =
     u ''| '' @ u name @ u '' | '' @ value @ u '' | '' @ u target @ u '' | '' @ check_mark passed @ u '' |''"

definition count_row :: "string \<Rightarrow> pystr \<Rightarrow> pystr" where
  "count_row name value = u ''| '' @ u name @ u '' | '' @ value @ u '' |''"

definition pr_row :: "eval_result \<Rightarrow> pystr" where
  "pr_row r = u ''| '' @ er_pr_id r @ u '' | '' @ int_str (int (length (er_findings_produced r)))
     @ u '' | '' @ int_str (int (length (er_true_positives r)))
     @ u '' | '' @ int_str (int (length (er_false_positives r)))
     @ u '' | '' @ int_str (int (length (er_missed r))) @ u '' | '' @ int_str (er_latency_ms r) @ u ''ms |''"

definition metrics_markdown :: "eval_metrics \<Rightarrow> eval_result list \<Rightarrow> pystr \<Rightarrow> pystr result" where
  "metrics_markdown m results timestamp =
     and_then (num_format 1 (em_comments_per_pr_defects m)) (\<lambda>comments.
     and_then (num_format 4 (em_total_cost_usd m)) (\<lambda>cost.
       Inr (newline_join (
         [u ''# Kenjutsu Evaluation Report '' @ [0x2014] @ u '' `'' @ em_variant m @ u ''`'', [],
          u ''Generated: '' @ timestamp @ u ''  |  PRs evaluated: '' @ int_str (em_pr_count m), [],
          u ''## Appendix D Metrics'', [],
          u ''| Metric | Value | Target | Status |'',
          u ''|--------|-------|--------|--------|'',
          metric_row ''Comments/PR (defects)'' comments ''< 8'' (em_meets_comments_per_pr_target m),
          metric_row ''Accepted-finding rate'' (format_percent 1 (em_accepted_finding_rate m)) ''> 60%''
            (em_meets_accepted_finding_target m),
          metric_row ''FP rate (verified)'' (format_percent 2 (em_fp_rate_verified m)) ''< 1%''
            (em_meets_fp_verified_target m),
          metric_row ''FP rate (high confidence)'' (format_percent 2 (em_fp_rate_high_confidence m)) ''< 10%''
            (em_meets_fp_high_confidence_target m),
          metric_row ''Latency P50'' (format_fixed 1 (em_latency_p50_seconds m) @ u ''s'') ''< 30s''
            (em_meets_latency_p50_target m),
          metric_row ''Latency P95'' (format_fixed 1 (em_latency_p95_seconds m) @ u ''s'') ''< 60s''
            (em_meets_latency_p95_target m), [],
          u ''**Overall:** '' @ (if all_targets_met m then u ''All targets met '' @ [0x2705]
            else u ''Some targets missed '' @ [0x274C]), [],
          u ''## Finding Totals'', [],
          u ''| | Count |'', u ''|--|-------|'',
          count_row ''Total produced'' (int_str (em_total_findings_produced m)),
          count_row ''True positives'' (int_str (em_total_true_positives m)),
          count_row ''False positives'' (int_str (em_total_false_positives m)),
          count_row ''Missed'' (int_str (em_total_missed m)), [],
          u ''## Cost & Tokens'', [],
          u ''| | Value |'', u ''|--|-------|'',
          count_row ''Tokens in'' (format_commas (em_total_tokens_in m)),
          count_row ''Tokens out'' (format_commas (em_total_tokens_out m)),
          count_row ''Total cost'' (u ''$'' @ cost),
          count_row ''Avg cost/PR'' (u ''$'' @ format_fixed 4 (em_avg_cost_per_pr_usd m)), [],
          u ''## Per-PR Results'', [],
          u ''| PR | Produced | TP | FP | Missed | Latency |'',
          u ''|----|----------|----|----|--------|---------|'']
         @ map pr_row results))))"

definition write_report ::
  "'w report_io \<Rightarrow> eval_metrics \<Rightarrow> eval_result list \<Rightarrow> pystr \<Rightarrow> ('w, py_path \<times> py_path) proc" where
  "write_report io m results output_dir =
     (let output_path = parse_path output_dir in
      seq (ri_mkdir io output_path) (\<lambda>_.
      seq (ri_timestamp io) (\<lambda>timestamp.
      let stem = u ''eval_'' @ em_variant m @ u ''_'' @ timestamp;
          json_path = path_join output_path (stem @ u ''.json'');
          md_path = path_join output_path (stem @ u ''.md'') in
      seq (ri_write io json_path (Json_Text (metrics_payload m results timestamp))) (\<lambda>_.
      seq (from_result (metrics_markdown m results timestamp)) (\<lambda>markdown.
      seq (ri_write io md_path (Plain_Text markdown)) (\<lambda>_. return (json_path, md_path)))))))"

section \<open>The comparison report\<close>

definition comparison_payload :: "comparison_report \<Rightarrow> eval_metrics \<Rightarrow> eval_metrics \<Rightarrow> pystr \<Rightarrow> json" where
  "comparison_payload report structural diff_only timestamp = J_Dict
     [(u ''generated_at'', J_Str timestamp),
      (u ''bet_a'', J_Dict
        [(u ''go'', J_Bool (cr_bet_a_go report)),
         (u ''reason'', J_Str (cr_bet_a_reason report)),
         (u ''accepted_finding_lift'', rounded 4 (N_Float (cr_accepted_finding_lift report))),
         (u ''graph_origin_fraction'', rounded 4 (N_Float (cr_graph_origin_fraction report))),
         (u ''lift_threshold'', J_Float lift_threshold),
         (u ''graph_fraction_threshold'', J_Float graph_fraction_threshold)]),
      (u ''metrics'', J_List (map (\<lambda>c. J_Dict
        [(u ''metric'', J_Str (mc_metric c)), (u ''diff_only'', rounded 4 (mc_diff_only c)),
         (u ''structural'', rounded 4 (mc_structural c)), (u ''lift'', rounded 4 (mc_lift c)),
         (u ''unit'', J_Str (mc_unit c))]) (cr_comparisons report))),
      (u ''pr_counts'', J_Dict
        [(u ''structural'', J_Int (em_pr_count structural)), (u ''diff_only'', J_Int (em_pr_count diff_only))])]"

definition delta_text :: "metric_comparison \<Rightarrow> pystr result" where
  "delta_text c =
     (let sign = (if num_ge_0 (mc_lift c) then u ''+'' else [])
      in if mc_unit c = u ''%'' then and_then (num_percent 1 (mc_lift c)) (\<lambda>t. Inr (sign @ t))
         else and_then (num_format 1 (mc_lift c)) (\<lambda>t. Inr (sign @ t @ mc_unit c)))"

text \<open>\<open>_fmt_lift\<close>, which the source defines and does not use.\<close>

definition fmt_lift :: "metric_comparison \<Rightarrow> pystr result" where
  "fmt_lift c =
     (let sign = (if num_ge_0 (mc_lift c) then u ''+'' else [])
      in if mc_unit c = u ''%'' then and_then (num_percent 1 (mc_lift c)) (\<lambda>t. Inr (sign @ t))
         else and_then (num_format 2 (mc_lift c)) (\<lambda>t. Inr (sign @ t @ mc_unit c)))"

definition value_text :: "metric_comparison \<Rightarrow> py_number \<Rightarrow> pystr result" where
  "value_text c v =
     (if mc_unit c = u ''%'' then num_percent 1 v
      else and_then (num_format 1 v) (\<lambda>t. Inr (t @ mc_unit c)))"

definition comparison_row :: "metric_comparison \<Rightarrow> pystr result" where
  "comparison_row c =
     and_then (value_text c (mc_diff_only c)) (\<lambda>d_val.
     and_then (value_text c (mc_structural c)) (\<lambda>s_val.
     and_then (delta_text c) (\<lambda>delta.
       Inr (u ''| '' @ mc_metric c @ u '' | '' @ d_val @ u '' | '' @ s_val @ u '' | '' @ delta @ u '' |''))))"

definition comparison_markdown :: "comparison_report \<Rightarrow> pystr \<Rightarrow> pystr result" where
  "comparison_markdown report timestamp =
     (let verdict = (if cr_bet_a_go report then u ''GO '' @ [0x2705] else u ''NO-GO '' @ [0x274C])
      in and_then (map_result comparison_row (cr_comparisons report)) (\<lambda>rows.
         Inr (newline_join (
           [u ''# Bet A Evaluation Results '' @ [0x2014] @ u '' Structural vs Diff-Only'', [],
            u ''Generated: '' @ timestamp, [],
            u ''## Verdict: '' @ verdict, [],
            u ''_'' @ cr_bet_a_reason report @ u ''_'', [],
            u ''## Metric Comparison'', [],
            u ''| Metric | Diff-Only | Structural | Lift |'',
            u ''|--------|-----------|------------|------|'']
           @ rows
           @ [[], u ''## Bet A Thresholds'', [],
            u ''| Criterion | Value | Threshold | Met |'',
            u ''|-----------|-------|-----------|-----|'',
            u ''| Accepted-finding lift | '' @ format_percent 1 (cr_accepted_finding_lift report)
              @ u '' | > '' @ format_percent 1 lift_threshold
              @ u '' | '' @ check_mark (flt lift_threshold (cr_accepted_finding_lift report)) @ u '' |'',
            u ''| Graph-origin fraction of accepted | '' @ format_percent 1 (cr_graph_origin_fraction report)
              @ u '' | > '' @ format_percent 1 graph_fraction_threshold
              @ u '' | '' @ check_mark (flt graph_fraction_threshold (cr_graph_origin_fraction report)) @ u '' |'']))))"

definition write_comparison_report ::
  "'w report_io \<Rightarrow> comparison_report \<Rightarrow> eval_metrics \<Rightarrow> eval_metrics \<Rightarrow> pystr \<Rightarrow> ('w, py_path \<times> py_path) proc" where
  "write_comparison_report io report structural diff_only output_dir =
     (let output_path = parse_path output_dir in
      seq (ri_mkdir io output_path) (\<lambda>_.
      seq (ri_timestamp io) (\<lambda>timestamp.
      let stem = u ''comparison_structural_vs_diff_only_'' @ timestamp;
          json_path = path_join output_path (stem @ u ''.json'');
          md_path = path_join output_path (stem @ u ''.md'') in
      seq (ri_write io json_path (Json_Text (comparison_payload report structural diff_only timestamp))) (\<lambda>_.
      seq (from_result (comparison_markdown report timestamp)) (\<lambda>markdown.
      seq (ri_write io md_path (Plain_Text markdown)) (\<lambda>_. return (json_path, md_path)))))))"

section \<open>The totals add up\<close>

fun json_at :: "json \<Rightarrow> pystr list \<Rightarrow> json option" where
  "json_at v [] = Some v"
| "json_at (J_Dict d) (k # ks) = (case map_of d k of Some v \<Rightarrow> json_at v ks | None \<Rightarrow> None)"
| "json_at _ (k # ks) = None"

definition int_at :: "json \<Rightarrow> pystr list \<Rightarrow> int option" where
  "int_at v ks = (case json_at v ks of Some (J_Int i) \<Rightarrow> Some i | _ \<Rightarrow> None)"

definition column_sum :: "json \<Rightarrow> pystr \<Rightarrow> int option" where
  "column_sum payload key =
     (case json_at payload [u ''per_pr''] of
        Some (J_List rows) \<Rightarrow> Some (sum_list (map (\<lambda>r. the (int_at r [key])) rows))
      | _ \<Rightarrow> None)"

definition summed_keys :: "pystr list" where
  "summed_keys = [u ''findings_produced'', u ''true_positives'', u ''false_positives'', u ''missed'',
     u ''tokens_in'', u ''tokens_out'']"

lemma compute_metrics_totals:
  assumes "compute_metrics results = Inr m"
  shows "em_total_findings_produced m = total er_findings_produced results"
    "em_total_true_positives m = total er_true_positives results"
    "em_total_false_positives m = total er_false_positives results"
    "em_total_missed m = total er_missed results"
    "em_total_tokens_in m = sum_list (map er_tokens_in results)"
    "em_total_tokens_out m = sum_list (map er_tokens_out results)"
    "em_pr_count m = int (length results)"
  using assms unfolding compute_metrics_def Let_def by (auto split: list.split_asm)

text \<open>
  The JSON report agrees with itself: for the metrics of any results, every total of
  counts and tokens is the sum of its column over the per-PR entries, of which there is one for
  each result; and \<open>all_met\<close> holds exactly when all six targets are met.
\<close>

theorem report_totals_add_up:
  assumes "compute_metrics results = Inr m"
  shows "list_all (\<lambda>key. int_at (metrics_payload m results timestamp) [u ''totals'', key]
        = column_sum (metrics_payload m results timestamp) key) summed_keys
    \<and> int_at (metrics_payload m results timestamp) [u ''pr_count''] = Some (int (length results))
    \<and> json_at (metrics_payload m results timestamp) [u ''targets'', u ''all_met'']
      = Some (J_Bool (list_all (\<lambda>key. json_at (metrics_payload m results timestamp) [u ''targets'', key] = Some (J_Bool True))
          [u ''comments_per_pr_defects'', u ''accepted_finding_rate'', u ''fp_rate_verified'',
           u ''fp_rate_high_confidence'', u ''latency_p50'', u ''latency_p95'']))"
  using compute_metrics_totals [OF assms]
  by (simp add: summed_keys_def metrics_payload_def column_sum_def int_at_def pr_payload_def comp_def
      total_def all_targets_met_def)

theorem report_totals_add_up_witness:
  "\<exists>m. compute_metrics [sample_graph_result] = Inr m
     \<and> int_at (metrics_payload m [sample_graph_result] []) [u ''pr_count''] = Some 1"
proof -
  have "total er_true_positives [sample_graph_result] + total er_false_positives [sample_graph_result]
      = total er_findings_produced [sample_graph_result]" "list_all plain_latency [sample_graph_result]"
    by (simp_all add: total_def sample_graph_result_def plain_latency_def)
  from compute_metrics_in_bounds [OF this(1) _ _ this(2)] obtain m where m: "compute_metrics [sample_graph_result] = Inr m"
    by auto
  with report_totals_add_up [OF m, of "[]"] show ?thesis by simp
qed

end
