(* ===== verification/Mirror.thy ===== *)
theory Mirror
  imports Py_Path Py_Effects Codec
begin

text \<open>
  Bare git mirrors (\<^verbatim>\<open>kenjutsu/mirror/lifecycle.py\<close>, \<^verbatim>\<open>kenjutsu/mirror/api.py\<close>).  The file system is a
  tree of files with their sizes, without symbolic links; git is an operation on the host that
  may change anything.  \<open>subprocess.run\<close> gives the exit code and the decoded outputs.
\<close>

section \<open>The file system\<close>

datatype fs_node = File nat | Dir "(pystr \<times> fs_node) list"

fun node_at :: "fs_node \<Rightarrow> pystr list \<Rightarrow> fs_node option" where
  "node_at n [] = Some n"
| "node_at (Dir es) (c # cs) = (case map_of es c of Some n \<Rightarrow> node_at n cs | None \<Rightarrow> None)"
| "node_at (File k) (c # cs) = None"

fun modify_at :: "pystr list \<Rightarrow> (fs_node \<Rightarrow> fs_node) \<Rightarrow> fs_node \<Rightarrow> fs_node" where
  "modify_at [] f n = f n"
| "modify_at (c # cs) f (Dir es) = Dir (map (\<lambda>(k, n). (k, if k = c then modify_at cs f n else n)) es)"
| "modify_at (c # cs) f (File k) = File k"

fun drop_entry :: "pystr \<Rightarrow> fs_node \<Rightarrow> fs_node" where
  "drop_entry c (Dir es) = Dir (filter (\<lambda>(k, n). k \<noteq> c) es)"
| "drop_entry c (File k) = File k"

text \<open>The operating system's walk along a path, with dot-dot as the parent.\<close>

fun resolve :: "fs_node \<Rightarrow> pystr list \<Rightarrow> pystr list \<Rightarrow> pystr list option" where
  "resolve root acc [] = (if node_at root acc = None then None else Some acc)"
| "resolve root acc (c # cs) =
     (case node_at root acc of
        Some (Dir es) \<Rightarrow>
          if c = u ''..'' then resolve root (butlast acc) cs
          else if map_of es c = None then None
          else resolve root (acc @ [c]) cs
      | _ \<Rightarrow> None)"

record 'w mirror_host =
  mh_root :: fs_node
  mh_cwd :: "pystr list"
  mh_world :: 'w

definition path_node :: "'w mirror_host \<Rightarrow> py_path \<Rightarrow> pystr list option" where
  "path_node h p = resolve (mh_root h) (if pa_root p = [] then mh_cwd h else []) (pa_parts p)"

definition path_exists :: "py_path \<Rightarrow> ('w mirror_host, bool) proc" where
  "path_exists p = (\<lambda>h. (Inr (path_node h p \<noteq> None), h))"

text \<open>
  \<open>shutil.rmtree\<close>: a directory is removed with all below it.  It raises for a file; and when the
  path ends in dot-dot or has no component the directory is emptied before the removal raises.
\<close>

definition rmtree :: "py_path \<Rightarrow> ('w mirror_host, unit) proc" where
  "rmtree p = (\<lambda>h.
     case path_node h p of
       None \<Rightarrow> (Inl OtherError, h)
     | Some q \<Rightarrow>
         (case node_at (mh_root h) q of
            Some (Dir es) \<Rightarrow>
              if pa_parts p = [] \<or> last (pa_parts p) = u ''..'' \<or> q = []
              then (Inl OtherError, h\<lparr>mh_root := modify_at q (\<lambda>_. Dir []) (mh_root h)\<rparr>)
              else (Inr (), h\<lparr>mh_root := modify_at (butlast q) (drop_entry (last q)) (mh_root h)\<rparr>)
          | _ \<Rightarrow> (Inl OtherError, h)))"

text \<open>The sizes of the files below a directory; \<open>rglob\<close> finds nothing below a file.\<close>

fun tree_size :: "fs_node \<Rightarrow> nat" where
  "tree_size (File k) = k"
| "tree_size (Dir es) = sum_list (map (\<lambda>e. tree_size (snd e)) es)"

definition rglob_size :: "fs_node \<Rightarrow> nat" where
  "rglob_size n = (case n of File _ \<Rightarrow> 0 | Dir _ \<Rightarrow> tree_size n)"

section \<open>Lifecycle\<close>

record mirror_config =
  mc_storage_path :: py_path
  mc_large_repo_threshold_bytes :: int
  mc_blob_size_limit :: pystr

text \<open>The defaults, with \<open>KENJUTSU_MIRROR_PATH\<close> from the environment.\<close>

definition default_config :: "pystr option \<Rightarrow> mirror_config" where
  "default_config env = \<lparr>mc_storage_path = parse_path (case env of Some v \<Rightarrow> v | None \<Rightarrow> u ''/var/lib/kenjutsu/mirrors''),
     mc_large_repo_threshold_bytes = 1 * 1024 ^ 3, mc_blob_size_limit = u ''1m''\<rparr>"

definition mirror_path :: "mirror_config \<Rightarrow> pystr \<Rightarrow> py_path" where
  "mirror_path config repo_id = path_join (mc_storage_path config) repo_id"

record completed =
  cp_returncode :: int
  cp_stdout :: pystr
  cp_stderr :: pystr

type_synonym 'w git = "pystr list \<Rightarrow> py_path option \<Rightarrow> ('w mirror_host, completed) proc"

definition clone_command :: "pystr \<Rightarrow> py_path \<Rightarrow> mirror_config \<Rightarrow> int \<Rightarrow> pystr list" where
  "clone_command repo_url dest config repo_size_bytes =
     [u ''git'', u ''clone'', u ''--bare'']
     @ (if repo_size_bytes \<ge> mc_large_repo_threshold_bytes config
        then [u ''--filter=blob:limit='' @ mc_blob_size_limit config] else [])
     @ [repo_url, path_str dest]"

definition refspec_command :: "pystr list" where
  "refspec_command = [u ''git'', u ''config'', u ''remote.origin.fetch'', u ''+refs/*:refs/*'']"

definition clone_mirror :: "'w git \<Rightarrow> pystr \<Rightarrow> pystr \<Rightarrow> mirror_config \<Rightarrow> int \<Rightarrow> ('w mirror_host, py_path) proc" where
  "clone_mirror git repo_url repo_id config repo_size_bytes =
     (let dest = mirror_path config repo_id in
      seq (path_exists dest) (\<lambda>present.
        if present then raise MirrorAlreadyExistsError
        else seq (git (clone_command repo_url dest config repo_size_bytes) None) (\<lambda>result.
          if cp_returncode result \<noteq> 0 then raise (MirrorCloneError (cp_stderr result))
          else seq (git refspec_command (Some dest)) (\<lambda>cfg.
            if cp_returncode cfg \<noteq> 0
            then raise (MirrorCloneError (u ''Failed to configure fetch refspec: '' @ cp_stderr cfg))
            else return dest))))"

definition fetch_mirror :: "'w git \<Rightarrow> pystr \<Rightarrow> mirror_config \<Rightarrow> ('w mirror_host, unit) proc" where
  "fetch_mirror git repo_id config =
     (let dest = mirror_path config repo_id in
      seq (path_exists dest) (\<lambda>present.
        if \<not> present then raise MirrorNotFoundError
        else seq (git [u ''git'', u ''fetch'', u ''--prune''] (Some dest)) (\<lambda>result.
          if cp_returncode result \<noteq> 0 then raise (MirrorFetchError (cp_stderr result)) else return ())))"

definition delete_mirror :: "pystr \<Rightarrow> mirror_config \<Rightarrow> ('w mirror_host, unit) proc" where
  "delete_mirror repo_id config =
     (let dest = mirror_path config repo_id in
      seq (path_exists dest) (\<lambda>present. if present then rmtree dest else return ()))"

text \<open>The node at an existing path.\<close>

definition get_node :: "py_path \<Rightarrow> ('w mirror_host, fs_node) proc" where
  "get_node p = (\<lambda>h. (case path_node h p of
       None \<Rightarrow> Inl OtherError
     | Some q \<Rightarrow> (case node_at (mh_root h) q of Some n \<Rightarrow> Inr n | None \<Rightarrow> Inl OtherError), h))"

definition mirror_size_bytes :: "pystr \<Rightarrow> mirror_config \<Rightarrow> ('w mirror_host, nat) proc" where
  "mirror_size_bytes repo_id config =
     (let dest = mirror_path config repo_id in
      seq (path_exists dest) (\<lambda>present.
        if \<not> present then raise MirrorNotFoundError
        else seq (get_node dest) (\<lambda>n. return (rglob_size n))))"

fun is_dir :: "fs_node \<Rightarrow> bool" where
  "is_dir (Dir _) = True"
| "is_dir (File _) = False"

definition all_mirror_sizes :: "mirror_config \<Rightarrow> ('w mirror_host, (pystr \<times> nat) list) proc" where
  "all_mirror_sizes config =
     seq (path_exists (mc_storage_path config)) (\<lambda>present.
       if \<not> present then return []
       else seq (get_node (mc_storage_path config)) (\<lambda>n.
         case n of
           File _ \<Rightarrow> raise OtherError
         | Dir es \<Rightarrow> return (map (\<lambda>(name, e). (name, rglob_size e)) (filter (\<lambda>(name, e). is_dir e) es))))"

section \<open>Reading\<close>

record mirror_handle =
  ml_repo_id :: pystr
  ml_path :: py_path

record commit_info =
  ci_sha :: pystr
  ci_author :: pystr
  ci_date :: pystr
  ci_message :: pystr

definition get_mirror :: "pystr \<Rightarrow> mirror_config \<Rightarrow> ('w mirror_host, mirror_handle) proc" where
  "get_mirror repo_id config =
     (let path = mirror_path config repo_id in
      seq (path_exists path) (\<lambda>present.
        if \<not> present then raise MirrorNotFoundError
        else return \<lparr>ml_repo_id = repo_id, ml_path = path\<rparr>))"

text \<open>A reading command: its output, or \<open>MirrorReadError\<close>.\<close>

definition read_command :: "'w git \<Rightarrow> mirror_handle \<Rightarrow> pystr list \<Rightarrow> pystr \<Rightarrow> ('w mirror_host, pystr) proc" where
  "read_command git m cmd what =
     seq (git cmd (Some (ml_path m))) (\<lambda>result.
       if cp_returncode result \<noteq> 0 then raise (MirrorReadError (what @ strip (cp_stderr result)))
       else return (cp_stdout result))"

definition git_diff :: "'w git \<Rightarrow> mirror_handle \<Rightarrow> pystr \<Rightarrow> pystr \<Rightarrow> ('w mirror_host, pystr) proc" where
  "git_diff git m base_sha head_sha =
     read_command git m [u ''git'', u ''diff'', base_sha, head_sha] (u ''git diff failed: '')"

definition read_file :: "'w git \<Rightarrow> mirror_handle \<Rightarrow> pystr \<Rightarrow> pystr \<Rightarrow> ('w mirror_host, pystr) proc" where
  "read_file git m sha path =
     read_command git m [u ''git'', u ''show'', sha @ u '':'' @ path] (u ''git show failed: '')"

text \<open>\<open>line.split(c, n)\<close> makes at most \<open>n\<close> splits.\<close>

fun split_max :: "nat \<Rightarrow> pychar \<Rightarrow> pystr \<Rightarrow> pystr list" where
  "split_max 0 c s = [s]"
| "split_max (Suc n) c s =
     (let rest = dropWhile (\<lambda>d. d \<noteq> c) s
      in if rest = [] then [s] else takeWhile (\<lambda>d. d \<noteq> c) s # split_max n c (tl rest))"

definition parse_commit :: "pystr \<Rightarrow> commit_info result" where
  "parse_commit line = (case split_max 3 0 line of
       [sha, author, date, message] \<Rightarrow> Inr \<lparr>ci_sha = sha, ci_author = author, ci_date = date, ci_message = message\<rparr>
     | _ \<Rightarrow> Inl ValueError)"

definition parse_log :: "pystr \<Rightarrow> commit_info list result" where
  "parse_log stdout = map_result parse_commit (filter (\<lambda>l. strip l \<noteq> []) (splitlines (strip stdout)))"

definition log_command :: "pystr option \<Rightarrow> int \<Rightarrow> pystr list" where
  "log_command path n =
     [u ''git'', u ''log'', u ''--max-count='' @ int_str n, u ''--format=%H%x00%an%x00%ai%x00%s'']
     @ (case path of None \<Rightarrow> [] | Some p \<Rightarrow> [u ''--'', p])"

definition git_log :: "'w git \<Rightarrow> mirror_handle \<Rightarrow> pystr option \<Rightarrow> int \<Rightarrow> ('w mirror_host, commit_info list) proc" where
  "git_log git m path n =
     seq (read_command git m (log_command path n) (u ''git log failed: '')) (\<lambda>out. from_result (parse_log out))"

section \<open>The log is read back\<close>

text \<open>git prints one line for each commit.\<close>

definition log_line :: "commit_info \<Rightarrow> pystr" where
  "log_line c = ci_sha c @ 0 # ci_author c @ 0 # ci_date c @ 0 # ci_message c"

definition printable_commit :: "commit_info \<Rightarrow> bool" where
  "printable_commit c \<longleftrightarrow> ci_sha c \<noteq> [] \<and> \<not> py_isspace (hd (ci_sha c))
     \<and> (ci_message c = [] \<or> \<not> py_isspace (last (ci_message c)))
     \<and> 0 \<notin> set (ci_sha c) \<and> 0 \<notin> set (ci_author c) \<and> 0 \<notin> set (ci_date c)
     \<and> no_linebreak (ci_sha c) \<and> no_linebreak (ci_author c) \<and> no_linebreak (ci_date c) \<and> no_linebreak (ci_message c)"

lemma split_max_step:
  assumes "c \<notin> set w"
  shows "split_max (Suc n) c (w @ c # s) = w # split_max n c s"
proof -
  have w: "\<forall>d \<in> set w. d \<noteq> c" using assms by auto
  have "takeWhile (\<lambda>d. d \<noteq> c) (w @ c # s) = w" "dropWhile (\<lambda>d. d \<noteq> c) (w @ c # s) = c # s"
    using takeWhile_stop [OF w, of "c # s"] dropWhile_stop [OF w, of "c # s"] by simp_all
  then show ?thesis by (simp add: Let_def)
qed

lemma parse_log_line:
  assumes "printable_commit c"
  shows "parse_commit (log_line c) = Inr c"
proof -
  have c: "0 \<notin> set (ci_sha c)" "0 \<notin> set (ci_author c)" "0 \<notin> set (ci_date c)"
    using assms by (simp_all add: printable_commit_def)
  have "split_max (Suc (Suc (Suc 0))) 0 (log_line c) = [ci_sha c, ci_author c, ci_date c, ci_message c]"
    unfolding log_line_def
    by (simp only: split_max_step [OF c(1)] split_max_step [OF c(2)] split_max_step [OF c(3)] split_max.simps(1))
  then show ?thesis by (simp add: parse_commit_def numeral_3_eq_3)
qed

interpretation log_codec: codec printable_commit log_line parse_commit
  by unfold_locales (rule parse_log_line)

lemma splitlines_last: "no_linebreak l \<Longrightarrow> l \<noteq> [] \<Longrightarrow> splitlines l = [l]"
proof (induction l)
  case (Cons c l)
  have "c \<noteq> 13" using Cons.prems linebreak_return by auto
  with Cons show ?case by (cases "l = []") auto
qed simp

lemma splitlines_lines: "\<forall>l \<in> set ls. no_linebreak l \<Longrightarrow> splitlines (unlines ls @ s) = ls @ splitlines s"
  by (induction ls) (simp_all add: splitlines_line)

lemma log_line_ends:
  assumes "printable_commit c"
  shows "log_line c \<noteq> []" "\<not> py_isspace (hd (log_line c))" "\<not> py_isspace (last (log_line c))"
    and "no_linebreak (log_line c)" "strip (log_line c) \<noteq> []"
proof -
  show ne: "log_line c \<noteq> []" by (simp add: log_line_def)
  show hd: "\<not> py_isspace (hd (log_line c))"
    using assms by (cases "ci_sha c") (auto simp: printable_commit_def log_line_def)
  have "\<not> py_isspace 0" by (simp add: py_isspace_def)
  then show last: "\<not> py_isspace (last (log_line c))"
    using assms by (auto simp: printable_commit_def log_line_def)
  show "no_linebreak (log_line c)"
    using assms \<open>\<not> py_isspace 0\<close> linebreak_isspace [of 0] by (auto simp: printable_commit_def log_line_def)
  have "strip (log_line c) = log_line c" using hd last by (intro strip_id) simp
  with ne show "strip (log_line c) \<noteq> []" by simp
qed

lemma strip_newline: "strip (s @ [10]) = strip s" if "s \<noteq> []" "\<not> py_isspace (hd s)"
proof -
  have "lstrip (s @ [10]) = lstrip s @ [10]" using that by (cases s) (simp_all add: lstrip_def)
  moreover have "py_isspace 10" by (simp add: py_isspace_def)
  ultimately show ?thesis by (simp add: strip_def)
qed

text \<open>
  Claim C32.  The commits that git prints are read back exactly, in order, whatever their number,
  provided no field contains a line boundary of \<open>str.splitlines\<close>.
\<close>

theorem git_log_roundtrip:
  assumes "list_all printable_commit commits"
  shows "parse_log (unlines (map log_line commits)) = Inr commits"
proof (cases commits rule: rev_cases)
  case Nil
  then show ?thesis by (simp add: parse_log_def)
next
  case (snoc cs c)
  let ?ls = "map log_line cs" and ?l = "log_line c"
  have all: "list_all printable_commit cs" and c: "printable_commit c" using assms snoc by simp_all
  note c_ends = log_line_ends [OF c]
  let ?s = "unlines ?ls @ ?l"
  have no: "\<forall>l \<in> set ?ls. no_linebreak l" using all log_line_ends(4) by (auto simp: list_all_iff)
  have ends: "?s \<noteq> []" "\<not> py_isspace (hd ?s)" "\<not> py_isspace (last ?s)"
  proof -
    show "?s \<noteq> []" "\<not> py_isspace (last ?s)" using c_ends by auto
    show "\<not> py_isspace (hd ?s)"
    proof (cases cs)
      case (Cons d ds)
      with all have "log_line d \<noteq> []" "\<not> py_isspace (hd (log_line d))" using log_line_ends by auto
      with Cons show ?thesis by simp
    qed (use c_ends in simp)
  qed
  have "unlines (map log_line commits) = ?s @ [10]" by (simp add: snoc)
  then have "strip (unlines (map log_line commits)) = ?s"
    using strip_newline [OF ends(1,2)] strip_id [of ?s] ends by simp
  moreover have "splitlines ?s = map log_line commits"
    using splitlines_lines [OF no, of ?l] splitlines_last [OF c_ends(4,1)] snoc by simp
  moreover have "filter (\<lambda>l. strip l \<noteq> []) (map log_line commits) = map log_line commits"
    using assms log_line_ends(5) by (auto simp: filter_id_conv list_all_iff)
  moreover have "map_result parse_commit (map log_line commits) = Inr commits"
    using assms by (rule log_codec.map_parse)
  ultimately show ?thesis by (simp add: parse_log_def)
qed

theorem git_log_roundtrip_witness:
  "parse_log (unlines [log_line \<lparr>ci_sha = u ''1f'', ci_author = u ''A B'', ci_date = u ''2026'', ci_message = u ''fix it''\<rparr>])
     = Inr [\<lparr>ci_sha = u ''1f'', ci_author = u ''A B'', ci_date = u ''2026'', ci_message = u ''fix it''\<rparr>]"
  using git_log_roundtrip [of "[\<lparr>ci_sha = u ''1f'', ci_author = u ''A B'', ci_date = u ''2026'', ci_message = u ''fix it''\<rparr>]"]
  by (simp add: printable_commit_def py_isspace_def py_linebreak_def)

text \<open>A Unicode line separator in a subject, which git prints as it is, makes the reading raise.\<close>

lemma line_separator_in_subject_raises:
  "parse_log (u ''1f'' @ 0 # u ''A'' @ 0 # u ''2026'' @ 0 # u ''fix'' @ 0x2028 # u ''it'' @ [10]) = Inl ValueError"
  by (simp add: parse_log_def strip_def lstrip_def py_isspace_def py_linebreak_def parse_commit_def numeral_3_eq_3 rstrip_def)

section \<open>Deleting a mirror\<close>

text \<open>What a path denotes: nothing, a directory, or a file of some size.\<close>

definition kind_at :: "fs_node \<Rightarrow> pystr list \<Rightarrow> nat option option" where
  "kind_at root p = (case node_at root p of None \<Rightarrow> None | Some (Dir _) \<Rightarrow> Some None | Some (File k) \<Rightarrow> Some (Some k))"

lemma map_of_map_if: "map_of (map (\<lambda>(k, n). (k, if k = c then f n else n)) es) x
    = (case map_of es x of None \<Rightarrow> None | Some n \<Rightarrow> Some (if x = c then f n else n))"
  by (induction es) auto

lemma map_of_filter_neq: "map_of (filter (\<lambda>(k, n). k \<noteq> c) es) x = (if x = c then None else map_of es x)"
  by (induction es) auto

lemma kind_drop:
  "node_at root q = Some (Dir es) \<Longrightarrow>
     kind_at (modify_at q (drop_entry r) root) p = (if prefix (q @ [r]) p then None else kind_at root p)"
proof (induction q arbitrary: root p)
  case Nil
  then show ?case
    by (cases p) (auto simp: kind_at_def map_of_filter_neq)
next
  case (Cons c q)
  then obtain fs n where root: "root = Dir fs" "map_of fs c = Some n" "node_at n q = Some (Dir es)"
    by (cases root) (auto split: option.split_asm)
  show ?case
  proof (cases p)
    case (Cons x xs)
    show ?thesis
    proof (cases "x = c")
      case True
      with root Cons.IH [OF root(3), of xs] \<open>p = x # xs\<close> show ?thesis
        by (simp add: kind_at_def map_of_map_if)
    next
      case False
      with root \<open>p = x # xs\<close> show ?thesis
        by (simp add: kind_at_def map_of_map_if split: option.split)
    qed
  qed (simp add: root kind_at_def)
qed

text \<open>The walk along a path only checks the tree: where it ends is determined by the path.\<close>

lemma node_at_append: "node_at n (p @ r) = (case node_at n p of None \<Rightarrow> None | Some m \<Rightarrow> node_at m r)"
  by (induction n p rule: node_at.induct) (auto split: option.split)

lemma resolve_last_plain:
  assumes "r \<noteq> u ''..''"
  shows "resolve root acc (cs @ [r])
    = (case resolve root acc cs of None \<Rightarrow> None | Some q \<Rightarrow> if node_at root (q @ [r]) = None then None else Some (q @ [r]))"
proof (induction cs arbitrary: acc)
  case Nil
  then show ?case using assms by (auto simp: node_at_append split: option.split fs_node.split)
next
  case (Cons c cs)
  then show ?case by (simp split: option.split fs_node.split)
qed

lemma resolve_determined: "resolve root acc cs = Some q \<Longrightarrow> resolve root' acc cs = None \<or> resolve root' acc cs = Some q"
proof (induction cs arbitrary: acc)
  case Nil
  then show ?case by (simp split: if_splits)
next
  case (Cons c cs)
  show ?case
    by (cases "c = u ''..''")
      (use Cons.prems in \<open>auto split: option.split_asm option.split fs_node.split_asm fs_node.split if_splits dest!: Cons.IH\<close>)
qed

lemma resolve_exists: "resolve root acc cs = Some q \<Longrightarrow> node_at root q \<noteq> None"
proof (induction cs arbitrary: acc)
  case Nil
  then show ?case by (auto split: if_splits)
next
  case (Cons c cs)
  then show ?case by (auto split: option.split_asm fs_node.split_asm if_splits)
qed

lemma path_node_determined:
  "path_node h p = Some q \<Longrightarrow> mh_cwd h' = mh_cwd h \<Longrightarrow> path_node h' p = None \<or> path_node h' p = Some q"
  unfolding path_node_def by (auto dest: resolve_determined split: if_splits)

lemma path_node_mirror:
  assumes "plain_name repo_id"
  shows "path_node h (mirror_path config repo_id)
    = (case path_node h (mc_storage_path config) of None \<Rightarrow> None
       | Some q \<Rightarrow> if node_at (mh_root h) (q @ [repo_id]) = None then None else Some (q @ [repo_id]))"
  using assms by (simp add: mirror_path_def path_node_def path_join_plain resolve_last_plain plain_name_def)

text \<open>What deleting a plainly named mirror does to the host.\<close>

lemma delete_mirror_plain:
  assumes name: "plain_name repo_id"
    and storage: "path_node h (mc_storage_path config) = Some q" "node_at (mh_root h) q = Some (Dir es)"
    and no_file: "\<forall>k. map_of es repo_id \<noteq> Some (File k)"
  shows "delete_mirror repo_id config h = (Inr (), if map_of es repo_id = None then h
      else h\<lparr>mh_root := modify_at q (drop_entry repo_id) (mh_root h)\<rparr>)"
proof -
  have at: "node_at (mh_root h) (q @ [repo_id]) = map_of es repo_id"
    by (simp add: node_at_append storage split: option.split)
  note node = path_node_mirror [OF name, of h config, unfolded storage(1) option.case at]
  have parts: "pa_parts (mirror_path config repo_id) = pa_parts (mc_storage_path config) @ [repo_id]"
    by (simp add: mirror_path_def path_join_plain name)
  have "repo_id \<noteq> u ''..''" using name by (simp add: plain_name_def)
  then show ?thesis
    using no_file node at parts
    by (cases "map_of es repo_id"; cases "the (map_of es repo_id)")
      (simp_all add: delete_mirror_def Let_def seq_def path_exists_def return_def rmtree_def)
qed

lemma delete_mirror_twice:
  assumes "plain_name repo_id" "path_node h (mc_storage_path config) = Some q" "node_at (mh_root h) q = Some (Dir es)"
  shows "delete_mirror repo_id config (h\<lparr>mh_root := modify_at q (drop_entry repo_id) (mh_root h)\<rparr>)
    = (Inr (), h\<lparr>mh_root := modify_at q (drop_entry repo_id) (mh_root h)\<rparr>)"
proof -
  let ?h = "h\<lparr>mh_root := modify_at q (drop_entry repo_id) (mh_root h)\<rparr>"
  have "kind_at (mh_root ?h) (q @ [repo_id]) = None" by (simp add: kind_drop [OF assms(3)])
  then have "node_at (mh_root ?h) (q @ [repo_id]) = None" by (simp add: kind_at_def split: option.splits fs_node.splits)
  moreover have "path_node ?h (mc_storage_path config) = None \<or> path_node ?h (mc_storage_path config) = Some q"
    by (rule path_node_determined [OF assms(2)]) simp
  ultimately have "path_node ?h (mirror_path config repo_id) = None"
    by (auto simp: path_node_mirror [OF assms(1)])
  then show ?thesis by (simp add: delete_mirror_def Let_def seq_def path_exists_def return_def)
qed

text \<open>
  Claim C33.  Deleting a mirror whose id is a plain name succeeds, removes exactly the paths at and
  below the mirror, leaves every other path as it was, and may be repeated without effect.
\<close>

theorem delete_mirror_exact:
  assumes "plain_name repo_id"
    and "path_node h (mc_storage_path config) = Some q" "node_at (mh_root h) q = Some (Dir es)"
    and "\<forall>k. map_of es repo_id \<noteq> Some (File k)"
  shows "case delete_mirror repo_id config h of (r, h') \<Rightarrow>
     r = Inr ()
     \<and> (\<forall>p. kind_at (mh_root h') p = (if prefix (q @ [repo_id]) p then None else kind_at (mh_root h) p))
     \<and> mh_cwd h' = mh_cwd h \<and> mh_world h' = mh_world h
     \<and> delete_mirror repo_id config h' = (Inr (), h')"
proof (cases "map_of es repo_id = None")
  case True
  then have "\<forall>p. prefix (q @ [repo_id]) p \<longrightarrow> kind_at (mh_root h) p = None"
    using assms(3) by (auto simp: kind_at_def node_at_append prefix_def split: option.split)
  with True show ?thesis using delete_mirror_plain [OF assms] by simp
next
  case False
  then have "delete_mirror repo_id config h = (Inr (), h\<lparr>mh_root := modify_at q (drop_entry repo_id) (mh_root h)\<rparr>)"
    by (simp only: delete_mirror_plain [OF assms] if_False)
  then show ?thesis
    by (simp add: kind_drop [OF assms(3)] delete_mirror_twice [OF assms(1,2,3)])
qed

definition sample_host :: "nat mirror_host" where
  "sample_host = \<lparr>mh_root = Dir [(u ''srv'', Dir [(u ''a'', Dir [(u ''HEAD'', File 23), (u ''refs'', Dir [])]), (u ''b'', Dir [])])],
     mh_cwd = [], mh_world = 0\<rparr>"

definition sample_config :: mirror_config where
  "sample_config = default_config (Some (u ''/srv''))"

lemma sample_storage: "mc_storage_path sample_config = \<lparr>pa_root = u ''/'', pa_parts = [u ''srv'']\<rparr>"
  by (simp add: sample_config_def default_config_def parse_path_def path_root_def path_parts_def)

lemmas sample_host_simps = sample_host_def sample_storage path_node_def plain_name_def

theorem delete_mirror_exact_witness:
  "case delete_mirror (u ''a'') sample_config sample_host of (r, h') \<Rightarrow>
     r = Inr () \<and> kind_at (mh_root h') [u ''srv'', u ''a'', u ''HEAD''] = None
     \<and> kind_at (mh_root h') [u ''srv'', u ''b''] = Some None"
  using delete_mirror_exact [of "u ''a''" sample_host sample_config "[u ''srv'']"
      "[(u ''a'', Dir [(u ''HEAD'', File 23), (u ''refs'', Dir [])]), (u ''b'', Dir [])]"]
  by (auto simp: sample_host_simps kind_at_def split: prod.split)

text \<open>The empty id names the storage directory, which is deleted with every mirror in it.\<close>

lemma empty_id_deletes_all_mirrors:
  "delete_mirror [] sample_config sample_host = (Inr (), sample_host\<lparr>mh_root := Dir []\<rparr>)"
  by (simp add: delete_mirror_def mirror_path_def path_join_def parse_path_def path_parts_def path_root_def
      sample_host_simps seq_def path_exists_def rmtree_def Let_def)

text \<open>A clone whose refspec cannot be configured is left behind, and every further clone is refused.\<close>

lemma failed_refspec_leaves_clone:
  assumes "path_node h (mirror_path config repo_id) = None"
    and "git (clone_command repo_url (mirror_path config repo_id) config bytes) None h = (Inr r, h1)" "cp_returncode r = 0"
    and "git refspec_command (Some (mirror_path config repo_id)) h1 = (Inr c, h2)" "cp_returncode c \<noteq> 0"
    and "path_node h2 (mirror_path config repo_id) \<noteq> None"
  shows "\<exists>e. clone_mirror git repo_url repo_id config bytes h = (Inl (MirrorCloneError e), h2)"
    and "clone_mirror git repo_url repo_id config bytes h2 = (Inl MirrorAlreadyExistsError, h2)"
  using assms by (auto simp: clone_mirror_def Let_def seq_def path_exists_def raise_def)

text \<open>The sizes of all mirrors are the sizes of the mirrors.\<close>

lemma all_mirror_sizes_agree:
  assumes "path_node h (mc_storage_path config) = Some q" "node_at (mh_root h) q = Some (Dir es)" "distinct (map fst es)"
    and "all_mirror_sizes config h = (Inr sizes, h')" "(repo_id, k) \<in> set sizes" "plain_name repo_id"
  shows "mirror_size_bytes repo_id config h = (Inr k, h) \<and> h' = h"
proof -
  have all: "sizes = map (\<lambda>(name, e). (name, rglob_size e)) (filter (\<lambda>(name, e). is_dir e) es)" "h' = h"
    using assms(1,2,4) by (simp_all add: all_mirror_sizes_def seq_def path_exists_def get_node_def return_def)
  then obtain e where e: "(repo_id, e) \<in> set es" "k = rglob_size e"
    using assms(5) by auto
  then have "map_of es repo_id = Some e" using assms(3) by simp
  then have "node_at (mh_root h) (q @ [repo_id]) = Some e"
    by (simp add: node_at_append assms(2))
  then show ?thesis
    using path_node_mirror [OF assms(6), of h config] assms(1) e all
    by (simp add: mirror_size_bytes_def Let_def seq_def path_exists_def get_node_def return_def)
qed

end
