(* ===== verification/Mirror_Fetch.thy ===== *)
theory Mirror_Fetch
  imports Kenjutsu_Prelude
begin

text \<open>
  Concurrent fetches (\<^verbatim>\<open>MirrorHandle.fetch\<close> and \<^verbatim>\<open>_repo_fetch_lock\<close> of \<^verbatim>\<open>kenjutsu/mirror/api.py\<close>).
  Threads interleave between any two accesses to the shared state: the guard, the table of locks
  and the locks.  Every fetch is assumed to return or to raise; \<open>with lock\<close> releases in both cases.
\<close>

section \<open>The threads\<close>

datatype 'r fetch_pc =
    Idle
  | Entering 'r       \<comment> \<open>waits for the guard\<close>
  | Testing 'r        \<comment> \<open>holds the guard, before the test\<close>
  | Creating 'r       \<comment> \<open>holds the guard, no lock in the table\<close>
  | Returning 'r      \<comment> \<open>holds the guard, a lock in the table\<close>
  | Waiting 'r nat    \<comment> \<open>waits for the lock of the repository\<close>
  | Fetching 'r nat   \<comment> \<open>holds the lock and runs git\<close>

record 'r fetch_state =
  fl_guard :: "nat option"
  fl_map :: "'r \<rightharpoonup> nat"
  fl_next_lock :: nat
  fl_holder :: "nat \<rightharpoonup> nat"
  fl_pc :: "nat \<Rightarrow> 'r fetch_pc"
  fl_fetched :: "'r list"

definition new_fetch_state :: "'r fetch_state" where
  "new_fetch_state = \<lparr>fl_guard = None, fl_map = Map.empty, fl_next_lock = 0, fl_holder = Map.empty,
     fl_pc = (\<lambda>_. Idle), fl_fetched = []\<rparr>"

definition goto :: "nat \<Rightarrow> 'r fetch_pc \<Rightarrow> 'r fetch_state \<Rightarrow> 'r fetch_state" where
  "goto t c s = s\<lparr>fl_pc := (fl_pc s)(t := c)\<rparr>"

text \<open>The steps of \<^verbatim>\<open>_repo_fetch_lock\<close>, of the acquisition and of the release.\<close>

inductive fetch_step :: "nat \<Rightarrow> 'r fetch_state \<Rightarrow> 'r fetch_state \<Rightarrow> bool" where
  step_guard: "fl_pc s t = Entering r \<Longrightarrow> fl_guard s = None
    \<Longrightarrow> fetch_step t s (goto t (Testing r) (s\<lparr>fl_guard := Some t\<rparr>))"
| step_test: "fl_pc s t = Testing r
    \<Longrightarrow> fetch_step t s (goto t (if fl_map s r = None then Creating r else Returning r) s)"
| step_create: "fl_pc s t = Creating r
    \<Longrightarrow> fetch_step t s (goto t (Returning r)
          (s\<lparr>fl_map := (fl_map s)(r \<mapsto> fl_next_lock s), fl_next_lock := Suc (fl_next_lock s)\<rparr>))"
| step_return: "fl_pc s t = Returning r \<Longrightarrow> fl_map s r = Some l
    \<Longrightarrow> fetch_step t s (goto t (Waiting r l) (s\<lparr>fl_guard := None\<rparr>))"
| step_acquire: "fl_pc s t = Waiting r l \<Longrightarrow> fl_holder s l = None
    \<Longrightarrow> fetch_step t s (goto t (Fetching r l) (s\<lparr>fl_holder := (fl_holder s)(l \<mapsto> t)\<rparr>))"
| step_finish: "fl_pc s t = Fetching r l
    \<Longrightarrow> fetch_step t s (goto t Idle (s\<lparr>fl_holder := (fl_holder s)(l := None), fl_fetched := fl_fetched s @ [r]\<rparr>))"

text \<open>Any idle thread may call \<open>fetch\<close> for any repository.\<close>

inductive fetch_reachable :: "'r fetch_state \<Rightarrow> bool" where
  reach_new: "fetch_reachable new_fetch_state"
| reach_call: "fetch_reachable s \<Longrightarrow> fl_pc s t = Idle \<Longrightarrow> fetch_reachable (goto t (Entering r) s)"
| reach_step: "fetch_reachable s \<Longrightarrow> fetch_step t s s' \<Longrightarrow> fetch_reachable s'"

lemma goto_sel [simp]:
  "fl_pc (goto t c s) = (fl_pc s)(t := c)" "fl_guard (goto t c s) = fl_guard s" "fl_map (goto t c s) = fl_map s"
  "fl_next_lock (goto t c s) = fl_next_lock s" "fl_holder (goto t c s) = fl_holder s" "fl_fetched (goto t c s) = fl_fetched s"
  by (simp_all add: goto_def)

section \<open>The invariant\<close>

fun in_guard :: "'r fetch_pc \<Rightarrow> bool" where
  "in_guard (Testing r) = True"
| "in_guard (Creating r) = True"
| "in_guard (Returning r) = True"
| "in_guard _ = False"

definition guard_inv :: "'r fetch_state \<Rightarrow> bool" where
  "guard_inv s \<longleftrightarrow> (\<forall>t. in_guard (fl_pc s t) \<longleftrightarrow> fl_guard s = Some t)
     \<and> (\<forall>t r. fl_pc s t = Creating r \<longrightarrow> fl_map s r = None)
     \<and> (\<forall>t r. fl_pc s t = Returning r \<longrightarrow> fl_map s r \<noteq> None)"

definition table_inv :: "'r fetch_state \<Rightarrow> bool" where
  "table_inv s \<longleftrightarrow> (\<forall>r l. fl_map s r = Some l \<longrightarrow> l < fl_next_lock s)
     \<and> (\<forall>r r' l. fl_map s r = Some l \<and> fl_map s r' = Some l \<longrightarrow> r = r')"

definition lock_inv :: "'r fetch_state \<Rightarrow> bool" where
  "lock_inv s \<longleftrightarrow> (\<forall>t r l. fl_pc s t = Waiting r l \<or> fl_pc s t = Fetching r l \<longrightarrow> fl_map s r = Some l)
     \<and> (\<forall>t l. fl_holder s l = Some t \<longleftrightarrow> (\<exists>r. fl_pc s t = Fetching r l))"

lemma guard_invD:
  assumes "guard_inv s"
  shows "in_guard (fl_pc s t) \<longleftrightarrow> fl_guard s = Some t"
    and "fl_pc s t = Creating r \<Longrightarrow> fl_map s r = None"
    and "fl_pc s t = Returning r \<Longrightarrow> \<exists>l. fl_map s r = Some l"
  using assms by (simp_all add: guard_inv_def)

lemma guard_inv_step: "fetch_step t s s' \<Longrightarrow> guard_inv s \<Longrightarrow> guard_inv s'"
proof (induction rule: fetch_step.induct)
  case (step_create s t r)
  then have "in_guard (fl_pc s t)" by simp
  then have g: "fl_guard s = Some t" using guard_invD(1) [OF step_create.prems] by blast
  then have "\<forall>v. v \<noteq> t \<longrightarrow> \<not> in_guard (fl_pc s v)" by (simp add: guard_invD(1) [OF step_create.prems])
  then have "\<forall>v r'. v \<noteq> t \<longrightarrow> fl_pc s v \<noteq> Creating r'" by (metis in_guard.simps(2))
  with g step_create show ?case by (simp add: guard_inv_def)
next
  case (step_test s t r)
  then have "in_guard (fl_pc s t)" by simp
  with step_test.prems show ?case by (auto simp: guard_inv_def)
next
  case (step_return s t r l)
  then have "in_guard (fl_pc s t)" by simp
  with step_return.prems show ?case by (auto simp: guard_inv_def)
next
  case (step_acquire s t r l)
  then have "\<not> in_guard (fl_pc s t)" by simp
  with step_acquire.prems show ?case by (auto simp: guard_inv_def)
next
  case (step_finish s t r l)
  then have "\<not> in_guard (fl_pc s t)" by simp
  with step_finish.prems show ?case by (auto simp: guard_inv_def)
qed (auto simp: guard_inv_def)

lemma table_inv_step: "fetch_step t s s' \<Longrightarrow> table_inv s \<Longrightarrow> table_inv s'"
  by (induction rule: fetch_step.induct) (auto simp: table_inv_def less_Suc_eq)

lemma lock_inv_step: "fetch_step t s s' \<Longrightarrow> guard_inv s \<Longrightarrow> lock_inv s \<Longrightarrow> lock_inv s'"
proof (induction rule: fetch_step.induct)
  case (step_create s t r)
  then have "fl_map s r = None" by (simp add: guard_inv_def)
  with step_create show ?case by (auto simp: lock_inv_def)
next
  case (step_finish s t r l)
  then have "\<forall>u r'. fl_pc s u = Fetching r' l \<longrightarrow> u = t"
    unfolding lock_inv_def by (metis option.inject)
  with step_finish show ?case by (auto simp: lock_inv_def)
next
  case (step_acquire s t r l)
  then have "\<forall>v r'. fl_pc s v \<noteq> Fetching r' l" by (metis lock_inv_def option.distinct(1))
  with step_acquire show ?case by (auto simp: lock_inv_def)
qed (auto simp: lock_inv_def)

lemma fetch_reachable_inv: "fetch_reachable s \<Longrightarrow> guard_inv s \<and> table_inv s \<and> lock_inv s"
proof (induction rule: fetch_reachable.induct)
  case reach_new
  then show ?case by (simp add: new_fetch_state_def guard_inv_def table_inv_def lock_inv_def)
next
  case (reach_call s t r)
  then have "\<not> in_guard (fl_pc s t)" by simp
  then have "fl_guard s \<noteq> Some t" using guard_invD(1) reach_call.IH by blast
  with reach_call show ?case by (auto simp: guard_inv_def table_inv_def lock_inv_def)
next
  case (reach_step s t s')
  then show ?case using guard_inv_step table_inv_step lock_inv_step by blast
qed

section \<open>Runs can be computed\<close>

text \<open>The next step of a thread: it is determined, or the thread is idle or blocked.\<close>

definition advance :: "nat \<Rightarrow> 'r fetch_state \<Rightarrow> 'r fetch_state option" where
  "advance t s = (case fl_pc s t of
     Idle \<Rightarrow> None
   | Entering r \<Rightarrow> if fl_guard s = None then Some (goto t (Testing r) (s\<lparr>fl_guard := Some t\<rparr>)) else None
   | Testing r \<Rightarrow> Some (goto t (if fl_map s r = None then Creating r else Returning r) s)
   | Creating r \<Rightarrow> Some (goto t (Returning r)
       (s\<lparr>fl_map := (fl_map s)(r \<mapsto> fl_next_lock s), fl_next_lock := Suc (fl_next_lock s)\<rparr>))
   | Returning r \<Rightarrow> (case fl_map s r of None \<Rightarrow> None | Some l \<Rightarrow> Some (goto t (Waiting r l) (s\<lparr>fl_guard := None\<rparr>)))
   | Waiting r l \<Rightarrow> if fl_holder s l = None then Some (goto t (Fetching r l) (s\<lparr>fl_holder := (fl_holder s)(l \<mapsto> t)\<rparr>)) else None
   | Fetching r l \<Rightarrow> Some (goto t Idle (s\<lparr>fl_holder := (fl_holder s)(l := None), fl_fetched := fl_fetched s @ [r]\<rparr>)))"

lemma advance_step: "advance t s = Some s' \<longleftrightarrow> fetch_step t s s'"
proof
  assume "advance t s = Some s'"
  then show "fetch_step t s s'"
    using step_test [of s t]
    by (auto simp: advance_def split: fetch_pc.split_asm if_split_asm option.split_asm
        intro: fetch_step.intros)
next
  assume "fetch_step t s s'"
  then show "advance t s = Some s'"
    by (induction rule: fetch_step.induct) (auto simp: advance_def)
qed

section \<open>Mutual exclusion and independence\<close>

definition free_lock :: "'r \<Rightarrow> 'r fetch_state \<Rightarrow> bool" where
  "free_lock r s \<longleftrightarrow> (\<forall>u l. fl_pc s u \<noteq> Fetching r l)"

lemma one_fetch_per_repo:
  assumes "fetch_reachable s" "fl_pc s t = Fetching r l" "fl_pc s v = Fetching r k"
  shows "t = v"
proof -
  have inv: "lock_inv s" using fetch_reachable_inv [OF assms(1)] by simp
  then have "l = k" using assms(2,3) unfolding lock_inv_def by (metis option.inject)
  with inv assms(2,3) show ?thesis unfolding lock_inv_def by (metis option.inject)
qed

lemma waiting_enabled:
  assumes "fetch_reachable s" "fl_pc s t = Waiting r l" "free_lock r s"
  shows "fl_holder s l = None"
proof (cases "fl_holder s l")
  case (Some v)
  have inv: "lock_inv s" "table_inv s" using fetch_reachable_inv [OF assms(1)] by simp_all
  then obtain r' where r': "fl_pc s v = Fetching r' l" using Some by (auto simp: lock_inv_def)
  then have "fl_map s r' = Some l" "fl_map s r = Some l" using inv(1) assms(2) by (auto simp: lock_inv_def)
  then have "r' = r" using inv(2) unfolding table_inv_def by blast
  with r' assms(3) show ?thesis by (simp add: free_lock_def)
qed simp

text \<open>
  Claim C34.  However the threads interleave, at most one fetch per repository runs at a time, and a
  thread that waits for a repository which nobody fetches can go on at once: fetches of other
  repositories never hold it up.
\<close>

theorem fetches_serialized:
  assumes "fetch_reachable s"
  shows "(fl_pc s t = Fetching r l \<and> fl_pc s v = Fetching r k \<longrightarrow> t = v)
    \<and> (fl_pc s t = Waiting r l \<and> free_lock r s \<longrightarrow> (\<exists>s'. fetch_step t s s' \<and> fl_pc s' t = Fetching r l))"
proof (intro conjI impI)
  show "fl_pc s t = Fetching r l \<and> fl_pc s v = Fetching r k \<Longrightarrow> t = v"
    using one_fetch_per_repo [OF assms] by blast
next
  assume "fl_pc s t = Waiting r l \<and> free_lock r s"
  then show "\<exists>s'. fetch_step t s s' \<and> fl_pc s' t = Fetching r l"
    using step_acquire [of s t r l] waiting_enabled [OF assms] by fastforce
qed

section \<open>Every call ends\<close>

fun steps_left :: "'r fetch_pc \<Rightarrow> nat" where
  "steps_left Idle = 0"
| "steps_left (Fetching r l) = 1"
| "steps_left (Waiting r l) = 2"
| "steps_left (Returning r) = 3"
| "steps_left (Creating r) = 4"
| "steps_left (Testing r) = 5"
| "steps_left (Entering r) = 6"

definition busy :: "'r fetch_state \<Rightarrow> nat set" where
  "busy s = {t. fl_pc s t \<noteq> Idle}"

definition work_left :: "'r fetch_state \<Rightarrow> nat" where
  "work_left s = (\<Sum>t\<in>busy s. steps_left (fl_pc s t))"

lemma steps_left_0 [simp]: "steps_left c = 0 \<longleftrightarrow> c = Idle"
  by (cases c) auto

inductive fetch_steps :: "nat \<Rightarrow> 'r fetch_state \<Rightarrow> 'r fetch_state \<Rightarrow> bool" where
  steps_none: "fetch_steps 0 s s"
| steps_more: "fetch_steps n s s' \<Longrightarrow> fetch_step t s' s'' \<Longrightarrow> fetch_steps (Suc n) s s''"

lemma step_moves:
  assumes "fetch_step t s s'"
  shows "\<forall>v. v \<noteq> t \<longrightarrow> fl_pc s' v = fl_pc s v" "steps_left (fl_pc s' t) < steps_left (fl_pc s t)"
  using assms by (induction rule: fetch_step.induct) auto

lemma busy_step:
  assumes "fetch_step t s s'"
  shows "busy s' \<subseteq> busy s"
proof
  fix v assume v: "v \<in> busy s'"
  note m = step_moves [OF assms]
  show "v \<in> busy s"
  proof (cases "v = t")
    case True
    have "fl_pc s t \<noteq> Idle" using m(2) by auto
    with True show ?thesis by (simp add: busy_def)
  next
    case False
    with v m(1) show ?thesis by (simp add: busy_def)
  qed
qed

lemma work_left_sum: "finite A \<Longrightarrow> busy s \<subseteq> A \<Longrightarrow> work_left s = (\<Sum>t\<in>A. steps_left (fl_pc s t))"
  unfolding work_left_def by (rule sum.mono_neutral_left) (auto simp: busy_def)

lemma work_decreases:
  assumes "fetch_step t s s'" "finite (busy s)"
  shows "work_left s' < work_left s"
proof -
  note m = step_moves [OF assms(1)]
  have t: "t \<in> busy s" using m(2) by (auto simp: busy_def)
  have le: "\<forall>v. steps_left (fl_pc s' v) \<le> steps_left (fl_pc s v)"
  proof
    fix v show "steps_left (fl_pc s' v) \<le> steps_left (fl_pc s v)"
      using m by (cases "v = t") simp_all
  qed
  have "(\<Sum>v\<in>busy s. steps_left (fl_pc s' v)) < (\<Sum>v\<in>busy s. steps_left (fl_pc s v))"
    by (rule sum_strict_mono_ex1 [OF assms(2)]) (use le t m(2) in blast)+
  then show ?thesis
    using work_left_sum [OF assms(2) busy_step [OF assms(1)]] work_left_sum [OF assms(2) order.refl] by simp
qed

lemma finite_busy: "fetch_reachable s \<Longrightarrow> finite (busy s)"
proof (induction rule: fetch_reachable.induct)
  case reach_new
  then show ?case by (simp add: busy_def new_fetch_state_def)
next
  case (reach_call s t r)
  have "busy (goto t (Entering r) s) \<subseteq> insert t (busy s)" by (auto simp: busy_def)
  with reach_call show ?case by (meson finite.insertI finite_subset)
next
  case (reach_step s t s')
  show ?case by (rule finite_subset [OF busy_step [OF reach_step.hyps(2)] reach_step.IH])
qed

lemma guard_holder_moves:
  assumes "fetch_reachable s" "fl_guard s = Some t"
  shows "\<exists>s'. fetch_step t s s'"
proof -
  have inv: "guard_inv s" using fetch_reachable_inv [OF assms(1)] by simp
  have "in_guard (fl_pc s t)" using guard_invD(1) [OF inv] assms(2) by blast
  then consider r where "fl_pc s t = Testing r" | r where "fl_pc s t = Creating r" | r where "fl_pc s t = Returning r"
    by (cases "fl_pc s t") auto
  then show ?thesis
  proof cases
    case 3
    then obtain l where "fl_map s r = Some l" using guard_invD(3) [OF inv] by blast
    from step_return [OF 3 this] show ?thesis by blast
  next
    case 1
    from step_test [OF this] show ?thesis by blast
  next
    case 2
    from step_create [OF this] show ?thesis by blast
  qed
qed

lemma busy_moves:
  assumes "fetch_reachable s" "fl_pc s t \<noteq> Idle"
  shows "\<exists>v s'. fetch_step v s s'"
proof (cases "fl_guard s")
  case (Some v)
  then show ?thesis using guard_holder_moves [OF assms(1)] by blast
next
  case None
  then have "\<not> in_guard (fl_pc s t)"
    using fetch_reachable_inv [OF assms(1)] by (simp add: guard_inv_def)
  with assms(2) consider r where "fl_pc s t = Entering r" | r l where "fl_pc s t = Waiting r l"
    | r l where "fl_pc s t = Fetching r l"
    by (cases "fl_pc s t") auto
  then show ?thesis
  proof cases
    case 1
    then show ?thesis using step_guard [OF _ None] by blast
  next
    case (2 r l)
    show ?thesis
    proof (cases "fl_holder s l")
      case None
      then show ?thesis using step_acquire [OF 2] by blast
    next
      case (Some v)
      then obtain r' where "fl_pc s v = Fetching r' l"
        using fetch_reachable_inv [OF assms(1)] by (auto simp: lock_inv_def)
      from step_finish [OF this] show ?thesis by blast
    qed
  next
    case 3
    from step_finish [OF this] show ?thesis by blast
  qed
qed

lemma steps_bound: "fetch_steps n s s' \<Longrightarrow> finite (busy s) \<Longrightarrow> n + work_left s' \<le> work_left s \<and> finite (busy s')"
proof (induction rule: fetch_steps.induct)
  case (steps_more n s s' t s'')
  then have IH: "n + work_left s' \<le> work_left s" "finite (busy s')" by simp_all
  then show ?case
    using work_decreases [OF steps_more.hyps(2) IH(2)] finite_subset [OF busy_step [OF steps_more.hyps(2)] IH(2)]
    by simp
qed simp

lemma steps_left_le: "steps_left c \<le> 6"
  by (cases c) simp_all

lemma work_bound: "work_left s \<le> 6 * card (busy s)"
proof -
  have "(\<Sum>t\<in>busy s. steps_left (fl_pc s t)) \<le> (\<Sum>t\<in>busy s. 6)"
    by (rule sum_mono) (rule steps_left_le)
  then show ?thesis by (simp add: work_left_def mult.commute)
qed

lemma steps_reachable: "fetch_steps n s s' \<Longrightarrow> fetch_reachable s \<Longrightarrow> fetch_reachable s'"
  by (induction rule: fetch_steps.induct) (auto intro: reach_step)

text \<open>
  Claim C35.  Fetching cannot deadlock: when no new call comes, the threads take at most six steps
  each, whatever the interleaving, and when no step is left to take every call has returned.
\<close>

theorem fetches_terminate:
  assumes "fetch_reachable s" "fetch_steps n s s'"
  shows "n \<le> 6 * card (busy s)
    \<and> (if \<exists>t s''. fetch_step t s' s'' then busy s' \<noteq> {} else busy s' = {})"
proof
  show "n \<le> 6 * card (busy s)"
    using steps_bound [OF assms(2)] finite_busy [OF assms(1)] work_bound [of s] by simp
  have r: "fetch_reachable s'" by (rule steps_reachable [OF assms(2,1)])
  show "if \<exists>t s''. fetch_step t s' s'' then busy s' \<noteq> {} else busy s' = {}"
  proof (cases "\<exists>t s''. fetch_step t s' s''")
    case True
    then obtain t s'' where "fetch_step t s' s''" by blast
    then have "fl_pc s' t \<noteq> Idle" using step_moves(2) by fastforce
    with True show ?thesis by (auto simp: busy_def)
  next
    case False
    then show ?thesis using busy_moves [OF r] by (auto simp: busy_def)
  qed
qed

section \<open>Two callers\<close>

text \<open>Two threads fetch repository 7: one runs git, the other waits.\<close>

definition two_callers :: "nat fetch_state" where
  "two_callers = goto 1 (Entering 7) (goto 0 (Entering 7) new_fetch_state)"

fun advance_all :: "nat list \<Rightarrow> 'r fetch_state \<Rightarrow> 'r fetch_state option" where
  "advance_all [] s = Some s"
| "advance_all (t # ts) s = (case advance t s of None \<Rightarrow> None | Some s' \<Rightarrow> advance_all ts s')"

lemma advance_all_reachable: "advance_all ts s = Some s' \<Longrightarrow> fetch_reachable s \<Longrightarrow> fetch_reachable s'"
  by (induction ts arbitrary: s) (auto simp: advance_step split: option.split_asm intro: reach_step)

lemma two_callers_reachable: "fetch_reachable two_callers"
  unfolding two_callers_def by (intro reach_call reach_new) (simp_all add: new_fetch_state_def)

definition racing :: "nat fetch_state" where
  "racing = \<lparr>fl_guard = None, fl_map = [7 \<mapsto> 0], fl_next_lock = 1, fl_holder = [0 \<mapsto> 0],
     fl_pc = (\<lambda>_. Idle)(0 := Fetching 7 0, 1 := Waiting 7 0), fl_fetched = []\<rparr>"

lemmas advance_simps = advance_def two_callers_def racing_def new_fetch_state_def goto_def fun_eq_iff

lemma racing_run: "advance_all [0, 0, 0, 0, 1, 1, 1, 0] two_callers = Some racing"
  by (simp add: advance_simps)

lemma racing_reachable: "fetch_reachable racing"
  by (rule advance_all_reachable [OF racing_run two_callers_reachable])

definition released :: "nat fetch_state" where
  "released = racing\<lparr>fl_holder := Map.empty, fl_pc := (\<lambda>_. Idle)(1 := Waiting 7 0), fl_fetched := [7]\<rparr>"

lemma released_reachable: "fetch_reachable released"
proof (rule advance_all_reachable [OF _ racing_reachable])
  show "advance_all [0] racing = Some released" by (simp add: advance_simps released_def)
qed

theorem fetches_serialized_witness:
  "fl_pc racing 1 \<noteq> Fetching 7 0 \<and> (\<exists>s'. fetch_step 1 released s' \<and> fl_pc s' 1 = Fetching 7 0)"
proof
  have "fl_pc racing 0 = Fetching 7 0" by (simp add: racing_def)
  then show "fl_pc racing 1 \<noteq> Fetching 7 0"
    using fetches_serialized [OF racing_reachable, of 0 7 0 1 0] by auto
  have "fl_pc released 1 = Waiting 7 0 \<and> free_lock 7 released" by (simp add: released_def free_lock_def)
  then show "\<exists>s'. fetch_step 1 released s' \<and> fl_pc s' 1 = Fetching 7 0"
    using fetches_serialized [OF released_reachable, of 1 7 0 1 0] by blast
qed

lemma advance_all_steps: "advance_all ts s = Some s' \<Longrightarrow> fetch_steps n s0 s \<Longrightarrow> fetch_steps (n + length ts) s0 s'"
proof (induction ts arbitrary: s n)
  case (Cons t ts)
  then obtain s1 where "advance t s = Some s1" "advance_all ts s1 = Some s'"
    by (auto split: option.split_asm)
  with Cons show ?case using Cons.IH [of s1 "Suc n"] steps_more [of n s0 s t s1] by (simp add: advance_step)
qed simp

theorem fetches_terminate_witness:
  "fetch_reachable racing \<and> 8 \<le> 6 * card (busy two_callers)"
proof
  have "fetch_steps (0 + length [0::nat, 0, 0, 0, 1, 1, 1, 0]) two_callers racing"
    by (rule advance_all_steps [OF racing_run steps_none])
  then have "fetch_steps 8 two_callers racing" by (simp add: eval_nat_numeral)
  from fetches_terminate [OF two_callers_reachable this] show "8 \<le> 6 * card (busy two_callers)" by blast
qed (rule racing_reachable)

text \<open>
  The caller that waited does not return when the fetch in flight ends: it fetches again.
\<close>

lemma waiting_caller_fetches_again:
  "fl_pc racing 1 = Waiting 7 0
   \<and> (\<exists>s. advance_all [0, 1, 1] racing = Some s \<and> busy s = {} \<and> fl_fetched s = [7, 7])"
proof -
  let ?s = "racing\<lparr>fl_holder := Map.empty, fl_pc := \<lambda>_. Idle, fl_fetched := [7, 7]\<rparr>"
  have "advance_all [0, 1, 1] racing = Some ?s" by (simp add: advance_simps)
  moreover have "busy ?s = {}" by (simp add: busy_def)
  ultimately show ?thesis by (simp add: racing_def)
qed

end
