(* ===== verification/Repo_Config.thy ===== *)
theory Repo_Config
  imports Kenjutsu_Prelude
begin

text \<open>
  The repository configuration (\<^verbatim>\<open>kenjutsu/config/loader.py\<close>, \<^verbatim>\<open>kenjutsu/config/models.py\<close>).
  \<open>yaml.safe_load\<close> and pydantic's conversions of a value to \<open>bool\<close>, \<open>int\<close>, \<open>str\<close>, a list of
  strings and an enum are parameters; what the models declare, with their defaults, is the code's.
\<close>

section \<open>The models\<close>

datatype severity_threshold = Severity_CRITICAL | Severity_WARNING | Severity_SUGGESTION

datatype confidence_threshold = Confidence_VERIFIED | Confidence_HIGH | Confidence_MEDIUM | Confidence_LOW

definition severity_thresholds :: "(pystr \<times> severity_threshold) list" where
  "severity_thresholds = [(u ''critical'', Severity_CRITICAL), (u ''warning'', Severity_WARNING),
     (u ''suggestion'', Severity_SUGGESTION)]"

definition confidence_thresholds :: "(pystr \<times> confidence_threshold) list" where
  "confidence_thresholds = [(u ''verified'', Confidence_VERIFIED), (u ''high'', Confidence_HIGH),
     (u ''medium'', Confidence_MEDIUM), (u ''low'', Confidence_LOW)]"

record review_config =
  rc_auto :: bool
  rc_severity_threshold :: severity_threshold
  rc_confidence_threshold :: confidence_threshold
  rc_max_findings :: int
  rc_predictive_warnings :: bool

record ignore_config =
  ig_paths :: "pystr list"
  ig_categories :: "pystr list"

record models_config =
  mo_primary :: pystr

record repo_config =
  cf_review :: review_config
  cf_ignore :: ignore_config
  cf_models :: models_config

definition default_review :: review_config where
  "default_review = \<lparr>rc_auto = True, rc_severity_threshold = Severity_WARNING, rc_confidence_threshold = Confidence_HIGH,
     rc_max_findings = 20, rc_predictive_warnings = True\<rparr>"

definition default_ignore :: ignore_config where
  "default_ignore = \<lparr>ig_paths = [], ig_categories = []\<rparr>"

definition default_models :: models_config where
  "default_models = \<lparr>mo_primary = u ''auto''\<rparr>"

definition default_repo_config :: repo_config where
  "default_repo_config = \<lparr>cf_review = default_review, cf_ignore = default_ignore, cf_models = default_models\<rparr>"

section \<open>Validation\<close>

text \<open>A loaded value: what the loader looks at, and anything else.\<close>

datatype 'v yaml_value = Y_None | Y_Dict "('v yaml_value \<times> 'v yaml_value) list" | Y_Str pystr | Y_Other 'v

text \<open>
  Pydantic's conversions.  A value of an enum is converted through the list of its member values.
\<close>

record 'v pydantic =
  pd_bool :: "'v yaml_value \<Rightarrow> bool option"
  pd_int :: "'v yaml_value \<Rightarrow> int option"
  pd_str :: "'v yaml_value \<Rightarrow> pystr option"
  pd_strs :: "'v yaml_value \<Rightarrow> pystr list option"
  pd_member :: "pystr list \<Rightarrow> 'v yaml_value \<Rightarrow> pystr option"

text \<open>A field with a default: the default where the key is absent, else the converted value.\<close>

definition get_field :: "('v yaml_value \<Rightarrow> 'a option) \<Rightarrow> 'a \<Rightarrow> ('v yaml_value \<times> 'v yaml_value) list \<Rightarrow> pystr \<Rightarrow> 'a option" where
  "get_field conv fallback d name = (case map_of d (Y_Str name) of None \<Rightarrow> Some fallback | Some v \<Rightarrow> conv v)"

definition get_enum :: "'v pydantic \<Rightarrow> (pystr \<times> 'e) list \<Rightarrow> 'v yaml_value \<Rightarrow> 'e option" where
  "get_enum pd members v = (case pd_member pd (map fst members) v of None \<Rightarrow> None | Some s \<Rightarrow> map_of members s)"

text \<open>Unknown keys are never looked at (\<open>extra = ignore\<close>); a model is built from a dictionary.\<close>

fun validate_review :: "'v pydantic \<Rightarrow> 'v yaml_value \<Rightarrow> review_config option" where
  "validate_review pd (Y_Dict d) =
     (case (get_field (pd_bool pd) (rc_auto default_review) d (u ''auto''),
            get_field (get_enum pd severity_thresholds) (rc_severity_threshold default_review) d (u ''severity_threshold''),
            get_field (get_enum pd confidence_thresholds) (rc_confidence_threshold default_review) d (u ''confidence_threshold''),
            get_field (pd_int pd) (rc_max_findings default_review) d (u ''max_findings''),
            get_field (pd_bool pd) (rc_predictive_warnings default_review) d (u ''predictive_warnings'')) of
        (Some auto, Some severity, Some confidence, Some max_findings, Some predictive) \<Rightarrow>
          Some \<lparr>rc_auto = auto, rc_severity_threshold = severity, rc_confidence_threshold = confidence,
            rc_max_findings = max_findings, rc_predictive_warnings = predictive\<rparr>
      | _ \<Rightarrow> None)"
| "validate_review pd _ = None"

fun validate_ignore :: "'v pydantic \<Rightarrow> 'v yaml_value \<Rightarrow> ignore_config option" where
  "validate_ignore pd (Y_Dict d) =
     (case (get_field (pd_strs pd) [] d (u ''paths''), get_field (pd_strs pd) [] d (u ''categories'')) of
        (Some paths, Some categories) \<Rightarrow> Some \<lparr>ig_paths = paths, ig_categories = categories\<rparr>
      | _ \<Rightarrow> None)"
| "validate_ignore pd _ = None"

fun validate_models :: "'v pydantic \<Rightarrow> 'v yaml_value \<Rightarrow> models_config option" where
  "validate_models pd (Y_Dict d) = (case get_field (pd_str pd) (u ''auto'') d (u ''primary'') of
      Some primary \<Rightarrow> Some \<lparr>mo_primary = primary\<rparr> | None \<Rightarrow> None)"
| "validate_models pd _ = None"

definition validate_repo :: "'v pydantic \<Rightarrow> ('v yaml_value \<times> 'v yaml_value) list \<Rightarrow> repo_config option" where
  "validate_repo pd d =
     (case (get_field (validate_review pd) default_review d (u ''review''),
            get_field (validate_ignore pd) default_ignore d (u ''ignore''),
            get_field (validate_models pd) default_models d (u ''models'')) of
        (Some review, Some ignore, Some models) \<Rightarrow> Some \<lparr>cf_review = review, cf_ignore = ignore, cf_models = models\<rparr>
      | _ \<Rightarrow> None)"

section \<open>Loading\<close>

datatype yaml_error = YAMLError | Yaml_Raises py_error

datatype load_warning = Parse_Failed | Unexpected_Structure | Validation_Failed

text \<open>\<open>load_repo_config\<close>, with the warning that it logs.\<close>

definition load_repo_config ::
  "(pystr \<Rightarrow> yaml_error + 'v yaml_value) \<Rightarrow> 'v pydantic \<Rightarrow> pystr option \<Rightarrow> (load_warning option \<times> repo_config) result" where
  "load_repo_config safe_load pd yaml_content =
     (case yaml_content of None \<Rightarrow> Inr (None, default_repo_config)
      | Some body \<Rightarrow>
          if body = [] \<or> strip body = [] then Inr (None, default_repo_config)
          else (case safe_load body of
              Inl YAMLError \<Rightarrow> Inr (Some Parse_Failed, default_repo_config)
            | Inl (Yaml_Raises e) \<Rightarrow> Inl e
            | Inr Y_None \<Rightarrow> Inr (None, default_repo_config)
            | Inr (Y_Dict d) \<Rightarrow> (case validate_repo pd d of
                  Some config \<Rightarrow> Inr (None, config)
                | None \<Rightarrow> Inr (Some Validation_Failed, default_repo_config))
            | Inr _ \<Rightarrow> Inr (Some Unexpected_Structure, default_repo_config)))"

section \<open>What a file can set\<close>

text \<open>
  The reference: a setting is where the file says, or the default.  \<open>lookup2\<close> follows the two keys
  of a setting; a section that is absent leaves all its settings at the default.
\<close>

fun dict_items :: "'v yaml_value \<Rightarrow> ('v yaml_value \<times> 'v yaml_value) list" where
  "dict_items (Y_Dict d) = d"
| "dict_items _ = []"

definition lookup2 :: "('v yaml_value \<times> 'v yaml_value) list \<Rightarrow> pystr \<Rightarrow> pystr \<Rightarrow> 'v yaml_value option" where
  "lookup2 d sec name = (case map_of d (Y_Str sec) of None \<Rightarrow> None | Some v \<Rightarrow> map_of (dict_items v) (Y_Str name))"

definition setting_ok :: "('v yaml_value \<times> 'v yaml_value) list \<Rightarrow> pystr \<Rightarrow> pystr \<Rightarrow> ('v yaml_value \<Rightarrow> 'a option) \<Rightarrow> 'a \<Rightarrow> 'a \<Rightarrow> bool" where
  "setting_ok d sec name conv fallback x \<longleftrightarrow>
     (case lookup2 d sec name of None \<Rightarrow> x = fallback | Some v \<Rightarrow> conv v = Some x)"

definition resolves :: "'v pydantic \<Rightarrow> ('v yaml_value \<times> 'v yaml_value) list \<Rightarrow> repo_config \<Rightarrow> bool" where
  "resolves pd d c \<longleftrightarrow>
     setting_ok d (u ''review'') (u ''auto'') (pd_bool pd) True (rc_auto (cf_review c))
     \<and> setting_ok d (u ''review'') (u ''severity_threshold'') (get_enum pd severity_thresholds) Severity_WARNING
         (rc_severity_threshold (cf_review c))
     \<and> setting_ok d (u ''review'') (u ''confidence_threshold'') (get_enum pd confidence_thresholds) Confidence_HIGH
         (rc_confidence_threshold (cf_review c))
     \<and> setting_ok d (u ''review'') (u ''max_findings'') (pd_int pd) 20 (rc_max_findings (cf_review c))
     \<and> setting_ok d (u ''review'') (u ''predictive_warnings'') (pd_bool pd) True (rc_predictive_warnings (cf_review c))
     \<and> setting_ok d (u ''ignore'') (u ''paths'') (pd_strs pd) [] (ig_paths (cf_ignore c))
     \<and> setting_ok d (u ''ignore'') (u ''categories'') (pd_strs pd) [] (ig_categories (cf_ignore c))
     \<and> setting_ok d (u ''models'') (u ''primary'') (pd_str pd) (u ''auto'') (mo_primary (cf_models c))"

lemma get_field_Some:
  "get_field conv fallback d name = Some x \<longleftrightarrow> (case map_of d (Y_Str name) of None \<Rightarrow> x = fallback | Some v \<Rightarrow> conv v = Some x)"
  by (auto simp: get_field_def split: option.split)

lemma validate_review_Some:
  "validate_review pd v = Some c \<longleftrightarrow> (\<exists>d. v = Y_Dict d
     \<and> get_field (pd_bool pd) True d (u ''auto'') = Some (rc_auto c)
     \<and> get_field (get_enum pd severity_thresholds) Severity_WARNING d (u ''severity_threshold'') = Some (rc_severity_threshold c)
     \<and> get_field (get_enum pd confidence_thresholds) Confidence_HIGH d (u ''confidence_threshold'') = Some (rc_confidence_threshold c)
     \<and> get_field (pd_int pd) 20 d (u ''max_findings'') = Some (rc_max_findings c)
     \<and> get_field (pd_bool pd) True d (u ''predictive_warnings'') = Some (rc_predictive_warnings c))"
  by (cases v; cases c) (auto simp: default_review_def split: option.split)

lemma validate_ignore_Some:
  "validate_ignore pd v = Some c \<longleftrightarrow> (\<exists>d. v = Y_Dict d
     \<and> get_field (pd_strs pd) [] d (u ''paths'') = Some (ig_paths c)
     \<and> get_field (pd_strs pd) [] d (u ''categories'') = Some (ig_categories c))"
  by (cases v; cases c) (auto split: option.split)

lemma validate_models_Some:
  "validate_models pd v = Some c \<longleftrightarrow> (\<exists>d. v = Y_Dict d
     \<and> get_field (pd_str pd) (u ''auto'') d (u ''primary'') = Some (mo_primary c))"
  by (cases v; cases c) (auto split: option.split)

lemma validate_repo_Some:
  "validate_repo pd d = Some c \<longleftrightarrow>
     get_field (validate_review pd) default_review d (u ''review'') = Some (cf_review c)
     \<and> get_field (validate_ignore pd) default_ignore d (u ''ignore'') = Some (cf_ignore c)
     \<and> get_field (validate_models pd) default_models d (u ''models'') = Some (cf_models c)"
  by (cases c) (auto simp: validate_repo_def split: option.split)

text \<open>A section that is present must be a dictionary.\<close>

fun is_dict :: "'v yaml_value \<Rightarrow> bool" where
  "is_dict (Y_Dict d) = True"
| "is_dict _ = False"

definition section_ok :: "('v yaml_value \<times> 'v yaml_value) list \<Rightarrow> pystr \<Rightarrow> bool" where
  "section_ok d sec \<longleftrightarrow> (case map_of d (Y_Str sec) of None \<Rightarrow> True | Some v \<Rightarrow> is_dict v)"

definition accepts :: "'v pydantic \<Rightarrow> ('v yaml_value \<times> 'v yaml_value) list \<Rightarrow> repo_config \<Rightarrow> bool" where
  "accepts pd d c \<longleftrightarrow> list_all (section_ok d) [u ''review'', u ''ignore'', u ''models''] \<and> resolves pd d c"

lemma setting_ok_absent: "map_of d (Y_Str sec) = None \<Longrightarrow> setting_ok d sec name conv fallback x \<longleftrightarrow> x = fallback"
  by (simp add: setting_ok_def lookup2_def)

lemma setting_ok_present:
  "map_of d (Y_Str sec) = Some (Y_Dict e) \<Longrightarrow> setting_ok d sec name conv fallback x \<longleftrightarrow> get_field conv fallback e name = Some x"
  by (simp add: setting_ok_def lookup2_def get_field_Some)

lemma review_section:
  "get_field (validate_review pd) default_review d (u ''review'') = Some c \<longleftrightarrow> section_ok d (u ''review'')
     \<and> setting_ok d (u ''review'') (u ''auto'') (pd_bool pd) True (rc_auto c)
     \<and> setting_ok d (u ''review'') (u ''severity_threshold'') (get_enum pd severity_thresholds) Severity_WARNING (rc_severity_threshold c)
     \<and> setting_ok d (u ''review'') (u ''confidence_threshold'') (get_enum pd confidence_thresholds) Confidence_HIGH (rc_confidence_threshold c)
     \<and> setting_ok d (u ''review'') (u ''max_findings'') (pd_int pd) 20 (rc_max_findings c)
     \<and> setting_ok d (u ''review'') (u ''predictive_warnings'') (pd_bool pd) True (rc_predictive_warnings c)"
proof (cases "map_of d (Y_Str (u ''review''))")
  case None
  then show ?thesis by (cases c) (simp add: get_field_Some section_ok_def setting_ok_absent default_review_def)
next
  case (Some v)
  then have "get_field (validate_review pd) default_review d (u ''review'') = validate_review pd v" by (simp add: get_field_def)
  with Some show ?thesis
    by (cases v) (simp_all add: section_ok_def setting_ok_present validate_review_Some del: validate_review.simps)
qed

lemma ignore_section:
  "get_field (validate_ignore pd) default_ignore d (u ''ignore'') = Some c \<longleftrightarrow> section_ok d (u ''ignore'')
     \<and> setting_ok d (u ''ignore'') (u ''paths'') (pd_strs pd) [] (ig_paths c)
     \<and> setting_ok d (u ''ignore'') (u ''categories'') (pd_strs pd) [] (ig_categories c)"
proof (cases "map_of d (Y_Str (u ''ignore''))")
  case None
  then show ?thesis by (cases c) (simp add: get_field_Some section_ok_def setting_ok_absent default_ignore_def)
next
  case (Some v)
  then have "get_field (validate_ignore pd) default_ignore d (u ''ignore'') = validate_ignore pd v" by (simp add: get_field_def)
  with Some show ?thesis
    by (cases v) (simp_all add: section_ok_def setting_ok_present validate_ignore_Some del: validate_ignore.simps)
qed

lemma models_section:
  "get_field (validate_models pd) default_models d (u ''models'') = Some c \<longleftrightarrow> section_ok d (u ''models'')
     \<and> setting_ok d (u ''models'') (u ''primary'') (pd_str pd) (u ''auto'') (mo_primary c)"
proof (cases "map_of d (Y_Str (u ''models''))")
  case None
  then show ?thesis by (cases c) (simp add: get_field_Some section_ok_def setting_ok_absent default_models_def)
next
  case (Some v)
  then have "get_field (validate_models pd) default_models d (u ''models'') = validate_models pd v" by (simp add: get_field_def)
  with Some show ?thesis
    by (cases v) (simp_all add: section_ok_def setting_ok_present validate_models_Some del: validate_models.simps)
qed

lemma validate_repo_iff: "validate_repo pd d = Some c \<longleftrightarrow> accepts pd d c"
  unfolding validate_repo_Some accepts_def resolves_def review_section ignore_section models_section
  by auto

text \<open>What a file holds, as far as the loader's warnings tell it apart.\<close>

definition blank :: "pystr option \<Rightarrow> bool" where
  "blank yaml_content \<longleftrightarrow> (case yaml_content of None \<Rightarrow> True | Some body \<Rightarrow> strip body = [])"

text \<open>
  Claim C36.  Loading resolves every setting on its own, and warns exactly when something is wrong.
  Without a file, or with nothing in it, the result is the full default without a warning.  A
  dictionary whose present sections are dictionaries and whose present settings all convert gives each
  setting its converted value, or the default where it is absent, without a warning.  Text that is not
  YAML, YAML that is not a dictionary, and a dictionary that does not validate each give the full
  default with the warning for it.  Only an exception that the YAML parser raised itself gets out.
\<close>

theorem repo_config_resolution:
  "if blank yaml_content then load_repo_config safe_load pd yaml_content = Inr (None, default_repo_config)
   else (case safe_load (the yaml_content) of
       Inl YAMLError \<Rightarrow> load_repo_config safe_load pd yaml_content = Inr (Some Parse_Failed, default_repo_config)
     | Inl (Yaml_Raises e) \<Rightarrow> load_repo_config safe_load pd yaml_content = Inl e
     | Inr Y_None \<Rightarrow> load_repo_config safe_load pd yaml_content = Inr (None, default_repo_config)
     | Inr (Y_Dict d) \<Rightarrow>
         if \<exists>c. accepts pd d c then \<exists>c. load_repo_config safe_load pd yaml_content = Inr (None, c) \<and> accepts pd d c
         else load_repo_config safe_load pd yaml_content = Inr (Some Validation_Failed, default_repo_config)
     | Inr _ \<Rightarrow> load_repo_config safe_load pd yaml_content = Inr (Some Unexpected_Structure, default_repo_config))"
proof (cases "blank yaml_content")
  case True
  then show ?thesis by (auto simp: blank_def load_repo_config_def split: option.split_asm)
next
  case False
  then obtain body where body: "yaml_content = Some body" "strip body \<noteq> []"
    by (auto simp: blank_def split: option.split_asm)
  then have "body \<noteq> []" by auto
  with body False show ?thesis
    by (auto simp: load_repo_config_def simp flip: validate_repo_iff
        split: sum.split yaml_error.split yaml_value.split option.split)
qed

text \<open>The settings that are accepted are unique, so the result is determined by them.\<close>

lemma setting_ok_unique: "setting_ok d sec name conv fallback x \<Longrightarrow> setting_ok d sec name conv fallback y \<Longrightarrow> x = y"
  by (auto simp: setting_ok_def split: option.split_asm)

text \<open>An empty section (\<open>review:\<close> with nothing below) discards the settings of all sections.\<close>

lemma empty_section_resets_all:
  assumes "strip body \<noteq> []" "safe_load body = Inr (Y_Dict d)" "map_of d (Y_Str (u ''review'')) = Some Y_None"
  shows "load_repo_config safe_load pd (Some body) = Inr (Some Validation_Failed, default_repo_config)"
proof -
  have "validate_repo pd d = None" using assms(3) by (simp add: validate_repo_def get_field_def)
  moreover have "body \<noteq> []" using assms(1) by auto
  ultimately show ?thesis using assms by (simp add: load_repo_config_def)
qed

text \<open>An exception other than \<open>YAMLError\<close>, as for an impossible date, leaves the loader.\<close>

lemma yaml_value_error_escapes:
  "strip body \<noteq> [] \<Longrightarrow> safe_load body = Inl (Yaml_Raises ValueError) \<Longrightarrow> load_repo_config safe_load pd (Some body) = Inl ValueError"
  by (auto simp: load_repo_config_def)

end
