(* ===== verification/Database.thy ===== *)
theory Database
  imports Py_Effects
begin

text \<open>
  The database address and the lazily created engine (\<^verbatim>\<open>kenjutsu/database.py\<close>), and the engine and
  session factory of the webhook (\<^verbatim>\<open>kenjutsu/server/webhook.py\<close>).  SQLAlchemy is a parameter.
\<close>

section \<open>The address\<close>

text \<open>\<open>x in s\<close> and \<open>s.replace(x, y, 1)\<close> for strings.\<close>

fun contains :: "pystr \<Rightarrow> pystr \<Rightarrow> bool" where
  "contains [] x \<longleftrightarrow> x = []"
| "contains (c # s) x \<longleftrightarrow> starts_with (c # s) x \<or> contains s x"

fun replace_first :: "pystr \<Rightarrow> pystr \<Rightarrow> pystr \<Rightarrow> pystr" where
  "replace_first [] x y = (if x = [] then y else [])"
| "replace_first (c # s) x y = (if starts_with (c # s) x then y @ drop (length x) (c # s) else c # replace_first s x y)"

definition normalise_url :: "pystr \<Rightarrow> pystr" where
  "normalise_url url =
     (if starts_with url (u ''postgres://'') then u ''postgresql+psycopg'' @ drop (length (u ''postgres'')) url
      else if starts_with url (u ''postgresql://'') \<and> \<not> contains url (u ''+psycopg'')
        then replace_first url (u ''postgresql://'') (u ''postgresql+psycopg://'')
      else url)"

definition get_database_url :: "pystr option \<Rightarrow> pystr result" where
  "get_database_url env =
     (let url = (case env of None \<Rightarrow> [] | Some v \<Rightarrow> v)
      in if url = [] then Inl RuntimeError else Inr (normalise_url url))"

section \<open>The engine and the session factory\<close>

record ('e, 'f, 'w) db_module =
  dbm_engine :: "'e option"
  dbm_session_local :: "'f option"
  dbm_world :: 'w

text \<open>\<open>create_engine\<close> and \<open>sessionmaker\<close> are operations on the world; the environment is an input.\<close>

definition get_engine ::
  "pystr option \<Rightarrow> (pystr \<Rightarrow> ('w, 'e) proc) \<Rightarrow> (('e, 'f, 'w) db_module, 'e) proc" where
  "get_engine env create_engine = (\<lambda>s.
     case dbm_engine s of
       Some e \<Rightarrow> (Inr e, s)
     | None \<Rightarrow>
         (case get_database_url env of
            Inl err \<Rightarrow> (Inl err, s)
          | Inr url \<Rightarrow>
              (case create_engine url (dbm_world s) of
                 (Inl err, w) \<Rightarrow> (Inl err, s\<lparr>dbm_world := w\<rparr>)
               | (Inr e, w) \<Rightarrow> (Inr e, s\<lparr>dbm_engine := Some e, dbm_world := w\<rparr>))))"

definition get_session_factory ::
  "pystr option \<Rightarrow> (pystr \<Rightarrow> ('w, 'e) proc) \<Rightarrow> ('e \<Rightarrow> ('w, 'f) proc) \<Rightarrow> (('e, 'f, 'w) db_module, 'f) proc" where
  "get_session_factory env create_engine sessionmaker = (\<lambda>s.
     case dbm_session_local s of
       Some f \<Rightarrow> (Inr f, s)
     | None \<Rightarrow>
         seq (get_engine env create_engine) (\<lambda>e s'.
           case sessionmaker e (dbm_world s') of
             (Inl err, w) \<Rightarrow> (Inl err, s'\<lparr>dbm_world := w\<rparr>)
           | (Inr f, w) \<Rightarrow> (Inr f, s'\<lparr>dbm_session_local := Some f, dbm_world := w\<rparr>)) s)"

text \<open>The webhook module keeps an asynchronous engine and factory of its own.\<close>

definition webhook_get_engine ::
  "pystr option \<Rightarrow> (pystr \<Rightarrow> ('w, 'e) proc) \<Rightarrow> (('e, 'f, 'w) db_module, 'e) proc" where
  "webhook_get_engine env create_async_engine = (\<lambda>s.
     case dbm_engine s of
       Some e \<Rightarrow> (Inr e, s)
     | None \<Rightarrow>
         let database_url = (case env of None \<Rightarrow> [] | Some v \<Rightarrow> v)
         in if database_url = [] then (Inl RuntimeError, s)
            else (case create_async_engine database_url (dbm_world s) of
                 (Inl err, w) \<Rightarrow> (Inl err, s\<lparr>dbm_world := w\<rparr>)
               | (Inr e, w) \<Rightarrow> (Inr e, s\<lparr>dbm_engine := Some e, dbm_world := w\<rparr>)))"

definition webhook_get_session_factory ::
  "pystr option \<Rightarrow> (pystr \<Rightarrow> ('w, 'e) proc) \<Rightarrow> ('e \<Rightarrow> ('w, 'f) proc) \<Rightarrow> (('e, 'f, 'w) db_module, 'f) proc" where
  "webhook_get_session_factory env create_async_engine sessionmaker = (\<lambda>s.
     case dbm_session_local s of
       Some f \<Rightarrow> (Inr f, s)
     | None \<Rightarrow>
         seq (webhook_get_engine env create_async_engine) (\<lambda>e s'.
           case sessionmaker e (dbm_world s') of
             (Inl err, w) \<Rightarrow> (Inl err, s'\<lparr>dbm_world := w\<rparr>)
           | (Inr f, w) \<Rightarrow> (Inr f, s'\<lparr>dbm_session_local := Some f, dbm_world := w\<rparr>)) s)"

section \<open>Normalisation\<close>

text \<open>Every PostgreSQL address ends up with the driver psycopg, everything after the scheme kept.\<close>

lemma normalise_url_cases:
  shows "normalise_url (u ''postgres://'' @ r) = u ''postgresql+psycopg://'' @ r"
    and "\<not> contains (u ''postgresql://'' @ r) (u ''+psycopg'') \<Longrightarrow> normalise_url (u ''postgresql://'' @ r) = u ''postgresql+psycopg://'' @ r"
    and "\<not> starts_with url (u ''postgres://'') \<Longrightarrow> \<not> starts_with url (u ''postgresql://'') \<Longrightarrow> normalise_url url = url"
  by (simp_all add: normalise_url_def starts_with_def)

lemma normalised_fixed: "normalise_url (u ''postgresql+psycopg'' @ r) = u ''postgresql+psycopg'' @ r"
  by (simp add: normalise_url_def starts_with_def)

lemma normalise_url_idem: "normalise_url (normalise_url url) = normalise_url url"
proof (cases "starts_with url (u ''postgres://'') \<or> starts_with url (u ''postgresql://'') \<and> \<not> contains url (u ''+psycopg'')")
  case True
  then have "\<exists>r. normalise_url url = u ''postgresql+psycopg'' @ r"
  proof
    assume "starts_with url (u ''postgres://'')"
    then show ?thesis by (simp add: normalise_url_def)
  next
    assume "starts_with url (u ''postgresql://'') \<and> \<not> contains url (u ''+psycopg'')"
    then obtain r where r: "url = u ''postgresql://'' @ r" "\<not> contains url (u ''+psycopg'')"
      by (auto simp: starts_with_iff)
    have "normalise_url url = u ''postgresql+psycopg://'' @ r"
      unfolding r(1) by (rule normalise_url_cases(2) [OF r(2) [unfolded r(1)]])
    also have "\<dots> = u ''postgresql+psycopg'' @ (u ''://'' @ r)" by simp
    finally show ?thesis by blast
  qed
  then show ?thesis using normalised_fixed by auto
qed (auto simp: normalise_url_def)

text \<open>An address that mentions the driver name anywhere, for instance in the password, is not changed.\<close>

lemma driver_name_in_password:
  "normalise_url (u ''postgresql://u:a+psycopg@h/d'') = u ''postgresql://u:a+psycopg@h/d''"
  by (simp add: normalise_url_def starts_with_def)

section \<open>Lazily created values\<close>

text \<open>
  The contract of the four getters: the value is created by the first call that succeeds, kept in
  the module and returned by every later call, whatever the environment then is; a call that
  fails leaves no value.
\<close>

primrec get_all :: "('i \<Rightarrow> ('s, 'v) proc) \<Rightarrow> 'i list \<Rightarrow> 's \<Rightarrow> 'v result list" where
  "get_all get [] s = []"
| "get_all get (i # is) s = fst (get i s) # get_all get is (snd (get i s))"

locale lazily_created =
  fixes held :: "'s \<Rightarrow> 'v option"
    and get :: "'i \<Rightarrow> ('s, 'v) proc"
  assumes get_held: "held s = Some v \<Longrightarrow> get i s = (Inr v, s)"
    and get_stores: "get i s = (Inr v, s') \<Longrightarrow> held s' = Some v"
    and get_fails: "get i s = (Inl e, s') \<Longrightarrow> held s' = None"
begin

lemma get_again: "get i s = (Inr v, s') \<Longrightarrow> get j s' = (Inr v, s')"
  using get_stores get_held by blast

lemma all_held: "held s = Some v \<Longrightarrow> get_all get is s = replicate (length is) (Inr v)"
  by (induction "is") (simp_all add: get_held)

text \<open>Over any calls: first the failures, then always the same value.\<close>

lemma get_all_shape:
  "\<exists>errors v n. get_all get is s = map Inl errors @ replicate n (Inr v)"
proof (induction "is" arbitrary: s)
  case Nil
  have "get_all get [] s = map Inl [] @ replicate 0 (Inr undefined)" by simp
  then show ?case by blast
next
  case (Cons i "is")
  obtain r s' where g: "get i s = (r, s')" by (metis surj_pair)
  show ?case
  proof (cases r)
    case (Inl e)
    obtain errors v n where "get_all get is s' = map Inl errors @ replicate n (Inr v)" using Cons by blast
    then have "get_all get (i # is) s = map Inl (e # errors) @ replicate n (Inr v)" using g Inl by simp
    then show ?thesis by blast
  next
    case (Inr v)
    then have "get_all get is s' = replicate (length is) (Inr v)" using g get_stores all_held by blast
    then have "get_all get (i # is) s = map Inl [] @ replicate (Suc (length is)) (Inr v)" using g Inr by simp
    then show ?thesis by blast
  qed
qed

end

interpretation engine: lazily_created dbm_engine "\<lambda>(env, create). get_engine env create"
  by unfold_locales (auto simp: get_engine_def split: option.split_asm sum.split_asm prod.split_asm)

lemma get_engine_frame: "get_engine env create s = (r, s') \<Longrightarrow> dbm_session_local s' = dbm_session_local s"
  by (auto simp: get_engine_def split: option.split_asm sum.split_asm prod.split_asm)

interpretation session_factory: lazily_created dbm_session_local
  "\<lambda>(env, create, sessionmaker). get_session_factory env create sessionmaker"
  by unfold_locales
    (auto simp: get_session_factory_def seq_def split: option.split_asm sum.split_asm prod.split_asm dest: get_engine_frame)

interpretation async_engine: lazily_created dbm_engine "\<lambda>(env, create). webhook_get_engine env create"
  by unfold_locales (auto simp: webhook_get_engine_def split: option.split_asm if_split_asm sum.split_asm prod.split_asm)

lemma webhook_get_engine_frame: "webhook_get_engine env create s = (r, s') \<Longrightarrow> dbm_session_local s' = dbm_session_local s"
  by (auto simp: webhook_get_engine_def split: option.split_asm if_split_asm sum.split_asm prod.split_asm)

interpretation async_session_factory: lazily_created dbm_session_local
  "\<lambda>(env, create, sessionmaker). webhook_get_session_factory env create sessionmaker"
  by unfold_locales
    (auto simp: webhook_get_session_factory_def seq_def split: option.split_asm sum.split_asm prod.split_asm
      dest: webhook_get_engine_frame)

text \<open>The webhook connects to the address as it is, without the driver that the application adds.\<close>

lemma webhook_url_not_normalised:
  assumes "dbm_engine s = None"
  shows "webhook_get_engine (Some (u ''postgres://h/d'')) create s
      = (case create (u ''postgres://h/d'') (dbm_world s) of
           (Inl err, w) \<Rightarrow> (Inl err, s\<lparr>dbm_world := w\<rparr>)
         | (Inr e, w) \<Rightarrow> (Inr e, s\<lparr>dbm_engine := Some e, dbm_world := w\<rparr>))"
    and "get_engine (Some (u ''postgres://h/d'')) create s
      = (case create (u ''postgresql+psycopg://h/d'') (dbm_world s) of
           (Inl err, w) \<Rightarrow> (Inl err, s\<lparr>dbm_world := w\<rparr>)
         | (Inr e, w) \<Rightarrow> (Inr e, s\<lparr>dbm_engine := Some e, dbm_world := w\<rparr>))"
  using assms by (simp_all add: webhook_get_engine_def get_engine_def get_database_url_def normalise_url_def starts_with_def)

end
