(* ===== verification/Migrations.thy ===== *)
theory Migrations
  imports Database
begin

text \<open>
  The two environments in which Alembic runs (\<^verbatim>\<open>kenjutsu/migrations/env.py\<close> and
  \<^verbatim>\<open>kenjutsu/db/migrations/env.py\<close>), and the migration that adds the publishing columns.

  Alembic, SQLAlchemy and \<open>logging.config\<close> are a record of effectful functions, in the shape in
  which the environments call them.  Shown: which address they use, that a run happens once, inside a
  transaction and online on one open connection, and that connection and transaction are ended
  on every path; that the downgrade undoes the upgrade.
\<close>

section \<open>The addresses\<close>

definition migration_url :: "pystr option \<Rightarrow> pystr result" where
  "migration_url env =
     (let url = (case env of None \<Rightarrow> [] | Some v \<Rightarrow> v)
      in if url = [] then Inl RuntimeError else Inr (normalise_url url))"

definition db_migration_url :: "pystr option \<Rightarrow> pystr" where
  "db_migration_url env = (case env of Some v \<Rightarrow> v | None \<Rightarrow> u ''postgresql+psycopg://localhost/kenjutsu'')"

text \<open>The application and its migrations agree; the other environment passes a legacy address on.\<close>

lemma migration_url_agrees: "migration_url env = get_database_url env"
  by (simp add: migration_url_def get_database_url_def)

lemma db_migration_url_not_normalised:
  "db_migration_url (Some (u ''postgres://h/d'')) = u ''postgres://h/d''"
  "get_database_url (Some (u ''postgres://h/d'')) = Inr (u ''postgresql+psycopg://h/d'')"
  by (simp_all add: db_migration_url_def get_database_url_def normalise_url_def starts_with_def)

section \<open>The metadata\<close>

text \<open>
  A declarative base registers the tables of the classes that extend it.  There are two bases, of
  the same name: all models extend the one of \<^verbatim>\<open>kenjutsu/db/models.py\<close>.
\<close>

datatype declarative_base = Database_Base | Models_Base

definition mapped_classes :: "(pystr \<times> declarative_base) list" where
  "mapped_classes =
     [(u ''installations'', Models_Base), (u ''repos'', Models_Base), (u ''reviews'', Models_Base),
      (u ''findings'', Models_Base), (u ''suppressions'', Models_Base), (u ''webhook_events'', Models_Base),
      (u ''audit_log'', Models_Base)]"

definition base_metadata :: "declarative_base \<Rightarrow> pystr list" where
  "base_metadata b = map fst (filter (\<lambda>(t, b'). b' = b) mapped_classes)"

text \<open>The environment that \<^verbatim>\<open>alembic.ini\<close> names compares the database with no table at all.\<close>

lemma metadata_of_the_bases:
  "base_metadata Database_Base = []" and "length (base_metadata Models_Base) = 7"
  by (simp_all add: base_metadata_def mapped_classes_def)

section \<open>Running Alembic\<close>

text \<open>The keyword arguments of the two calls of \<open>context.configure\<close>.\<close>

datatype 'c configuration =
    Offline_Configuration pystr "pystr list" bool pystr
  | Online_Configuration 'c "pystr list"

datatype pool_class = NullPool

record ('w, 'e, 'c, 't) alembic =
  al_config_file_name :: "pystr option"
  al_file_config :: "pystr \<Rightarrow> ('w, unit) proc"
  al_is_offline_mode :: bool
  al_get_section :: "('w, pystr \<rightharpoonup> pystr) proc"
  al_engine_from_config :: "(pystr \<rightharpoonup> pystr) \<Rightarrow> pystr \<Rightarrow> pool_class \<Rightarrow> ('w, 'e) proc"
  al_connect :: "'e \<Rightarrow> ('w, 'c) proc"
  al_close :: "'c \<Rightarrow> py_error option \<Rightarrow> ('w, bool) proc"
  al_configure :: "'c configuration \<Rightarrow> ('w, unit) proc"
  al_begin_transaction :: "('w, 't) proc"
  al_end_transaction :: "'t \<Rightarrow> py_error option \<Rightarrow> ('w, bool) proc"
  al_run_migrations :: "('w, unit) proc"

definition configured_run :: "('w, 'e, 'c, 't) alembic \<Rightarrow> 'c configuration \<Rightarrow> ('w, unit) proc" where
  "configured_run al conf =
     seq (al_configure al conf) (\<lambda>_.
       with_block (al_begin_transaction al) (al_end_transaction al) (return ()) (\<lambda>_. al_run_migrations al))"

definition run_on_connection ::
  "('w, 'e, 'c, 't) alembic \<Rightarrow> pystr list \<Rightarrow> (pystr \<rightharpoonup> pystr) \<Rightarrow> ('w, unit) proc" where
  "run_on_connection al target_metadata cfg =
     seq (al_engine_from_config al cfg (u ''sqlalchemy.'') NullPool) (\<lambda>connectable.
       with_block (al_connect al connectable) (al_close al) (return ()) (\<lambda>connection.
         configured_run al (Online_Configuration connection target_metadata)))"

definition run_migrations_offline :: "('w, 'e, 'c, 't) alembic \<Rightarrow> pystr option \<Rightarrow> ('w, unit) proc" where
  "run_migrations_offline al env =
     seq (from_result (migration_url env)) (\<lambda>url.
       configured_run al (Offline_Configuration url (base_metadata Database_Base) True (u ''named'')))"

definition run_migrations_online :: "('w, 'e, 'c, 't) alembic \<Rightarrow> pystr option \<Rightarrow> ('w, unit) proc" where
  "run_migrations_online al env =
     seq (al_get_section al) (\<lambda>cfg.
     seq (from_result (migration_url env)) (\<lambda>url.
       run_on_connection al (base_metadata Database_Base) (cfg(u ''sqlalchemy.url'' \<mapsto> url))))"

text \<open>Loading the module: the logging configuration, then the run of the mode.\<close>

definition file_config :: "('w, 'e, 'c, 't) alembic \<Rightarrow> ('w, unit) proc" where
  "file_config al = (case al_config_file_name al of None \<Rightarrow> return () | Some name \<Rightarrow> al_file_config al name)"

definition load_env :: "('w, 'e, 'c, 't) alembic \<Rightarrow> pystr option \<Rightarrow> ('w, unit) proc" where
  "load_env al env =
     seq (file_config al) (\<lambda>_.
       if al_is_offline_mode al then run_migrations_offline al env else run_migrations_online al env)"

text \<open>The environment of \<^verbatim>\<open>kenjutsu/db/migrations\<close>.\<close>

definition db_run_migrations_offline :: "('w, 'e, 'c, 't) alembic \<Rightarrow> pystr option \<Rightarrow> ('w, unit) proc" where
  "db_run_migrations_offline al env =
     configured_run al (Offline_Configuration (db_migration_url env) (base_metadata Models_Base) True (u ''named''))"

definition db_run_migrations_online :: "('w, 'e, 'c, 't) alembic \<Rightarrow> pystr option \<Rightarrow> ('w, unit) proc" where
  "db_run_migrations_online al env =
     seq (al_get_section al) (\<lambda>cfg.
       run_on_connection al (base_metadata Models_Base) (cfg(u ''sqlalchemy.url'' \<mapsto> db_migration_url env)))"

definition db_load_env :: "('w, 'e, 'c, 't) alembic \<Rightarrow> pystr option \<Rightarrow> ('w, unit) proc" where
  "db_load_env al env =
     seq (file_config al) (\<lambda>_.
       if al_is_offline_mode al then db_run_migrations_offline al env else db_run_migrations_online al env)"

section \<open>What a run does\<close>

text \<open>
  A ledger of the world: the open connections, the open transactions, and for every run of the
  migrations how many of both were open then.  The documented behaviour of the calls: connecting
  opens a connection unless it raises, closing closes it even if it raises, and does not suppress; likewise for
  transactions; a run is recorded; nothing else changes the ledger.
\<close>

type_synonym ledger = "nat \<times> nat \<times> (nat \<times> nat) list"

definition keeps_ledger :: "('w \<Rightarrow> ledger) \<Rightarrow> ('w, 'e, 'c, 't) alembic \<Rightarrow> bool" where
  "keeps_ledger l al \<longleftrightarrow>
     (\<forall>f. conserves l (al_file_config al f)) \<and> conserves l (al_get_section al)
     \<and> (\<forall>c p k. conserves l (al_engine_from_config al c p k)) \<and> (\<forall>c. conserves l (al_configure al c))
     \<and> (\<forall>e n t r. triple (\<lambda>w. l w = (n, t, r)) (al_connect al e) (\<lambda>_ w. l w = (Suc n, t, r)) (\<lambda>_ w. l w = (n, t, r)))
     \<and> (\<forall>c x n t r. triple (\<lambda>w. l w = (Suc n, t, r)) (al_close al c x)
          (\<lambda>suppress w. l w = (n, t, r) \<and> \<not> suppress) (\<lambda>_ w. l w = (n, t, r)))
     \<and> (\<forall>n t r. triple (\<lambda>w. l w = (n, t, r)) (al_begin_transaction al) (\<lambda>_ w. l w = (n, Suc t, r)) (\<lambda>_ w. l w = (n, t, r)))
     \<and> (\<forall>h x n t r. triple (\<lambda>w. l w = (n, Suc t, r)) (al_end_transaction al h x)
          (\<lambda>suppress w. l w = (n, t, r) \<and> \<not> suppress) (\<lambda>_ w. l w = (n, t, r)))
     \<and> (\<forall>n t r. triple (\<lambda>w. l w = (n, t, r)) (al_run_migrations al)
          (\<lambda>_ w. l w = (n, t, r @ [(n, t)])) (\<lambda>_ w. l w = (n, t, r @ [(n, t)])))"

lemma file_config_conserves: "keeps_ledger l al \<Longrightarrow> conserves l (file_config al)"
  by (auto simp: keeps_ledger_def file_config_def conserves_def triple_return split: option.split)

text \<open>The behaviour of each call, in the shape in which the rule uses it.\<close>

lemma ledger_calls:
  assumes "keeps_ledger l al" and "\<And>e w. l w = (n, t, r) \<Longrightarrow> E e w"
  shows "triple (\<lambda>w. l w = (n, t, r)) (al_connect al eng) (\<lambda>_ w. l w = (Suc n, t, r)) E"
    and "triple (\<lambda>w. l w = (n, t, r)) (al_begin_transaction al) (\<lambda>_ w. l w = (n, Suc t, r)) E"
    and "triple (\<lambda>w. l w = (Suc n, t, r)) (al_close al c x) (\<lambda>suppress w. l w = (n, t, r) \<and> \<not> suppress) E"
    and "triple (\<lambda>w. l w = (n, Suc t, r)) (al_end_transaction al h x) (\<lambda>suppress w. l w = (n, t, r) \<and> \<not> suppress) E"
proof -
  note law = assms(1) [unfolded keeps_ledger_def]
  show "triple (\<lambda>w. l w = (n, t, r)) (al_connect al eng) (\<lambda>_ w. l w = (Suc n, t, r)) E"
    by (rule triple_exc [OF _ assms(2)]) (simp_all add: law)
  show "triple (\<lambda>w. l w = (n, t, r)) (al_begin_transaction al) (\<lambda>_ w. l w = (n, Suc t, r)) E"
    by (rule triple_exc [OF _ assms(2)]) (simp_all add: law)
  show "triple (\<lambda>w. l w = (Suc n, t, r)) (al_close al c x) (\<lambda>suppress w. l w = (n, t, r) \<and> \<not> suppress) E"
    by (rule triple_exc [OF _ assms(2)]) (simp_all add: law)
  show "triple (\<lambda>w. l w = (n, Suc t, r)) (al_end_transaction al h x) (\<lambda>suppress w. l w = (n, t, r) \<and> \<not> suppress) E"
    by (rule triple_exc [OF _ assms(2)]) (simp_all add: law)
qed

lemma ledger_run:
  assumes "keeps_ledger l al"
  shows "triple (\<lambda>w. l w = (n, t, r)) (al_run_migrations al)
    (\<lambda>_ w. l w = (n, t, r @ [(n, t)])) (\<lambda>_ w. l w = (n, t, r @ [(n, t)]))"
  using assms by (simp add: keeps_ledger_def)

lemma configured_run_ledger:
  assumes "keeps_ledger l al"
  shows "triple (\<lambda>w. l w = (n, t, r)) (configured_run al conf)
    (\<lambda>_ w. l w = (n, t, r @ [(n, Suc t)])) (\<lambda>_ w. l w \<in> {(n, t, r), (n, t, r @ [(n, Suc t)])})"
  unfolding configured_run_def
proof (rule conserves_step)
  show "conserves l (al_configure al conf)" using assms by (simp add: keeps_ledger_def)
  show "triple (\<lambda>w. l w = (n, t, r))
     (with_block (al_begin_transaction al) (al_end_transaction al) (return ()) (\<lambda>_. al_run_migrations al))
     (\<lambda>_ w. l w = (n, t, r @ [(n, Suc t)])) (\<lambda>_ w. l w \<in> {(n, t, r), (n, t, r @ [(n, Suc t)])})" for x
  proof (rule triple_with)
    show "triple (\<lambda>w. l w = (n, Suc t, r @ [(n, Suc t)])) (al_end_transaction al h None) (\<lambda>_ w. l w = (n, t, r @ [(n, Suc t)]))
       (\<lambda>_ w. l w \<in> {(n, t, r), (n, t, r @ [(n, Suc t)])})" for h
      by (rule triple_cons [OF ledger_calls(4) [OF assms]]) auto
    show "triple (\<lambda>w. l w = (n, Suc t, r @ [(n, Suc t)])) (al_end_transaction al h (Some e))
       (\<lambda>suppress w. l w = (n, t, r @ [(n, Suc t)]) \<and> \<not> suppress) (\<lambda>_ w. l w \<in> {(n, t, r), (n, t, r @ [(n, Suc t)])})" for h e
      by (rule ledger_calls(4) [OF assms]) simp
  qed (auto intro: ledger_calls(2) [OF assms] ledger_run [OF assms])
qed simp

lemma run_on_connection_ledger:
  assumes "keeps_ledger l al"
  shows "triple (\<lambda>w. l w = (n, t, r)) (run_on_connection al metadata cfg)
    (\<lambda>_ w. l w = (n, t, r @ [(Suc n, Suc t)])) (\<lambda>_ w. l w \<in> {(n, t, r), (n, t, r @ [(Suc n, Suc t)])})"
  (is "triple _ _ ?Q ?E")
  unfolding run_on_connection_def
proof (rule conserves_step)
  show "conserves l (al_engine_from_config al cfg (u ''sqlalchemy.'') NullPool)"
    using assms by (simp add: keeps_ledger_def)
  fix eng
  let ?ran = "r @ [(Suc n, Suc t)]"
  show "triple (\<lambda>w. l w = (n, t, r))
     (with_block (al_connect al eng) (al_close al) (return ()) (\<lambda>c. configured_run al (Online_Configuration c metadata))) ?Q ?E"
  proof (rule triple_with)
    show "triple (\<lambda>w. l w = (Suc n, t, ?ran)) (al_close al c None) (\<lambda>_ w. l w = (n, t, ?ran)) ?E" for c
      by (rule triple_cons [OF ledger_calls(3) [OF assms]]) auto
    show "triple (\<lambda>w. l w \<in> {(Suc n, t, r), (Suc n, t, ?ran)}) (al_close al c (Some e))
       (\<lambda>suppress w. l w \<in> {(n, t, r), (n, t, ?ran)} \<and> \<not> suppress) ?E" for c e
    proof (rule triple_mem)
      fix L assume L: "L \<in> {(Suc n, t, r), (Suc n, t, ?ran)}"
      then obtain r' where r': "L = (Suc n, t, r')" "(n, t, r') \<in> {(n, t, r), (n, t, ?ran)}" by auto
      show "triple (\<lambda>w. l w = L) (al_close al c (Some e))
         (\<lambda>suppress w. l w \<in> {(n, t, r), (n, t, ?ran)} \<and> \<not> suppress) ?E"
        unfolding r'(1) by (rule triple_cons [OF ledger_calls(3) [OF assms, where E = ?E]]) (use r'(2) in auto)
    qed
  qed (rule ledger_calls(1) [OF assms] configured_run_ledger [OF assms] | simp)+
qed simp

text \<open>
  Loading either environment, in either mode and whatever fails: a return means that the
  migrations ran exactly once, inside one transaction and, online, on one open connection; an
  exception that they ran so at most once; and no connection and no transaction stays open.
\<close>

definition runs_once :: "('w \<Rightarrow> ledger) \<Rightarrow> bool \<Rightarrow> ('w, unit) proc \<Rightarrow> bool" where
  "runs_once l offline m \<longleftrightarrow>
     (\<forall>n t r. let ran = r @ [(if offline then n else Suc n, Suc t)] in
        triple (\<lambda>w. l w = (n, t, r)) m (\<lambda>_ w. l w = (n, t, ran)) (\<lambda>_ w. l w \<in> {(n, t, r), (n, t, ran)}))"

lemma runs_once_after:
  assumes "conserves l m" and "\<And>x. runs_once l b (f x)"
  shows "runs_once l b (seq m f)"
  unfolding runs_once_def Let_def
  by (intro allI conserves_step [OF assms(1)] assms(2) [unfolded runs_once_def Let_def, rule_format]) simp

lemma configured_run_once: "keeps_ledger l al \<Longrightarrow> runs_once l True (configured_run al conf)"
  unfolding runs_once_def Let_def if_True by (intro allI configured_run_ledger)

lemma run_on_connection_once: "keeps_ledger l al \<Longrightarrow> runs_once l False (run_on_connection al metadata cfg)"
  unfolding runs_once_def Let_def if_False by (intro allI run_on_connection_ledger)

lemma get_section_conserves: "keeps_ledger l al \<Longrightarrow> conserves l (al_get_section al)"
  by (simp add: keeps_ledger_def)

lemma load_env_runs_once:
  assumes "keeps_ledger l al"
  shows "runs_once l (al_is_offline_mode al) (load_env al env)"
    and "runs_once l (al_is_offline_mode al) (db_load_env al env)"
proof -
  note rules = runs_once_after file_config_conserves get_section_conserves conserves_from_result
    configured_run_once run_on_connection_once
  show "runs_once l (al_is_offline_mode al) (load_env al env)"
    unfolding load_env_def
  proof (rule runs_once_after [OF file_config_conserves [OF assms]])
    show "runs_once l (al_is_offline_mode al)
        (if al_is_offline_mode al then run_migrations_offline al env else run_migrations_online al env)" for x :: unit
      using assms by (simp add: run_migrations_offline_def run_migrations_online_def rules)
  qed
  show "runs_once l (al_is_offline_mode al) (db_load_env al env)"
    unfolding db_load_env_def
  proof (rule runs_once_after [OF file_config_conserves [OF assms]])
    show "runs_once l (al_is_offline_mode al)
        (if al_is_offline_mode al then db_run_migrations_offline al env else db_run_migrations_online al env)" for x :: unit
      using assms by (simp add: db_run_migrations_offline_def db_run_migrations_online_def rules)
  qed
qed

text \<open>Without an address the first environment raises before it configures, connects or runs anything.\<close>

lemma load_env_without_address:
  assumes "keeps_ledger l al" and "env = None \<or> env = Some []" and "load_env al env w = (result, w')"
  shows "\<exists>e. result = Inl e" and "l w' = l w"
proof -
  have no_url: "migration_url env = Inl RuntimeError" using assms(2) by (auto simp: migration_url_def)
  have "triple (\<lambda>v. l v = l w) (load_env al env) (\<lambda>_ _. False) (\<lambda>_ v. l v = l w)"
    unfolding load_env_def
  proof (rule conserves_step [OF file_config_conserves [OF assms(1)]])
    show "triple (\<lambda>v. l v = l w) (if al_is_offline_mode al then run_migrations_offline al env
        else run_migrations_online al env) (\<lambda>_ _. False) (\<lambda>_ v. l v = l w)" for x :: unit
    proof (cases "al_is_offline_mode al")
      case True
      then show ?thesis by (simp add: run_migrations_offline_def no_url triple_def from_result_def seq_def)
    next
      case False
      have "triple (\<lambda>v. l v = l w) (run_migrations_online al env) (\<lambda>_ _. False) (\<lambda>_ v. l v = l w)"
        unfolding run_migrations_online_def
        by (rule conserves_step [OF get_section_conserves [OF assms(1)]])
          (simp_all add: no_url triple_def from_result_def seq_def)
      with False show ?thesis by simp
    qed
  qed simp
  note after = tripleD [OF this refl]
  show "\<exists>e. result = Inl e" using after(1) assms(3) by (cases result) auto
  then show "l w' = l w" using after(2) assms(3) by (elim exE) simp
qed

theorem migrations_run_once:
  assumes "keeps_ledger l al" and "m \<in> {load_env al env, db_load_env al env}"
    and "m w = (result, w')" and "l w = (n, t, r)"
  shows "let ran = r @ [(if al_is_offline_mode al then n else Suc n, Suc t)] in
    case result of
      Inr _ \<Rightarrow> l w' = (n, t, ran)
    | Inl _ \<Rightarrow> l w' \<in> {(n, t, r), (n, t, ran)}"
proof -
  have "runs_once l (al_is_offline_mode al) m" using assms(2) load_env_runs_once [OF assms(1)] by auto
  note once = this [unfolded runs_once_def Let_def, rule_format, of n t r]
  show ?thesis
    using tripleD [OF once assms(4)] assms(3) by (cases result) (simp_all add: Let_def)
qed

text \<open>An Alembic whose world is the ledger itself and whose migrations fail.\<close>

definition sample_alembic :: "bool \<Rightarrow> (ledger, unit, unit, unit) alembic" where
  "sample_alembic offline = \<lparr>al_config_file_name = Some (u ''alembic.ini''), al_file_config = \<lambda>_. return (),
     al_is_offline_mode = offline, al_get_section = return Map.empty,
     al_engine_from_config = \<lambda>_ _ _. return (),
     al_connect = \<lambda>_ (n, t, r). (Inr (), (Suc n, t, r)), al_close = \<lambda>_ _ (n, t, r). (Inr False, (n - 1, t, r)),
     al_configure = \<lambda>_. return (),
     al_begin_transaction = \<lambda>(n, t, r). (Inr (), (n, Suc t, r)), al_end_transaction = \<lambda>_ _ (n, t, r). (Inr False, (n, t - 1, r)),
     al_run_migrations = \<lambda>(n, t, r). (Inl OtherError, (n, t, r @ [(n, t)]))\<rparr>"

lemma sample_alembic_keeps: "keeps_ledger (\<lambda>L. L) (sample_alembic offline)"
  by (auto simp: keeps_ledger_def conserves_def triple_def sample_alembic_def return_def)

theorem migrations_run_once_witness:
  "snd (load_env (sample_alembic False) (Some (u ''postgres://h/d'')) (0, 0, [])) = (0, 0, [(1, 1)])"
proof -
  let ?m = "load_env (sample_alembic False) (Some (u ''postgres://h/d''))"
  have run: "?m (0, 0, []) = (Inl OtherError, (0, 0, [(1, 1)]))"
    by (simp add: load_env_def file_config_def run_migrations_online_def run_on_connection_def configured_run_def
        with_block_def sample_alembic_def migration_url_def seq_def return_def raise_def from_result_def)
  from migrations_run_once [OF sample_alembic_keeps, of ?m False "Some (u ''postgres://h/d'')" "(0, 0, [])", OF _ run refl]
  show ?thesis using run by simp
qed

section \<open>Migration 0002\<close>

text \<open>
  The revisions of the two directories \<^verbatim>\<open>versions\<close>: one in \<^verbatim>\<open>kenjutsu/db/migrations\<close>, none in the
  other.  Alembic needs every revision that another one revises.
\<close>

record revision =
  rev_revision :: pystr
  rev_down_revision :: "pystr option"

definition revision_0002 :: revision where
  "revision_0002 = \<lparr>rev_revision = u ''0002'', rev_down_revision = Some (u ''0001'')\<rparr>"

definition missing_revisions :: "revision list \<Rightarrow> pystr list" where
  "missing_revisions rs =
     filter (\<lambda>d. d \<notin> set (map rev_revision rs)) (concat (map (\<lambda>r. case rev_down_revision r of None \<Rightarrow> [] | Some d \<Rightarrow> [d]) rs))"

lemma revision_0001_missing: "missing_revisions [revision_0002] = [u ''0001'']"
  by (simp add: missing_revisions_def revision_0002_def)

text \<open>
  A schema lists the columns of each table, with their type and whether they may be null.  Adding a
  column that exists and dropping one that does not are errors of the database.
\<close>

datatype column_type = BigInteger | JSONB_Text | Other_Column pystr

type_synonym column = "pystr \<times> column_type \<times> bool"

type_synonym schema = "pystr \<rightharpoonup> column list"

definition add_column :: "pystr \<Rightarrow> column \<Rightarrow> schema \<Rightarrow> schema result" where
  "add_column table c db = (case db table of
       None \<Rightarrow> Inl OtherError
     | Some cs \<Rightarrow> if fst c \<in> set (map fst cs) then Inl OtherError else Inr (db(table \<mapsto> cs @ [c])))"

definition drop_column :: "pystr \<Rightarrow> pystr \<Rightarrow> schema \<Rightarrow> schema result" where
  "drop_column table name db = (case db table of
       None \<Rightarrow> Inl OtherError
     | Some cs \<Rightarrow> if name \<in> set (map fst cs) then Inr (db(table \<mapsto> filter (\<lambda>c. fst c \<noteq> name) cs)) else Inl OtherError)"

definition upgrade :: "schema \<Rightarrow> schema result" where
  "upgrade db =
     and_then (add_column (u ''reviews'') (u ''github_review_id'', BigInteger, True) db) (\<lambda>db'.
       add_column (u ''reviews'') (u ''github_comment_ids'', JSONB_Text, True) db')"

definition downgrade :: "schema \<Rightarrow> schema result" where
  "downgrade db =
     and_then (drop_column (u ''reviews'') (u ''github_comment_ids'') db) (\<lambda>db'.
       drop_column (u ''reviews'') (u ''github_review_id'') db')"

text \<open>The downgrade undoes the upgrade.\<close>

lemma downgrade_upgrade:
  assumes "upgrade db = Inr db'"
  shows "downgrade db' = Inr db"
proof -
  let ?t = "u ''reviews''" and ?a = "u ''github_review_id''" and ?b = "u ''github_comment_ids''"
  obtain db1 where "add_column ?t (?a, BigInteger, True) db = Inr db1" "add_column ?t (?b, JSONB_Text, True) db1 = Inr db'"
    using assms unfolding upgrade_def and_then_eq_Inr by blast
  then obtain cs where cs: "db ?t = Some cs" "?a \<notin> set (map fst cs)" "?b \<notin> set (map fst cs)"
    and db': "db' = db(?t \<mapsto> cs @ [(?a, BigInteger, True), (?b, JSONB_Text, True)])"
    by (auto simp: add_column_def split: option.split_asm if_split_asm simp del: u_Cons)
  have keep: "filter (\<lambda>c. fst c \<noteq> x) cs = cs" if "x \<notin> set (map fst cs)" for x
    using that by (auto simp: filter_id_conv)
  have "?a \<noteq> ?b" by simp
  then show ?thesis
    using cs(1) keep [OF cs(2)] keep [OF cs(3)]
    by (simp add: downgrade_def drop_column_def db' fun_upd_idem del: u_Cons)
qed

end
