(* ===== verification/Db_Schema.thy ===== *)
theory Db_Schema
  imports Db_Models "HOL-Library.Word"
begin

text \<open>
  The tables with the constraints that \<^verbatim>\<open>kenjutsu/db/models.py\<close> declares: primary keys, unique
  columns, foreign keys with \<open>ON DELETE CASCADE\<close>, the widths of integers, the precision of
  decimals and the defaults.  The statements are those of the publisher, which set one column of one
  row; one whose number does not fit its column is refused and leaves the tables as they were.
\<close>

section \<open>Column types\<close>

text \<open>An integer fits a column when it survives in the two's complement of the column's width.\<close>

definition fits_integer :: "int \<Rightarrow> bool" where
  "fits_integer n \<longleftrightarrow> sint (word_of_int n :: 32 word) = n"

definition fits_bigint :: "int \<Rightarrow> bool" where
  "fits_bigint n \<longleftrightarrow> sint (word_of_int n :: 64 word) = n"

text \<open>\<open>Numeric(12, 6)\<close>: six decimals, ties away from zero, at most six digits before the point.\<close>

definition round_half_away :: "rat \<Rightarrow> int" where
  "round_half_away x = (if x \<ge> 0 then \<lfloor>x + 1 / 2\<rfloor> else - \<lfloor>1 / 2 - x\<rfloor>)"

definition numeric_12_6 :: "rat \<Rightarrow> rat result" where
  "numeric_12_6 x =
     (let units = round_half_away (x * 10 ^ 6)
      in if \<bar>units\<bar> < 10 ^ 12 then Inr (of_int units / 10 ^ 6) else Inl OtherError)"

definition fits_cost :: "rat \<Rightarrow> bool" where
  "fits_cost x \<longleftrightarrow> numeric_12_6 x = Inr x"

section \<open>Rows with their defaults\<close>

definition new_installation :: "uuid \<Rightarrow> rat \<Rightarrow> int \<Rightarrow> pystr \<Rightarrow> pystr \<Rightarrow> installation_row" where
  "new_installation new_id now github_installation_id account_login account_type =
     \<lparr>in_id = new_id, in_github_installation_id = github_installation_id, in_account_login = account_login,
      in_account_type = account_type, in_suspended = False, in_created_at = now, in_updated_at = now\<rparr>"

definition new_repo :: "uuid \<Rightarrow> uuid \<Rightarrow> int \<Rightarrow> pystr \<Rightarrow> repo_row" where
  "new_repo new_id installation_id github_id full_name =
     \<lparr>rp_id = new_id, rp_installation_id = installation_id, rp_github_id = github_id, rp_full_name = full_name,
      rp_default_branch = u ''main'', rp_config_json = J_Dict [], rp_mirror_path = None,
      rp_active_index_version = None, rp_indexed_at = None\<rparr>"

definition new_review_row :: "uuid \<Rightarrow> rat \<Rightarrow> uuid \<Rightarrow> int \<Rightarrow> pystr \<Rightarrow> pystr \<Rightarrow> pystr \<Rightarrow> review_row" where
  "new_review_row new_id now repo_id pr_number head_sha base_sha trigger =
     \<lparr>rw_id = new_id, rw_repo_id = repo_id, rw_pr_number = pr_number, rw_head_sha = head_sha, rw_base_sha = base_sha,
      rw_index_version_id = None, rw_context_source = None, rw_trigger = trigger, rw_status = queued,
      rw_model_used = None, rw_tokens_in = None, rw_tokens_out = None, rw_cost_usd = None,
      rw_latency_ms_json = None, rw_findings_raw_count = None, rw_findings_published_count = None,
      rw_created_at = now, rw_github_review_id = None, rw_github_comment_ids = None\<rparr>"

definition new_finding_row :: "uuid \<Rightarrow> uuid \<Rightarrow> pystr \<Rightarrow> pystr \<Rightarrow> int \<times> int \<Rightarrow> pystr \<times> pystr \<times> pystr \<times> pystr \<times> pystr \<Rightarrow> pystr \<Rightarrow> finding_row" where
  "new_finding_row new_id review_id fp file_path line_range signals description =
     (case (line_range, signals) of ((line_start, line_end), (origin, confidence, severity, category, publishability)) \<Rightarrow>
     \<lparr>fr_id = new_id, fr_review_id = review_id, fr_fingerprint = fp, fr_file_path = file_path,
      fr_line_start = line_start, fr_line_end = line_end, fr_origin = origin, fr_confidence = confidence,
      fr_severity = severity, fr_category = category, fr_publishability = publishability,
      fr_description = description, fr_suggestion = None, fr_evidence_sources_json = [], fr_published = False,
      fr_github_comment_id = None\<rparr>)"

definition new_suppression :: "uuid \<Rightarrow> rat \<Rightarrow> uuid \<Rightarrow> pystr \<Rightarrow> pystr \<Rightarrow> suppression_row" where
  "new_suppression new_id now repo_id fp suppressed_by =
     \<lparr>su_id = new_id, su_repo_id = repo_id, su_fingerprint = fp, su_suppressed_by = suppressed_by,
      su_reason = None, su_created_at = now\<rparr>"

definition new_webhook_event :: "uuid \<Rightarrow> rat \<Rightarrow> pystr \<Rightarrow> uuid \<Rightarrow> pystr \<Rightarrow> json \<Rightarrow> webhook_event_row" where
  "new_webhook_event new_id now delivery_id installation_id event_type payload_json =
     \<lparr>we_id = new_id, we_delivery_id = delivery_id, we_installation_id = installation_id,
      we_event_type = event_type, we_payload_json = payload_json, we_processed = False, we_created_at = now\<rparr>"

definition new_audit_row :: "uuid \<Rightarrow> rat \<Rightarrow> uuid \<Rightarrow> pystr \<Rightarrow> audit_log_row" where
  "new_audit_row new_id now installation_id action =
     \<lparr>al_id = new_id, al_installation_id = installation_id, al_repo_id = None, al_action = action,
      al_detail_json = J_Dict [], al_created_at = now\<rparr>"

section \<open>The tables and their statements\<close>

record tables =
  tb_installations :: "installation_row list"
  tb_repos :: "repo_row list"
  tb_reviews :: "review_row list"
  tb_findings :: "finding_row list"
  tb_suppressions :: "suppression_row list"
  tb_webhook_events :: "webhook_event_row list"
  tb_audit_log :: "audit_log_row list"

text \<open>A value that some row has.\<close>

definition refers :: "('r \<Rightarrow> 'k) \<Rightarrow> 'k \<Rightarrow> 'r list \<Rightarrow> bool" where
  "refers key k rows \<longleftrightarrow> k \<in> set (map key rows)"

definition review_fits :: "review_row \<Rightarrow> bool" where
  "review_fits r \<longleftrightarrow> fits_integer (rw_pr_number r)
     \<and> list_all (pred_option fits_integer) [rw_tokens_in r, rw_tokens_out r, rw_findings_raw_count r, rw_findings_published_count r]
     \<and> pred_option fits_bigint (rw_github_review_id r) \<and> pred_option fits_cost (rw_cost_usd r)"

definition finding_fits :: "finding_row \<Rightarrow> bool" where
  "finding_fits r \<longleftrightarrow> fits_integer (fr_line_start r) \<and> fits_integer (fr_line_end r)
     \<and> pred_option fits_bigint (fr_github_comment_id r)"

text \<open>
  The updates of \<^verbatim>\<open>pipeline/publisher.py\<close>: they name a row by its primary key and set one of its columns.
\<close>

definition modify_review :: "uuid \<Rightarrow> (review_row \<Rightarrow> review_row) \<Rightarrow> tables \<Rightarrow> tables" where
  "modify_review k f t = t\<lparr>tb_reviews := map (\<lambda>r. if rw_id r = k then f r else r) (tb_reviews t)\<rparr>"

definition modify_finding :: "uuid \<Rightarrow> (finding_row \<Rightarrow> finding_row) \<Rightarrow> tables \<Rightarrow> tables" where
  "modify_finding k f t = t\<lparr>tb_findings := map (\<lambda>r. if fr_id r = k then f r else r) (tb_findings t)\<rparr>"

definition set_github_review_id :: "uuid \<Rightarrow> int \<Rightarrow> tables \<Rightarrow> tables result" where
  "set_github_review_id k i t = 
     (if fits_bigint i then Inr (modify_review k (\<lambda>r. r\<lparr>rw_github_review_id := Some i\<rparr>) t) else Inl OtherError)"

definition set_github_comment_id :: "uuid \<Rightarrow> int \<Rightarrow> tables \<Rightarrow> tables result" where
  "set_github_comment_id k i t = 
     (if fits_bigint i then Inr (modify_finding k (\<lambda>r. r\<lparr>fr_github_comment_id := Some i\<rparr>) t) else Inl OtherError)"

section \<open>Widths\<close>

lemma sint_word_of_int_iff:
  "sint (word_of_int n :: 'a::len word) = n \<longleftrightarrow> - (2 ^ (LENGTH('a) - 1)) \<le> n \<and> n < 2 ^ (LENGTH('a) - 1)"
proof
  assume "sint (word_of_int n :: 'a word) = n"
  then show "- (2 ^ (LENGTH('a) - 1)) \<le> n \<and> n < 2 ^ (LENGTH('a) - 1)"
    using sint_ge [of "word_of_int n :: 'a word"] sint_lt [of "word_of_int n :: 'a word"] by simp
next
  assume "- (2 ^ (LENGTH('a) - 1)) \<le> n \<and> n < 2 ^ (LENGTH('a) - 1)"
  then show "sint (word_of_int n :: 'a word) = n"
    by (simp add: sint_sbintrunc' signed_take_bit_int_eq_self)
qed

lemma fits_integer_iff: "fits_integer n \<longleftrightarrow> - (2 ^ 31) \<le> n \<and> n < 2 ^ 31"
  unfolding fits_integer_def sint_word_of_int_iff by simp

lemma fits_bigint_iff: "fits_bigint n \<longleftrightarrow> - (2 ^ 63) \<le> n \<and> n < 2 ^ 63"
  unfolding fits_bigint_def sint_word_of_int_iff by simp

lemma round_half_away_int: "round_half_away (of_int k) = k"
proof -
  have "\<lfloor>of_int k + 1 / 2 :: rat\<rfloor> = k" "\<lfloor>1 / 2 - of_int k :: rat\<rfloor> = - k"
    by linarith+
  then show ?thesis by (simp add: round_half_away_def)
qed

lemma round_half_away_near: "\<bar>of_int (round_half_away x) - x\<bar> \<le> 1 / 2"
proof (cases "x \<ge> 0")
  case True
  then have "round_half_away x = \<lfloor>x + 1 / 2\<rfloor>" by (simp add: round_half_away_def)
  then show ?thesis using floor_correct [of "x + 1 / 2"] by linarith
next
  case False
  then have "round_half_away x = - \<lfloor>1 / 2 - x\<rfloor>" by (simp add: round_half_away_def)
  then show ?thesis using floor_correct [of "1 / 2 - x"] by linarith
qed

lemma numeric_12_6_Inr:
  "numeric_12_6 x = Inr y \<longleftrightarrow> \<bar>round_half_away (x * 10 ^ 6)\<bar> < 10 ^ 12 \<and> y = of_int (round_half_away (x * 10 ^ 6)) / 10 ^ 6"
  by (auto simp: numeric_12_6_def Let_def)

lemma numeric_12_6_fits: "numeric_12_6 x = Inr y \<Longrightarrow> fits_cost y"
  by (simp add: numeric_12_6_Inr fits_cost_def round_half_away_int)

text \<open>What is stored is within half a millionth of what was given.\<close>

lemma numeric_12_6_close:
  assumes "numeric_12_6 x = Inr y"
  shows "\<bar>y - x\<bar> \<le> 1 / (2 * 10 ^ 6)"
proof -
  have "y - x = (of_int (round_half_away (x * 10 ^ 6)) - x * 10 ^ 6) / 10 ^ 6"
    using assms by (simp add: numeric_12_6_Inr diff_divide_distrib)
  then have "\<bar>y - x\<bar> = \<bar>of_int (round_half_away (x * 10 ^ 6)) - x * 10 ^ 6\<bar> / 10 ^ 6"
    by (simp only: abs_divide) simp
  then show ?thesis using divide_right_mono [OF round_half_away_near [of "x * 10 ^ 6"], of "10 ^ 6"] by simp
qed

section \<open>Integrity\<close>

definition keys_unique :: "tables \<Rightarrow> bool" where
  "keys_unique t \<longleftrightarrow>
     distinct (map in_id (tb_installations t)) \<and> distinct (map in_github_installation_id (tb_installations t))
     \<and> distinct (map rp_id (tb_repos t)) \<and> distinct (map rp_github_id (tb_repos t))
     \<and> distinct (map rw_id (tb_reviews t)) \<and> distinct (map fr_id (tb_findings t))
     \<and> distinct (map su_id (tb_suppressions t)) \<and> distinct (map we_id (tb_webhook_events t))
     \<and> distinct (map we_delivery_id (tb_webhook_events t)) \<and> distinct (map al_id (tb_audit_log t))"

definition no_orphans :: "tables \<Rightarrow> bool" where
  "no_orphans t \<longleftrightarrow>
     list_all (\<lambda>r. refers in_id (rp_installation_id r) (tb_installations t)) (tb_repos t)
     \<and> list_all (\<lambda>r. refers rp_id (rw_repo_id r) (tb_repos t)) (tb_reviews t)
     \<and> list_all (\<lambda>f. refers rw_id (fr_review_id f) (tb_reviews t)) (tb_findings t)
     \<and> list_all (\<lambda>s. refers rp_id (su_repo_id s) (tb_repos t)) (tb_suppressions t)
     \<and> list_all (\<lambda>e. refers in_id (we_installation_id e) (tb_installations t)) (tb_webhook_events t)
     \<and> list_all (\<lambda>a. refers in_id (al_installation_id a) (tb_installations t)) (tb_audit_log t)"

definition columns_fit :: "tables \<Rightarrow> bool" where
  "columns_fit t \<longleftrightarrow>
     list_all (\<lambda>r. fits_bigint (in_github_installation_id r)) (tb_installations t)
     \<and> list_all (\<lambda>r. fits_bigint (rp_github_id r)) (tb_repos t)
     \<and> list_all review_fits (tb_reviews t) \<and> list_all finding_fits (tb_findings t)"

definition integrity :: "tables \<Rightarrow> bool" where
  "integrity t \<longleftrightarrow> keys_unique t \<and> no_orphans t \<and> columns_fit t"

text \<open>The statements of a publishing run; one that is refused changes nothing.\<close>

datatype db_statement =
    Set_Github_Review_Id uuid int | Set_Github_Comment_Ids uuid "pystr \<rightharpoonup> int"
  | Set_Github_Comment_Id uuid int | Set_Published uuid

fun statement :: "db_statement \<Rightarrow> tables \<Rightarrow> tables result" where
  "statement (Set_Github_Review_Id k i) t = set_github_review_id k i t"
| "statement (Set_Github_Comment_Ids k m) t = Inr (modify_review k (\<lambda>r. r\<lparr>rw_github_comment_ids := Some m\<rparr>) t)"
| "statement (Set_Github_Comment_Id k i) t = set_github_comment_id k i t"
| "statement (Set_Published k) t = Inr (modify_finding k (\<lambda>r. r\<lparr>fr_published := True\<rparr>) t)"

definition execute :: "tables \<Rightarrow> db_statement \<Rightarrow> tables" where
  "execute t s = (case statement s t of Inl _ \<Rightarrow> t | Inr t' \<Rightarrow> t')"

text \<open>An update that keeps the keys of its row and the widths of its columns.\<close>

definition review_update :: "(review_row \<Rightarrow> review_row) \<Rightarrow> bool" where
  "review_update f \<longleftrightarrow> (\<forall>r. rw_id (f r) = rw_id r \<and> rw_repo_id (f r) = rw_repo_id r \<and> (review_fits r \<longrightarrow> review_fits (f r)))"

definition finding_update :: "(finding_row \<Rightarrow> finding_row) \<Rightarrow> bool" where
  "finding_update f \<longleftrightarrow> (\<forall>r. fr_id (f r) = fr_id r \<and> fr_review_id (f r) = fr_review_id r \<and> (finding_fits r \<longrightarrow> finding_fits (f r)))"

lemma updates [simp, intro]:
  "fits_bigint i \<Longrightarrow> review_update (\<lambda>r. r\<lparr>rw_github_review_id := Some i\<rparr>)"
  "review_update (\<lambda>r. r\<lparr>rw_github_comment_ids := Some m\<rparr>)"
  "fits_bigint i \<Longrightarrow> finding_update (\<lambda>r. r\<lparr>fr_github_comment_id := Some i\<rparr>)"
  "finding_update (\<lambda>r. r\<lparr>fr_published := True\<rparr>)"
  by (simp_all add: review_update_def finding_update_def review_fits_def finding_fits_def)

lemma modify_sel [simp]:
  "tb_installations (modify_review k f t) = tb_installations t" "tb_repos (modify_review k f t) = tb_repos t"
  "tb_findings (modify_review k f t) = tb_findings t" "tb_suppressions (modify_review k f t) = tb_suppressions t"
  "tb_webhook_events (modify_review k f t) = tb_webhook_events t" "tb_audit_log (modify_review k f t) = tb_audit_log t"
  "tb_installations (modify_finding k g t) = tb_installations t" "tb_repos (modify_finding k g t) = tb_repos t"
  "tb_reviews (modify_finding k g t) = tb_reviews t" "tb_suppressions (modify_finding k g t) = tb_suppressions t"
  "tb_webhook_events (modify_finding k g t) = tb_webhook_events t" "tb_audit_log (modify_finding k g t) = tb_audit_log t"
  by (simp_all add: modify_review_def modify_finding_def)

lemma modify_review_keys:
  "review_update f \<Longrightarrow> map rw_id (tb_reviews (modify_review k f t)) = map rw_id (tb_reviews t)"
  "review_update f \<Longrightarrow> map rw_repo_id (tb_reviews (modify_review k f t)) = map rw_repo_id (tb_reviews t)"
  by (simp_all add: modify_review_def review_update_def)

lemma modify_finding_keys:
  "finding_update f \<Longrightarrow> map fr_id (tb_findings (modify_finding k f t)) = map fr_id (tb_findings t)"
  "finding_update f \<Longrightarrow> map fr_review_id (tb_findings (modify_finding k f t)) = map fr_review_id (tb_findings t)"
  by (simp_all add: modify_finding_def finding_update_def)

lemma list_all_map_key: "list_all (\<lambda>x. P (key x)) xs \<longleftrightarrow> list_all P (map key xs)"
  by (simp add: list.pred_map comp_def)

lemma modify_review_keeps:
  assumes "review_update f"
  shows "keys_unique t \<Longrightarrow> keys_unique (modify_review k f t)" and "columns_fit t \<Longrightarrow> columns_fit (modify_review k f t)"
    and "no_orphans t \<Longrightarrow> no_orphans (modify_review k f t)"
proof -
  note keys = modify_review_keys [OF assms, of k t]
  have refs: "list_all (\<lambda>r. P (rw_repo_id r)) (tb_reviews (modify_review k f t)) = list_all (\<lambda>r. P (rw_repo_id r)) (tb_reviews t)" for P
    unfolding list_all_map_key [of P rw_repo_id] keys(2) ..
  show "keys_unique t \<Longrightarrow> keys_unique (modify_review k f t)" by (simp add: keys_unique_def keys)
  show "columns_fit t \<Longrightarrow> columns_fit (modify_review k f t)"
    using assms by (auto simp: columns_fit_def modify_review_def review_update_def list_all_iff)
  show "no_orphans t \<Longrightarrow> no_orphans (modify_review k f t)"
    using refs [of "\<lambda>i. refers rp_id i (tb_repos t)"] by (simp add: no_orphans_def refers_def keys(1) del: set_map)
qed

lemma modify_finding_keeps:
  assumes "finding_update f"
  shows "keys_unique t \<Longrightarrow> keys_unique (modify_finding k f t)" and "columns_fit t \<Longrightarrow> columns_fit (modify_finding k f t)"
    and "no_orphans t \<Longrightarrow> no_orphans (modify_finding k f t)"
proof -
  note keys = modify_finding_keys [OF assms, of k t]
  have refs: "list_all (\<lambda>r. P (fr_review_id r)) (tb_findings (modify_finding k f t)) = list_all (\<lambda>r. P (fr_review_id r)) (tb_findings t)" for P
    unfolding list_all_map_key [of P fr_review_id] keys(2) ..
  show "keys_unique t \<Longrightarrow> keys_unique (modify_finding k f t)" by (simp add: keys_unique_def keys)
  show "columns_fit t \<Longrightarrow> columns_fit (modify_finding k f t)"
    using assms by (auto simp: columns_fit_def modify_finding_def finding_update_def list_all_iff)
  show "no_orphans t \<Longrightarrow> no_orphans (modify_finding k f t)"
    using refs [of "\<lambda>i. refers rw_id i (tb_reviews t)"] by (simp add: no_orphans_def)
qed

lemma statement_keeps:
  assumes "statement s t = Inr t'"
  shows "(keys_unique t \<longrightarrow> keys_unique t') \<and> (columns_fit t \<longrightarrow> columns_fit t') \<and> (no_orphans t \<longrightarrow> no_orphans t')"
  using assms
  by (cases s)
    (auto simp: set_github_review_id_def set_github_comment_id_def modify_review_keeps modify_finding_keeps split: if_split_asm)

lemma execute_keeps: "integrity t \<Longrightarrow> integrity (execute t s)"
  using statement_keeps [of s t] by (auto simp: integrity_def execute_def split: sum.split)


end
