(* ===== verification/Db_Tenants.thy ===== *)
theory Db_Tenants
  imports Db_Schema
begin

text \<open>
  Tenants: which installation a row of \<open>Db_Schema\<close> belongs to, along the foreign keys, the contract of a
  store that tenants share (locale \<open>tenant_store\<close>), and its interpretation on the tables and the
  publisher's updates.
\<close>

section \<open>Tenants\<close>

definition repos_of :: "uuid \<Rightarrow> tables \<Rightarrow> uuid list" where
  "repos_of i t = map rp_id (filter (\<lambda>r. rp_installation_id r = i) (tb_repos t))"

definition reviews_of :: "uuid \<Rightarrow> tables \<Rightarrow> uuid list" where
  "reviews_of i t = map rw_id (filter (\<lambda>r. rw_repo_id r \<in> set (repos_of i t)) (tb_reviews t))"

text \<open>The rows of one tenant, by its installation or along the foreign keys.\<close>

definition tenant_view :: "uuid \<Rightarrow> tables \<Rightarrow> tables" where
  "tenant_view i t =
     \<lparr>tb_installations = filter (\<lambda>r. in_id r = i) (tb_installations t),
      tb_repos = filter (\<lambda>r. rp_installation_id r = i) (tb_repos t),
      tb_reviews = filter (\<lambda>r. rw_repo_id r \<in> set (repos_of i t)) (tb_reviews t),
      tb_findings = filter (\<lambda>f. fr_review_id f \<in> set (reviews_of i t)) (tb_findings t),
      tb_suppressions = filter (\<lambda>s. su_repo_id s \<in> set (repos_of i t)) (tb_suppressions t),
      tb_webhook_events = filter (\<lambda>e. we_installation_id e = i) (tb_webhook_events t),
      tb_audit_log = filter (\<lambda>a. al_installation_id a = i) (tb_audit_log t)\<rparr>"

definition repo_tenant :: "tables \<Rightarrow> uuid \<Rightarrow> uuid option" where
  "repo_tenant t k = map_option rp_installation_id (find (\<lambda>r. rp_id r = k) (tb_repos t))"

definition review_tenant :: "tables \<Rightarrow> uuid \<Rightarrow> uuid option" where
  "review_tenant t k = Option.bind (find (\<lambda>r. rw_id r = k) (tb_reviews t)) (\<lambda>r. repo_tenant t (rw_repo_id r))"

definition finding_tenant :: "tables \<Rightarrow> uuid \<Rightarrow> uuid option" where
  "finding_tenant t k = Option.bind (find (\<lambda>r. fr_id r = k) (tb_findings t)) (\<lambda>r. review_tenant t (fr_review_id r))"

text \<open>The tenant whose row a statement updates.\<close>

fun statement_tenant :: "db_statement \<Rightarrow> tables \<Rightarrow> uuid option" where
  "statement_tenant (Set_Github_Review_Id k i) t = review_tenant t k"
| "statement_tenant (Set_Github_Comment_Ids k m) t = review_tenant t k"
| "statement_tenant (Set_Github_Comment_Id k i) t = finding_tenant t k"
| "statement_tenant (Set_Published k) t = finding_tenant t k"

lemma find_unique: "distinct (map key rows) \<Longrightarrow> r \<in> set rows \<Longrightarrow> key r = k \<Longrightarrow> find (\<lambda>r. key r = k) rows = Some r"
  by (induction rows) (auto simp: image_iff)

lemma find_in: "find P rows = Some r \<Longrightarrow> r \<in> set rows \<and> P r"
  by (auto simp: find_Some_iff)

lemma in_repos_of:
  assumes "keys_unique t"
  shows "k \<in> set (repos_of i t) \<longleftrightarrow> repo_tenant t k = Some i"
proof
  assume "k \<in> set (repos_of i t)"
  then obtain r where "r \<in> set (tb_repos t)" "rp_id r = k" "rp_installation_id r = i" by (auto simp: repos_of_def)
  then show "repo_tenant t k = Some i"
    using find_unique [of rp_id "tb_repos t" r k] assms by (simp add: repo_tenant_def keys_unique_def)
qed (auto simp: repo_tenant_def repos_of_def dest!: find_in)

lemma in_reviews_of:
  assumes "keys_unique t"
  shows "k \<in> set (reviews_of i t) \<longleftrightarrow> review_tenant t k = Some i"
proof
  assume "k \<in> set (reviews_of i t)"
  then obtain r where "r \<in> set (tb_reviews t)" "rw_id r = k" "rw_repo_id r \<in> set (repos_of i t)"
    by (auto simp: reviews_of_def)
  then show "review_tenant t k = Some i"
    using find_unique [of rw_id "tb_reviews t" r k] assms
    by (simp add: review_tenant_def in_repos_of [OF assms]) (simp add: keys_unique_def)
next
  assume "review_tenant t k = Some i"
  then obtain r where "find (\<lambda>r. rw_id r = k) (tb_reviews t) = Some r" "repo_tenant t (rw_repo_id r) = Some i"
    by (auto simp: review_tenant_def Option.bind_eq_Some_conv)
  then show "k \<in> set (reviews_of i t)"
    using find_in in_repos_of [OF assms] by (fastforce simp: reviews_of_def)
qed

text \<open>An update of a row of another tenant is not seen.\<close>

lemma filter_map_other:
  "(\<And>x. x \<in> set xs \<Longrightarrow> g x \<noteq> x \<Longrightarrow> \<not> P x \<and> \<not> P (g x)) \<Longrightarrow> filter P (map g xs) = filter P xs"
proof (induction xs)
  case (Cons x xs)
  then have "filter P (map g xs) = filter P xs" by simp
  moreover have "g x \<noteq> x \<Longrightarrow> \<not> P x \<and> \<not> P (g x)" using Cons.prems by simp
  ultimately show ?case by (cases "g x = x") simp_all
qed simp

lemma modify_review_view:
  assumes "review_update f" "keys_unique t" "review_tenant t k \<noteq> Some j"
  shows "tenant_view j (modify_review k f t) = tenant_view j t"
proof -
  let ?t = "modify_review k f t"
  have repos: "repos_of j ?t = repos_of j t" by (simp add: repos_of_def)
  have foreign: "rw_repo_id r \<notin> set (repos_of j t)" if "r \<in> set (tb_reviews t)" "rw_id r = k" for r
    using that assms(3) in_reviews_of [OF assms(2), of k j] by (auto simp: reviews_of_def)
  have reviews: "filter (\<lambda>r. rw_repo_id r \<in> set (repos_of j t)) (tb_reviews ?t)
      = filter (\<lambda>r. rw_repo_id r \<in> set (repos_of j t)) (tb_reviews t)"
    unfolding modify_review_def
    by (simp, rule filter_map_other) (use foreign assms(1) in \<open>auto simp: review_update_def split: if_split_asm\<close>)
  then show ?thesis by (simp add: tenant_view_def reviews_of_def repos)
qed

lemma modify_finding_view:
  assumes "finding_update f" "keys_unique t" "finding_tenant t k \<noteq> Some j"
  shows "tenant_view j (modify_finding k f t) = tenant_view j t"
proof -
  let ?t = "modify_finding k f t"
  have same: "repos_of j ?t = repos_of j t" "reviews_of j ?t = reviews_of j t"
    by (simp_all add: repos_of_def reviews_of_def)
  have foreign: "fr_review_id r \<notin> set (reviews_of j t)" if "r \<in> set (tb_findings t)" "fr_id r = k" for r
    using that assms(2,3) find_unique [of fr_id "tb_findings t" r k]
    by (simp add: finding_tenant_def in_reviews_of [OF assms(2)] keys_unique_def)
  have findings: "filter (\<lambda>f. fr_review_id f \<in> set (reviews_of j t)) (tb_findings ?t)
      = filter (\<lambda>f. fr_review_id f \<in> set (reviews_of j t)) (tb_findings t)"
    unfolding modify_finding_def
    by (simp, rule filter_map_other) (use foreign assms(1) in \<open>auto simp: finding_update_def split: if_split_asm\<close>)
  then show ?thesis by (simp add: tenant_view_def same)
qed

lemma statement_view:
  assumes "statement s t = Inr t'" "keys_unique t" "statement_tenant s t \<noteq> Some j"
  shows "tenant_view j t' = tenant_view j t"
proof (cases s)
  case (Set_Github_Review_Id k i)
  with assms show ?thesis
    by (auto simp: set_github_review_id_def modify_review_view split: if_split_asm)
next
  case (Set_Github_Comment_Ids k m)
  with assms show ?thesis by (auto simp: modify_review_view)
next
  case (Set_Github_Comment_Id k i)
  with assms show ?thesis
    by (auto simp: set_github_comment_id_def modify_finding_view split: if_split_asm)
next
  case (Set_Published k)
  with assms show ?thesis by (auto simp: modify_finding_view)
qed

lemma execute_view:
  "integrity t \<Longrightarrow> statement_tenant s t \<noteq> Some j \<Longrightarrow> tenant_view j (execute t s) = tenant_view j t"
  using statement_view [of s t] by (auto simp: execute_def integrity_def split: sum.split)

text \<open>
  The contract of a store that tenants share: the steps of other tenants are not seen.  It extends
  to whole runs.
\<close>

locale tenant_store =
  fixes inv :: "'s \<Rightarrow> bool"
    and step :: "'s \<Rightarrow> 'op \<Rightarrow> 's"
    and tenant :: "'op \<Rightarrow> 's \<Rightarrow> 'i option"
    and view :: "'i \<Rightarrow> 's \<Rightarrow> 'v"
  assumes step_inv: "inv s \<Longrightarrow> inv (step s x)"
    and step_other: "inv s \<Longrightarrow> tenant x s \<noteq> Some i \<Longrightarrow> view i (step s x) = view i s"
begin

primrec silent :: "'i \<Rightarrow> 's \<Rightarrow> 'op list \<Rightarrow> bool" where
  "silent i s [] \<longleftrightarrow> True"
| "silent i s (x # xs) \<longleftrightarrow> tenant x s \<noteq> Some i \<and> silent i (step s x) xs"

lemma run_inv: "inv s \<Longrightarrow> inv (foldl step s xs)"
  by (induction xs arbitrary: s) (simp_all add: step_inv)

lemma run_other: "inv s \<Longrightarrow> silent i s xs \<Longrightarrow> view i (foldl step s xs) = view i s"
  by (induction xs arbitrary: s) (simp_all add: step_inv step_other)

end

interpretation schema: tenant_store integrity execute statement_tenant tenant_view
  by unfold_locales (simp_all add: execute_keeps execute_view)

text \<open>The statements of one run that belong to a tenant.\<close>

primrec concerns :: "uuid \<Rightarrow> tables \<Rightarrow> db_statement list \<Rightarrow> bool" where
  "concerns i t [] \<longleftrightarrow> False"
| "concerns i t (s # ss) \<longleftrightarrow> statement_tenant s t = Some i \<or> concerns i (execute t s) ss"

lemma silent_concerns: "schema.silent i t ss \<longleftrightarrow> \<not> concerns i t ss"
  by (induction ss arbitrary: t) simp_all

section \<open>What the schema does not enforce\<close>

text \<open>
  The tables do not enforce the contract that the supersession functions state: two reviews that are
  neither superseded nor aborted may stand in the tables for the same commit of the same pull request.
\<close>

definition two_canonical_rows :: tables where
  "two_canonical_rows =
     \<lparr>tb_installations = [new_installation (u ''i'') 0 1 (u ''acme'') (u ''User'')],
      tb_repos = [new_repo (u ''r'') (u ''i'') 10 (u ''acme/x'')],
      tb_reviews = [new_review_row (u ''v'') 0 (u ''r'') 7 (u ''h'') (u ''b'') (u ''push''),
        new_review_row (u ''w'') 1 (u ''r'') 7 (u ''h'') (u ''b'') (u ''push'')],
      tb_findings = [], tb_suppressions = [], tb_webhook_events = [], tb_audit_log = []\<rparr>"

lemma two_canonical_rows_accepted:
  "integrity two_canonical_rows
   \<and> map (\<lambda>r. (rw_repo_id r, rw_pr_number r, rw_head_sha r, rw_status r)) (tb_reviews two_canonical_rows)
       = replicate 2 (u ''r'', 7, u ''h'', queued)"
  by (simp add: two_canonical_rows_def integrity_def keys_unique_def no_orphans_def columns_fit_def refers_def
      new_installation_def new_repo_def new_review_row_def review_fits_def fits_bigint_iff fits_integer_iff numeral_2_eq_2)

end
