(* ===== verification/Publisher_Schema.thy ===== *)
theory Publisher_Schema
  imports Review_Publisher Db_Tenants
begin

text \<open>
  The publisher on the tables.  \<open>Review_Publisher\<close> works on the rows of a session, \<open>Db_Schema\<close> on tables
  with constraints.  Here the rows of a session are read off the tables, each change the publisher
  makes is shown to be one update of one row of the schema, and a whole run, however it ends, to be a sequence
  of such statements on behalf of one tenant: integrity and isolation then follow from the schema.
\<close>

section \<open>The rows of a session\<close>

definition session_rows :: "tables \<Rightarrow> database" where
  "session_rows t =
     \<lparr>db_repos = (\<lambda>k. find (\<lambda>r. rp_id r = k) (tb_repos t)),
      db_reviews = (\<lambda>k. find (\<lambda>r. rw_id r = k) (tb_reviews t)),
      db_findings = tb_findings t\<rparr>"

lemma find_modify:
  assumes "\<And>r. key (f r) = key r"
  shows "find (\<lambda>r. key r = j) (map (\<lambda>r. if key r = k then f r else r) rows)
    = (if k = j then map_option f (find (\<lambda>r. key r = k) rows) else find (\<lambda>r. key r = j) rows)"
  using assms by (induction rows) auto

lemma session_modify_review:
  assumes "\<And>r. rw_id (f r) = rw_id r"
  shows "session_rows (modify_review k f t) = update_review k f (session_rows t)"
  using find_modify [of rw_id f _ k "tb_reviews t", OF assms]
  by (simp add: session_rows_def update_review_def modify_review_def fun_eq_iff)

lemma session_modify_finding: "session_rows (modify_finding k f t) = update_finding k f (session_rows t)"
  by (simp add: session_rows_def update_finding_def modify_finding_def)

section \<open>The statements of a run\<close>

text \<open>The statements a run for the review \<open>rid\<close> and its findings \<open>ids\<close> may execute.\<close>

fun own_update :: "uuid \<Rightarrow> uuid set \<Rightarrow> db_statement \<Rightarrow> bool" where
  "own_update rid ids (Set_Github_Review_Id k i) \<longleftrightarrow> k = rid"
| "own_update rid ids (Set_Github_Comment_Ids k m) \<longleftrightarrow> k = rid"
| "own_update rid ids (Set_Github_Comment_Id k i) \<longleftrightarrow> k \<in> ids"
| "own_update rid ids (Set_Published k) \<longleftrightarrow> k \<in> ids"

definition reached :: "tables \<Rightarrow> uuid \<Rightarrow> uuid set \<Rightarrow> database \<Rightarrow> bool" where
  "reached t rid ids db \<longleftrightarrow> (\<exists>us. list_all (own_update rid ids) us \<and> db = session_rows (foldl execute t us))"

lemma reached_start: "reached t rid ids (session_rows t)"
  unfolding reached_def by (intro exI [of _ "[]"]) simp

lemma reached_execute:
  assumes "reached t rid ids db" and "own_update rid ids s"
    and "\<And>t'. db = session_rows t' \<Longrightarrow> session_rows (execute t' s) = db'"
  shows "reached t rid ids db'"
proof -
  obtain us where "list_all (own_update rid ids) us" "db = session_rows (foldl execute t us)"
    using assms(1) by (auto simp: reached_def)
  with assms(2,3) show ?thesis unfolding reached_def by (intro exI [of _ "us @ [s]"]) simp
qed

text \<open>Each change of a row is a statement; one with a number is refused unless the number fits.\<close>

lemma session_statements:
  "session_rows (execute t (Set_Github_Comment_Ids k m)) = update_review k (\<lambda>r. r\<lparr>rw_github_comment_ids := Some m\<rparr>) (session_rows t)"
  "session_rows (execute t (Set_Published k)) = update_finding k (\<lambda>r. r\<lparr>fr_published := True\<rparr>) (session_rows t)"
  "fits_bigint i \<Longrightarrow> session_rows (execute t (Set_Github_Review_Id k i))
     = update_review k (\<lambda>r. r\<lparr>rw_github_review_id := Some i\<rparr>) (session_rows t)"
  "fits_bigint i \<Longrightarrow> session_rows (execute t (Set_Github_Comment_Id k i))
     = update_finding k (\<lambda>r. r\<lparr>fr_github_comment_id := Some i\<rparr>) (session_rows t)"
  by (simp_all add: execute_def set_github_review_id_def set_github_comment_id_def
      session_modify_review session_modify_finding)

text \<open>
  What PostgreSQL accepts when the session is flushed: numbers that fit the columns of the rows
  the run changes.  Until then a change is owed.
\<close>

definition rows_fit :: "uuid \<Rightarrow> database \<Rightarrow> bool" where
  "rows_fit rid db \<longleftrightarrow> pred_option review_fits (db_reviews db rid) \<and> list_all finding_fits (db_findings db)"

definition owed :: "tables \<Rightarrow> uuid \<Rightarrow> uuid set \<Rightarrow> database \<Rightarrow> bool" where
  "owed t rid ids db \<longleftrightarrow> (rows_fit rid db \<longrightarrow> reached t rid ids db)"

lemma reached_owed: "reached t rid ids db \<Longrightarrow> owed t rid ids db"
  by (simp add: owed_def)

lemma owed_review_id:
  assumes "reached t rid ids db"
  shows "owed t rid ids (update_review rid (\<lambda>r. r\<lparr>rw_github_review_id := Some i\<rparr>) db)"
  unfolding owed_def
proof
  assume fit: "rows_fit rid (update_review rid (\<lambda>r. r\<lparr>rw_github_review_id := Some i\<rparr>) db)"
  show "reached t rid ids (update_review rid (\<lambda>r. r\<lparr>rw_github_review_id := Some i\<rparr>) db)"
  proof (cases "db_reviews db rid")
    case None
    then have "update_review rid (\<lambda>r. r\<lparr>rw_github_review_id := Some i\<rparr>) db = db"
      by (simp add: update_review_def fun_upd_idem)
    with assms show ?thesis by simp
  next
    case (Some row)
    with fit have "fits_bigint i" by (simp add: rows_fit_def review_fits_def)
    then show ?thesis
      by (intro reached_execute [OF assms, of "Set_Github_Review_Id rid i"]) (simp_all add: session_statements)
  qed
qed

lemma owed_comment_id:
  assumes "reached t rid ids db" "k \<in> ids"
  shows "owed t rid ids (update_finding k (\<lambda>r. r\<lparr>fr_github_comment_id := Some i\<rparr>) db)"
  unfolding owed_def
proof
  assume fit: "rows_fit rid (update_finding k (\<lambda>r. r\<lparr>fr_github_comment_id := Some i\<rparr>) db)"
  show "reached t rid ids (update_finding k (\<lambda>r. r\<lparr>fr_github_comment_id := Some i\<rparr>) db)"
  proof (cases "\<exists>row \<in> set (db_findings db). fr_id row = k")
    case False
    then have "map (\<lambda>r. if fr_id r = k then r\<lparr>fr_github_comment_id := Some i\<rparr> else r) (db_findings db) = db_findings db"
      by (intro map_idI) auto
    then have "update_finding k (\<lambda>r. r\<lparr>fr_github_comment_id := Some i\<rparr>) db = db"
      by (simp add: update_finding_def)
    with assms(1) show ?thesis by simp
  next
    case True
    then obtain row where row: "row \<in> set (db_findings db)" "fr_id row = k" by blast
    then have "row\<lparr>fr_github_comment_id := Some i\<rparr> \<in> set (db_findings (update_finding k (\<lambda>r. r\<lparr>fr_github_comment_id := Some i\<rparr>) db))"
      by (force simp: update_finding_def)
    with fit have "finding_fits (row\<lparr>fr_github_comment_id := Some i\<rparr>)" unfolding rows_fit_def list_all_iff by blast
    then have "fits_bigint i" by (simp add: finding_fits_def)
    then show ?thesis
      using assms(2) by (intro reached_execute [OF assms(1), of "Set_Github_Comment_Id k i"]) (simp_all add: session_statements)
  qed
qed

lemma rows_fit_updates [simp]:
  "rows_fit rid (update_finding k (\<lambda>r. r\<lparr>fr_published := True\<rparr>) db) = rows_fit rid db"
  "rows_fit rid (update_review k (\<lambda>r. r\<lparr>rw_github_comment_ids := Some m\<rparr>) db) = rows_fit rid db"
proof -
  have "finding_fits \<circ> (\<lambda>r. if fr_id r = k then r\<lparr>fr_published := True\<rparr> else r) = finding_fits"
    by (auto simp: fun_eq_iff finding_fits_def)
  then have "list_all finding_fits (db_findings (update_finding k (\<lambda>r. r\<lparr>fr_published := True\<rparr>) db))
      = list_all finding_fits (db_findings db)"
    by (simp add: update_finding_def list.pred_map)
  then show "rows_fit rid (update_finding k (\<lambda>r. r\<lparr>fr_published := True\<rparr>) db) = rows_fit rid db"
    by (simp add: rows_fit_def)
  have "review_fits (r\<lparr>rw_github_comment_ids := Some m\<rparr>) = review_fits r" for r
    by (simp add: review_fits_def)
  then show "rows_fit rid (update_review k (\<lambda>r. r\<lparr>rw_github_comment_ids := Some m\<rparr>) db) = rows_fit rid db"
    by (simp add: rows_fit_def option.pred_map comp_def)
qed

lemma owed_published:
  "owed t rid ids db \<Longrightarrow> k \<in> ids \<Longrightarrow> owed t rid ids (update_finding k (\<lambda>r. r\<lparr>fr_published := True\<rparr>) db)"
  unfolding owed_def
  by (auto intro: reached_execute [where s = "Set_Published k"] simp: session_statements)

lemma owed_comment_ids:
  "owed t rid ids db \<Longrightarrow> owed t rid ids (update_review rid (\<lambda>r. r\<lparr>rw_github_comment_ids := Some m\<rparr>) db)"
  unfolding owed_def
  by (auto intro: reached_execute [where s = "Set_Github_Comment_Ids rid m"] simp: session_statements)

lemma reached_published:
  "reached t rid ids db \<Longrightarrow> k \<in> ids \<Longrightarrow> reached t rid ids (update_finding k (\<lambda>r. r\<lparr>fr_published := True\<rparr>) db)"
  by (auto intro: reached_execute [where s = "Set_Published k"] simp: session_statements)

lemma reached_comment_ids:
  "reached t rid ids db \<Longrightarrow> reached t rid ids (update_review rid (\<lambda>r. r\<lparr>rw_github_comment_ids := Some m\<rparr>) db)"
  by (auto intro: reached_execute [where s = "Set_Github_Comment_Ids rid m"] simp: session_statements)

section \<open>Rules\<close>

abbreviation on_rows :: "(database \<Rightarrow> database \<Rightarrow> bool) \<Rightarrow> 'w publisher \<Rightarrow> bool" where
  "on_rows P s \<equiv> P (pb_db s) (pb_flushed s)"

lemma rows_send: "triple (on_rows P) (send sv req) (\<lambda>_. on_rows P) (\<lambda>_. on_rows P)"
  by (rule tripleI) (auto simp: send_def split: prod.split_asm)

lemma rows_status: "triple (on_rows P) (raise_for_status resp) (\<lambda>_. on_rows P) (\<lambda>_. on_rows P)"
  by (rule triple_cons [OF status_rule [of "on_rows P"]]) auto

lemma rows_result: "triple (on_rows P) (from_result r) (\<lambda>_. on_rows P) (\<lambda>_. on_rows P)"
  by (rule triple_cons [OF result_rule [of "on_rows P"]]) auto

lemma rows_modify: "(\<And>d f. P d f \<Longrightarrow> Q (g d) f) \<Longrightarrow> triple (on_rows P) (modify_db g) (\<lambda>_. on_rows Q) E"
  by (rule tripleI) (auto simp: modify_db_def)

lemmas rows_rules = triple_seq [OF rows_send] triple_seq [OF rows_status] rows_result triple_if triple_return triple_raise

lemma rows_requests:
  "triple (on_rows P) (create_comment pc g) (\<lambda>_. on_rows P) (\<lambda>_. on_rows P)"
  "triple (on_rows P) (update_comment pc i g) (\<lambda>_. on_rows P) (\<lambda>_. on_rows P)"
  "triple (on_rows P) (create_review pc) (\<lambda>_. on_rows P) (\<lambda>_. on_rows P)"
  "triple (on_rows P) (update_gh_review pc i) (\<lambda>_. on_rows P) (\<lambda>_. on_rows P)"
  "triple (on_rows P) (sha_guard_step pc) (\<lambda>_. on_rows P) (\<lambda>_. on_rows P)"
  unfolding create_comment_def update_comment_def create_review_def update_gh_review_def sha_guard_step_def
  by (intro rows_rules triple_seq [OF rows_result]; simp)+

text \<open>The documented behaviour of a flush: it succeeds only for rows that fit.\<close>

definition refuses_misfits :: "uuid \<Rightarrow> 'w services \<Rightarrow> bool" where
  "refuses_misfits rid sv \<longleftrightarrow> (\<forall>db w w'. sv_flush sv db w = (Inr (), w') \<longrightarrow> rows_fit rid db)"

text \<open>Between the steps everything is reached; after an exception at least what was flushed is.\<close>

definition settled :: "tables \<Rightarrow> uuid \<Rightarrow> uuid set \<Rightarrow> database \<Rightarrow> database \<Rightarrow> bool" where
  "settled t rid ids d f \<longleftrightarrow> reached t rid ids d \<and> reached t rid ids f"

definition unsettled :: "tables \<Rightarrow> uuid \<Rightarrow> uuid set \<Rightarrow> database \<Rightarrow> database \<Rightarrow> bool" where
  "unsettled t rid ids d f \<longleftrightarrow> owed t rid ids d \<and> reached t rid ids f"

definition kept :: "tables \<Rightarrow> uuid \<Rightarrow> uuid set \<Rightarrow> database \<Rightarrow> database \<Rightarrow> bool" where
  "kept t rid ids d f \<longleftrightarrow> reached t rid ids f"

lemma settled_kept: "settled t rid ids d f \<Longrightarrow> kept t rid ids d f"
  by (simp add: settled_def kept_def)

lemma flush_settles:
  assumes "refuses_misfits rid sv"
  shows "triple (on_rows (unsettled t rid ids)) (flush sv) (\<lambda>_. on_rows (settled t rid ids)) (\<lambda>_. on_rows (kept t rid ids))"
  by (rule tripleI)
    (use assms in \<open>auto simp: flush_def refuses_misfits_def unsettled_def settled_def kept_def owed_def
      split: prod.split_asm sum.split_asm\<close>)

lemma step_review_id:
  "pc_review_id pc = rid \<Longrightarrow> triple (on_rows (settled t rid ids)) (set_review_id pc i) (\<lambda>_. on_rows (unsettled t rid ids)) E"
  unfolding set_review_id_def by (rule rows_modify) (simp add: settled_def unsettled_def owed_review_id)

lemma step_comment_id:
  "fr_id g \<in> ids \<Longrightarrow> triple (on_rows (settled t rid ids)) (set_comment_id g i) (\<lambda>_. on_rows (unsettled t rid ids)) E"
  unfolding set_comment_id_def by (rule rows_modify) (simp add: settled_def unsettled_def owed_comment_id)

lemma step_published:
  assumes "fr_id g \<in> ids"
  shows "triple (on_rows (unsettled t rid ids)) (set_published g) (\<lambda>_. on_rows (unsettled t rid ids)) E"
    and "triple (on_rows (settled t rid ids)) (set_published g) (\<lambda>_. on_rows (settled t rid ids)) E"
  unfolding set_published_def
  by (rule rows_modify; simp add: assms settled_def unsettled_def owed_published reached_published)+

lemma step_comment_ids:
  assumes "pc_review_id pc = rid"
  shows "triple (on_rows (unsettled t rid ids)) (set_comment_ids pc m) (\<lambda>_. on_rows (unsettled t rid ids)) E"
    and "triple (on_rows (settled t rid ids)) (set_comment_ids pc m) (\<lambda>_. on_rows (settled t rid ids)) E"
  unfolding set_comment_ids_def
  by (rule rows_modify; simp add: assms settled_def unsettled_def owed_comment_ids reached_comment_ids)+

lemma settled_return: "triple (on_rows (settled t rid ids)) (return x) (\<lambda>_. on_rows (settled t rid ids)) E"
  by (rule triple_return)

text \<open>A step that keeps the rows, or leaves them settled, followed by the rest.\<close>

lemma then_rest:
  assumes "triple (on_rows (settled t rid ids)) m (\<lambda>_. on_rows (settled t rid ids)) (\<lambda>_. on_rows (settled t rid ids))"
    and "\<And>x. triple (on_rows (settled t rid ids)) (f x) Q (\<lambda>_. on_rows (kept t rid ids))"
  shows "triple (on_rows (settled t rid ids)) (seq m f) Q (\<lambda>_. on_rows (kept t rid ids))"
  using assms by (rule triple_step) (rule settled_kept)

lemma ensure_review_settled:
  assumes "refuses_misfits rid (pc_services pc)" "pc_review_id pc = rid"
  shows "triple (on_rows (settled t rid ids)) (ensure_review pc old m) (\<lambda>_. on_rows (settled t rid ids)) (\<lambda>_. on_rows (kept t rid ids))"
proof -
  have new: "triple (on_rows (settled t rid ids)) (seq (create_review pc) (\<lambda>new_id. seq (set_review_id pc new_id) (\<lambda>_.
      seq (flush (pc_services pc)) (\<lambda>_. return m')))) (\<lambda>_. on_rows (settled t rid ids)) (\<lambda>_. on_rows (kept t rid ids))" for m'
    by (rule then_rest [OF rows_requests(3)], rule triple_seq [OF step_review_id [OF assms(2)]],
        rule triple_seq [OF flush_settles [OF assms(1)] settled_return])
  show ?thesis
  proof (cases old)
    case None
    with new show ?thesis by (simp add: ensure_review_def)
  next
    case (Some i)
    show ?thesis
      unfolding Some ensure_review_def option.case
      by (rule then_rest [OF rows_requests(4)], rule triple_if, rule new, rule settled_return)
  qed
qed

lemma publish_finding_settled:
  assumes "refuses_misfits rid (pc_services pc)" "pc_review_id pc = rid" "fr_id g \<in> ids"
  shows "triple (on_rows (settled t rid ids)) (publish_finding pc g m) (\<lambda>_. on_rows (settled t rid ids)) (\<lambda>_. on_rows (kept t rid ids))"
proof (cases "existing_comment_id m g")
  case None
  show ?thesis
    unfolding publish_finding_def None option.case Let_def
    by (rule then_rest [OF rows_requests(1)], rule triple_seq [OF step_comment_id [OF assms(3)]],
        rule triple_seq [OF step_published(1) [OF assms(3)]], rule triple_seq [OF step_comment_ids(1) [OF assms(2)]],
        rule triple_seq [OF flush_settles [OF assms(1)] settled_return])
next
  case (Some old)
  have recreate: "triple (on_rows (settled t rid ids)) (seq (create_comment pc g) (\<lambda>new_id. seq (set_comment_id g new_id) (\<lambda>_.
      seq (set_comment_ids pc (m(fr_id g \<mapsto> new_id))) (\<lambda>_. seq (flush (pc_services pc)) (\<lambda>_.
        return (m(fr_id g \<mapsto> new_id))))))) (\<lambda>_. on_rows (settled t rid ids)) (\<lambda>_. on_rows (kept t rid ids))"
    by (rule then_rest [OF rows_requests(1)], rule triple_seq [OF step_comment_id [OF assms(3)]],
        rule triple_seq [OF step_comment_ids(1) [OF assms(2)]],
        rule triple_seq [OF flush_settles [OF assms(1)] settled_return])
  show ?thesis
    unfolding publish_finding_def Some option.case Let_def
    by (rule then_rest [OF rows_requests(2)],
        rule triple_seq [where R = "\<lambda>_. on_rows (settled t rid ids)"], rule triple_if, rule recreate, rule settled_return,
        rule triple_seq [OF step_published(2) [OF assms(3)] settled_return])
qed

lemma publish_findings_settled:
  assumes "refuses_misfits rid (pc_services pc)" "pc_review_id pc = rid" "fr_id ` set gs \<subseteq> ids"
  shows "triple (on_rows (settled t rid ids)) (publish_findings pc gs m) (\<lambda>_. on_rows (settled t rid ids)) (\<lambda>_. on_rows (kept t rid ids))"
  using assms(3)
proof (induction gs arbitrary: m)
  case (Cons g gs)
  then show ?case using publish_finding_settled [OF assms(1,2), of g ids t m] by (auto intro: triple_seq)
qed (simp add: settled_return)

lemma publish_body_settled:
  assumes "refuses_misfits rid (pc_services (pr_context run))" "pc_review_id (pr_context run) = rid"
    and "fr_id ` set (pr_findings run) \<subseteq> ids"
  shows "triple (on_rows (settled t rid ids)) (publish_body run) (\<lambda>_. on_rows (settled t rid ids)) (\<lambda>_. on_rows (kept t rid ids))"
  unfolding publish_body_def
  by (rule then_rest [OF rows_requests(5)], rule triple_seq [OF ensure_review_settled [OF assms(1,2)]],
      rule triple_seq [OF publish_findings_settled [OF assms]], rule step_comment_ids(2) [OF assms(2)])

section \<open>On behalf of one tenant\<close>

lemma own_update_effect:
  assumes "own_update rid ids s"
  obtains "execute t s = t"
  | f where "review_update f" "execute t s = modify_review rid f t"
  | f k where "k \<in> ids" "finding_update f" "execute t s = modify_finding k f t"
proof (cases s)
  case (Set_Github_Review_Id k i)
  then show ?thesis
    using assms that(1) that(2) [OF updates(1)]
    by (cases "fits_bigint i") (auto simp: execute_def set_github_review_id_def)
next
  case (Set_Github_Comment_Ids k m)
  then show ?thesis using assms that(2) [OF updates(2)] by (auto simp: execute_def)
next
  case (Set_Github_Comment_Id k i)
  then show ?thesis
    using assms that(1) that(3) [OF _ updates(3)]
    by (cases "fits_bigint i") (auto simp: execute_def set_github_comment_id_def)
next
  case (Set_Published k)
  then show ?thesis using assms that(3) [OF _ updates(4)] by (auto simp: execute_def)
qed

lemma modify_tenants:
  "review_update f \<Longrightarrow> review_tenant (modify_review k f t) = review_tenant t"
  "review_update f \<Longrightarrow> finding_tenant (modify_review k f t) = finding_tenant t"
  "finding_update g \<Longrightarrow> review_tenant (modify_finding k g t) = review_tenant t"
  "finding_update g \<Longrightarrow> finding_tenant (modify_finding k g t) = finding_tenant t"
proof -
  have repo: "repo_tenant (modify_review k f t) = repo_tenant t" "repo_tenant (modify_finding k g t) = repo_tenant t" for f g
    by (simp_all add: repo_tenant_def fun_eq_iff)
  show review: "review_tenant (modify_review k f t) = review_tenant t" if "review_update f" for f
  proof
    fix j
    have "find (\<lambda>r. rw_id r = j) (tb_reviews (modify_review k f t))
        = (if k = j then map_option f (find (\<lambda>r. rw_id r = k) (tb_reviews t)) else find (\<lambda>r. rw_id r = j) (tb_reviews t))"
      using that by (simp add: modify_review_def find_modify [of rw_id f] review_update_def)
    then show "review_tenant (modify_review k f t) j = review_tenant t j"
      using that by (cases "find (\<lambda>r. rw_id r = k) (tb_reviews t)") (auto simp: review_tenant_def repo review_update_def)
  qed
  show "finding_tenant (modify_review k f t) = finding_tenant t" if "review_update f"
    by (simp add: finding_tenant_def review [OF that] fun_eq_iff)
  show same: "review_tenant (modify_finding k g t) = review_tenant t" if "finding_update g" for g
    by (simp add: review_tenant_def repo fun_eq_iff)
  show "finding_tenant (modify_finding k g t) = finding_tenant t" if "finding_update g"
  proof
    fix j
    have "find (\<lambda>r. fr_id r = j) (tb_findings (modify_finding k g t))
        = (if k = j then map_option g (find (\<lambda>r. fr_id r = k) (tb_findings t)) else find (\<lambda>r. fr_id r = j) (tb_findings t))"
      using that by (simp add: modify_finding_def find_modify [of fr_id g] finding_update_def)
    then show "finding_tenant (modify_finding k g t) j = finding_tenant t j"
      using that by (cases "find (\<lambda>r. fr_id r = k) (tb_findings t)") (auto simp: finding_tenant_def same finding_update_def)
  qed
qed

lemma own_update_tenants:
  assumes "own_update rid ids s"
  shows "review_tenant (execute t s) = review_tenant t" and "finding_tenant (execute t s) = finding_tenant t"
  using own_update_effect [OF assms, of t] by (metis modify_tenants)+

lemma own_update_tenant:
  assumes "own_update rid ids s" "review_tenant t rid = Some i" "\<forall>k \<in> ids. finding_tenant t k = Some i"
  shows "statement_tenant s t = Some i"
  using assms by (cases s) auto

lemma own_updates_concern:
  assumes "list_all (own_update rid ids) us" "review_tenant t rid = Some i" "\<forall>k \<in> ids. finding_tenant t k = Some i"
    and "j \<noteq> i"
  shows "\<not> concerns j t us"
  using assms
proof (induction us arbitrary: t)
  case (Cons s us)
  then show ?case using own_update_tenant [of rid ids s t i] own_update_tenants [of rid ids s t] by auto
qed simp

lemma selected_tenant: "select_review (session_rows t) rid i = Some p \<Longrightarrow> review_tenant t rid = Some i"
  by (auto simp: select_review_def session_rows_def review_tenant_def repo_tenant_def split: option.split_asm if_split_asm)

lemma own_finding_tenant:
  assumes "keys_unique t" "review_tenant t rid = Some i" "f \<in> set (tb_findings t)" "fr_review_id f = rid"
  shows "finding_tenant t (fr_id f) = Some i"
  using assms find_unique [of fr_id "tb_findings t" f "fr_id f"] by (simp add: finding_tenant_def keys_unique_def)

lemma own_updates_isolated:
  assumes "integrity t" "list_all (own_update rid ids) us" "review_tenant t rid = Some i"
    and "\<forall>k \<in> ids. finding_tenant t k = Some i"
  shows "integrity (foldl execute t us) \<and> (\<forall>j. j \<noteq> i \<longrightarrow> tenant_view j (foldl execute t us) = tenant_view j t)"
  using assms schema.run_inv [OF assms(1), of us] schema.run_other [OF assms(1), of _ us]
    own_updates_concern [OF assms(2-4)] by (simp add: silent_concerns)

lemma publish_review_reached:
  fixes sv :: "'w services"
  assumes "refuses_misfits rid sv" and start: "pb_db s = session_rows t" "pb_flushed s = session_rows t"
    and run: "publish_review sv upper rid i s = (r, s')"
    and ids: "ids = {fr_id f | f. f \<in> set (tb_findings t) \<and> fr_review_id f = rid \<and> publishable f}"
  shows "s' = s \<and> r \<noteq> Inr () \<or> (\<exists>p. select_review (session_rows t) rid i = Some p) \<and> reached t rid ids (pb_flushed s')
    \<and> (r = Inr () \<longrightarrow> reached t rid ids (pb_db s'))"
proof (cases "select_review (session_rows t) rid i")
  case None
  with run start show ?thesis by (auto simp: publish_review_body)
next
  case (Some p)
  obtain review repo where p: "p = (review, repo)" by fastforce
  show ?thesis
  proof (cases "split_full_name (rp_full_name repo)")
    case (Inl e)
    with run start Some p show ?thesis by (auto simp: publish_review_body)
  next
    case (Inr q)
    obtain owner name where q: "q = (owner, name)" by fastforce
    let ?run = "run_of sv upper (pb_db s) review rid owner name"
    have body: "publish_body ?run s = (r, s')" using run start Some p Inr q by (simp add: publish_review_body)
    have "triple (on_rows (settled t rid ids)) (publish_body ?run) (\<lambda>_. on_rows (settled t rid ids)) (\<lambda>_. on_rows (kept t rid ids))"
      by (rule publish_body_settled) (use assms(1) in \<open>auto simp: run_of_def ids start session_rows_def\<close>)
    moreover have "settled t rid ids (pb_db s) (pb_flushed s)" by (simp add: settled_def start reached_start)
    ultimately show ?thesis
      using tripleD [of "on_rows (settled t rid ids)" "publish_body ?run" _ _ s] body Some
      by (cases r) (auto simp: settled_def kept_def)
  qed
qed

text \<open>
  Claim C7.  The publisher refines the schema.  Started on the rows of tables that satisfy all
  constraints, and whatever GitHub answers and however the run ends, what it has flushed are
  the rows after some updates of the review and its publishable findings, executed on these tables:
  all constraints still hold, and no row of another tenant is touched.  When it returns, the
  rows of the session are such rows as well.
\<close>

theorem publisher_refines_schema:
  fixes sv :: "'w services"
  assumes "integrity t" and "refuses_misfits rid sv"
    and start: "pb_db s = session_rows t" "pb_flushed s = session_rows t"
    and run: "publish_review sv upper rid i s = (r, s')"
    and ids: "ids = {fr_id f | f. f \<in> set (tb_findings t) \<and> fr_review_id f = rid \<and> publishable f}"
  shows "(\<exists>us. list_all (own_update rid ids) us \<and> pb_flushed s' = session_rows (foldl execute t us)
        \<and> integrity (foldl execute t us)
        \<and> (\<forall>j. j \<noteq> i \<longrightarrow> tenant_view j (foldl execute t us) = tenant_view j t))
    \<and> (r = Inr () \<longrightarrow> (\<exists>us. list_all (own_update rid ids) us \<and> pb_db s' = session_rows (foldl execute t us)))"
  using publish_review_reached [OF assms(2) start run ids]
proof (elim disjE exE conjE)
  assume "s' = s" "r \<noteq> Inr ()"
  then show ?thesis using assms(1) start by (intro conjI exI [of _ "[]"]) simp_all
next
  fix p assume p: "select_review (session_rows t) rid i = Some p" and rows: "reached t rid ids (pb_flushed s')"
    "r = Inr () \<longrightarrow> reached t rid ids (pb_db s')"
  obtain us where us: "list_all (own_update rid ids) us" "pb_flushed s' = session_rows (foldl execute t us)"
    using rows(1) by (auto simp: reached_def)
  have "\<forall>k \<in> ids. finding_tenant t k = Some i"
    using assms(1) own_finding_tenant [OF _ selected_tenant [OF p]] by (auto simp: ids integrity_def)
  from own_updates_isolated [OF assms(1) us(1) selected_tenant [OF p] this] us rows(2)
  show ?thesis unfolding reached_def by blast
qed

text \<open>A database that refuses misfits, and tables with one publishable finding.\<close>

definition checking_services :: "(nat \<times> int) list services" where
  "checking_services = script_services\<lparr>sv_flush := (\<lambda>db w.
     if rows_fit (u ''r1'') db then (Inr (), w) else (Inl IntegrityError, w))\<rparr>"

definition sample_tables :: tables where
  "sample_tables = \<lparr>tb_installations = [new_installation (u ''i1'') 0 1 (u ''o'') (u ''User'')],
     tb_repos = [sample_repo], tb_reviews = [sample_review None None], tb_findings = [sample_row],
     tb_suppressions = [], tb_webhook_events = [], tb_audit_log = []\<rparr>"

lemma sample_tables_integrity: "integrity sample_tables"
  by (simp add: integrity_def keys_unique_def no_orphans_def columns_fit_def refers_def sample_tables_def
      new_installation_def sample_repo_def sample_review_def sample_row_def review_fits_def finding_fits_def
      fits_bigint_iff fits_integer_iff)

text \<open>A comment id of 64 bits is refused: the flush raises, and only the review id was written.\<close>

definition misfit_run :: "unit result \<times> (nat \<times> int) list publisher" where
  "misfit_run = publish_review checking_services id (u ''r1'') (u ''i1'')
     (start (session_rows sample_tables) [(200, 0), (200, 11), (201, 2 ^ 63)])"

lemma misfit_run_value:
  "fst misfit_run = Inl IntegrityError
   \<and> map_option rw_github_review_id (db_reviews (pb_flushed (snd misfit_run)) (u ''r1'')) = Some (Some 11)
   \<and> map fr_github_comment_id (db_findings (pb_flushed (snd misfit_run))) = [None]"
proof -
  have row: "publishable sample_row" "fr_review_id sample_row = u ''r1''"
    using sample_body [of None] by (simp_all add: sample_row_def)
  show ?thesis
    using row
    by (simp add: misfit_run_def publish_eval checking_services_def session_rows_def sample_tables_def update_review_def
        update_finding_def rows_fit_def review_fits_def finding_fits_def fits_bigint_iff fits_integer_iff sample_row_def)
qed

theorem publisher_refines_schema_witness:
  "(\<exists>us. list_all (own_update (u ''r1'') {u ''f1''}) us
      \<and> pb_flushed (snd misfit_run) = session_rows (foldl execute sample_tables us)
      \<and> integrity (foldl execute sample_tables us))
   \<and> fst misfit_run = Inl IntegrityError"
proof -
  have law: "refuses_misfits (u ''r1'') checking_services"
    by (simp add: refuses_misfits_def checking_services_def)
  have run: "publish_review checking_services id (u ''r1'') (u ''i1'')
      (start (session_rows sample_tables) [(200, 0), (200, 11), (201, 2 ^ 63)]) = (fst misfit_run, snd misfit_run)"
    by (simp add: misfit_run_def)
  have ids: "{u ''f1''} = {fr_id f | f. f \<in> set (tb_findings sample_tables) \<and> fr_review_id f = u ''r1'' \<and> publishable f}"
    using sample_body [of None] by (auto simp: sample_tables_def sample_row_def)
  have "pb_db (start (session_rows sample_tables) w) = session_rows sample_tables"
    "pb_flushed (start (session_rows sample_tables) w) = session_rows sample_tables" for w
    by (simp_all add: start_def)
  from publisher_refines_schema [OF sample_tables_integrity law this run ids] misfit_run_value show ?thesis by blast
qed

end
