(* ===== verification/Redaction.thy ===== *)
theory Redaction
  imports Review_Publisher
begin

text \<open>
  Redaction as noninterference: two runs of the publisher on rows that differ in the hidden texts of
  redacted findings only are the same to the world.  A state's public part is the state with
  these texts erased; every step of the publisher keeps two states with one public part in step.
\<close>

section \<open>One comment\<close>

text \<open>The comment of a redacted finding does not depend on the texts it hides.\<close>

lemma redacted_body:
  assumes "is_redacted f"
  shows "finding_comment_body upper (f\<lparr>fr_description := d, fr_suggestion := sg, fr_fingerprint := fp,
      fr_evidence_sources_json := ev\<rparr>) = finding_comment_body upper f"
proof -
  let ?g = "f\<lparr>fr_description := d, fr_suggestion := sg, fr_fingerprint := fp, fr_evidence_sources_json := ev\<rparr>"
  have red: "is_redacted ?g" using assms by (simp add: is_redacted_def)
  have "finding_comment_body upper g = join (u ''\<newline>'')
      [severity_icon (fr_severity g) @ u '' **'' @ upper (fr_severity g) @ u ''** ['' @ fr_category g
         @ u ''] '' @ [0x2014] @ u '' '' @ u ''[REDACTED]'', [],
       u ''*origin: '' @ fr_origin g @ u '' '' @ [0xB7] @ u '' confidence: '' @ fr_confidence g
         @ u '' '' @ [0xB7] @ u '' fingerprint: '' @ u ''[REDACTED]'' @ u ''*'']" if "is_redacted g" for g
    using that by (simp add: finding_comment_body_def Let_def del: u_Cons split: option.split list.split)
  from this [OF red] this [OF assms] show ?thesis by (simp del: u_Cons)
qed

section \<open>Public parts\<close>

definition public_part :: "finding_row \<Rightarrow> finding_row" where
  "public_part f = (if is_redacted f then f\<lparr>fr_description := [], fr_suggestion := None, fr_fingerprint := [],
     fr_evidence_sources_json := []\<rparr> else f)"

definition public_db :: "database \<Rightarrow> database" where
  "public_db d = d\<lparr>db_findings := map public_part (db_findings d)\<rparr>"

definition public_state :: "'w publisher \<Rightarrow> 'w publisher" where
  "public_state s = s\<lparr>pb_db := public_db (pb_db s), pb_flushed := public_db (pb_flushed s),
     pb_trace := map (\<lambda>(req, r, d). (req, r, public_db d)) (pb_trace s)\<rparr>"

lemma public_part_sel [simp]:
  "fr_id (public_part f) = fr_id f" "fr_review_id (public_part f) = fr_review_id f"
  "fr_file_path (public_part f) = fr_file_path f" "fr_line_end (public_part f) = fr_line_end f"
  "fr_github_comment_id (public_part f) = fr_github_comment_id f" "publishable (public_part f) = publishable f"
  "finding_comment_body upper (public_part f) = finding_comment_body upper f"
  by (simp_all add: public_part_def publishable_def redacted_body)

lemma public_part_update [simp]:
  "public_part (f\<lparr>fr_published := b\<rparr>) = (public_part f)\<lparr>fr_published := b\<rparr>"
  "public_part (f\<lparr>fr_github_comment_id := i\<rparr>) = (public_part f)\<lparr>fr_github_comment_id := i\<rparr>"
  by (simp_all add: public_part_def is_redacted_def)

lemma public_db_sel [simp]:
  "db_repos (public_db d) = db_repos d" "db_reviews (public_db d) = db_reviews d"
  "db_findings (public_db d) = map public_part (db_findings d)"
  by (simp_all add: public_db_def)

lemma public_update [simp]:
  "public_db (update_review i f d) = update_review i f (public_db d)"
  "public_db (update_finding k (\<lambda>r. r\<lparr>fr_published := b\<rparr>) d) = update_finding k (\<lambda>r. r\<lparr>fr_published := b\<rparr>) (public_db d)"
  "public_db (update_finding k (\<lambda>r. r\<lparr>fr_github_comment_id := c\<rparr>) d)
     = update_finding k (\<lambda>r. r\<lparr>fr_github_comment_id := c\<rparr>) (public_db d)"
  by (simp_all add: update_review_def update_finding_def public_db_def)

text \<open>The calls for a finding and for its public part are the same.\<close>

lemma public_calls [simp]:
  "create_comment pc (public_part f) = create_comment pc f" "update_comment pc i (public_part f) = update_comment pc i f"
  "set_comment_id (public_part f) i = set_comment_id f i" "set_published (public_part f) = set_published f"
  "existing_comment_id m (public_part f) = existing_comment_id m f"
  by (simp_all add: create_comment_def update_comment_def set_comment_id_def set_published_def existing_comment_id_def split: option.split)

lemma public_finding [simp]: "publish_finding pc (public_part f) m = publish_finding pc f m"
  by (cases "existing_comment_id m f") (simp_all add: publish_finding_def cong: if_cong)

lemma public_findings [simp]: "publish_findings pc (map public_part fs) = publish_findings pc fs"
proof (induction fs)
  case (Cons f fs)
  then show ?case by (intro ext) simp
qed (simp add: fun_eq_iff)

section \<open>Keeping in step\<close>

text \<open>
  An operation acts on the public part alone: on the public part of a state it gives the same
  result and the public part of the new state.
\<close>

definition acts_publicly :: "('w publisher, 'a) proc \<Rightarrow> bool" where
  "acts_publicly m \<longleftrightarrow> (\<forall>s. m (public_state s) = (fst (m s), public_state (snd (m s))))"

text \<open>The documented behaviour of a flush: only changed columns are written, so hidden texts are not looked at.\<close>

definition flushes_publicly :: "'w services \<Rightarrow> bool" where
  "flushes_publicly sv \<longleftrightarrow> (\<forall>d w. sv_flush sv (public_db d) w = sv_flush sv d w)"

lemma acts_seq: "acts_publicly m \<Longrightarrow> (\<And>x. acts_publicly (f x)) \<Longrightarrow> acts_publicly (seq m f)"
  by (simp add: acts_publicly_def seq_def split: prod.split sum.split)

lemma acts_basic: "acts_publicly (return x)" "acts_publicly (raise e)" "acts_publicly (from_result r)"
  by (simp_all add: acts_publicly_def return_def raise_def from_result_def)

lemma acts_if: "acts_publicly m \<Longrightarrow> acts_publicly n \<Longrightarrow> acts_publicly (if b then m else n)"
  by simp

lemma acts_status: "acts_publicly (raise_for_status resp)"
  unfolding raise_for_status_def by (intro acts_if acts_basic)

lemma acts_send: "acts_publicly (send sv req)"
  by (simp add: acts_publicly_def send_def public_state_def split: prod.split)

lemma acts_flush: "flushes_publicly sv \<Longrightarrow> acts_publicly (flush sv)"
  by (simp add: acts_publicly_def flushes_publicly_def flush_def public_state_def split: prod.split sum.split)

lemma acts_modify: "(\<And>d. public_db (g d) = g (public_db d)) \<Longrightarrow> acts_publicly (modify_db g)"
  by (simp add: acts_publicly_def modify_db_def public_state_def)

lemma acts_changes:
  "acts_publicly (set_review_id pc i)" "acts_publicly (set_comment_ids pc m)"
  "acts_publicly (set_comment_id f i)" "acts_publicly (set_published f)"
  unfolding set_review_id_def set_comment_ids_def set_comment_id_def set_published_def
  by (rule acts_modify; simp)+

lemmas acts_rules = acts_seq acts_if acts_basic acts_status acts_send acts_changes

lemma acts_requests:
  "acts_publicly (create_review pc)" "acts_publicly (update_gh_review pc i)" "acts_publicly (create_comment pc f)"
  "acts_publicly (update_comment pc i f)" "acts_publicly (sha_guard_step pc)"
  unfolding create_review_def update_gh_review_def create_comment_def update_comment_def sha_guard_step_def
  by (intro acts_rules)+

lemma acts_ensure_review:
  assumes "flushes_publicly (pc_services pc)"
  shows "acts_publicly (ensure_review pc old m)"
proof (cases old)
  case None
  show ?thesis
    unfolding None ensure_review_def option.case by (intro acts_rules acts_requests acts_flush [OF assms])
next
  case (Some i)
  show ?thesis
    unfolding Some ensure_review_def option.case by (intro acts_rules acts_requests acts_flush [OF assms])
qed

lemma acts_publish_finding:
  assumes "flushes_publicly (pc_services pc)"
  shows "acts_publicly (publish_finding pc f m)"
proof (cases "existing_comment_id m f")
  case None
  show ?thesis
    unfolding None publish_finding_def option.case Let_def by (intro acts_rules acts_requests acts_flush [OF assms])
next
  case (Some i)
  show ?thesis
    unfolding Some publish_finding_def option.case Let_def by (intro acts_rules acts_requests acts_flush [OF assms])
qed

lemma acts_publish_findings: "flushes_publicly (pc_services pc) \<Longrightarrow> acts_publicly (publish_findings pc fs m)"
  by (induction fs arbitrary: m) (simp_all add: acts_basic acts_seq acts_publish_finding)

lemma acts_publish_body: "flushes_publicly (pc_services (pr_context run)) \<Longrightarrow> acts_publicly (publish_body run)"
  unfolding publish_body_def
  by (intro acts_rules acts_requests acts_ensure_review acts_publish_findings)

lemma select_public: "select_review (public_db d) rid i = select_review d rid i"
  by (simp add: select_review_def split: option.split)

lemma public_run: "publish_body (run_of sv upper (public_db d) review rid owner name) = publish_body (run_of sv upper d review rid owner name)"
  by (simp add: publish_body_def run_of_def filter_map comp_def)

lemma acts_publish_review:
  fixes sv :: "'w services"
  assumes "flushes_publicly sv"
  shows "acts_publicly (publish_review sv upper rid i)"
  unfolding acts_publicly_def
proof
  fix s :: "'w publisher"
  have db: "pb_db (public_state s) = public_db (pb_db s)" by (simp add: public_state_def)
  have body: "publish_body (run_of sv upper (pb_db s) review rid owner name) (public_state s)
      = (fst (publish_body (run_of sv upper (pb_db s) review rid owner name) s),
         public_state (snd (publish_body (run_of sv upper (pb_db s) review rid owner name) s)))" for review owner name
    using acts_publish_body [of "run_of sv upper (pb_db s) review rid owner name"] assms
    by (simp add: acts_publicly_def run_of_def)
  show "publish_review sv upper rid i (public_state s)
      = (fst (publish_review sv upper rid i s), public_state (snd (publish_review sv upper rid i s)))"
    unfolding publish_review_body db select_public public_run
    by (simp add: body split: option.split prod.split sum.split)
qed

text \<open>
  Claim C20.  Redaction leaks nothing.  Take two sessions that differ in the descriptions, suggestions,
  fingerprints and evidence of redacted findings only.  Whatever GitHub answers, publishing from
  either ends in the same result, has sent the same requests with the same bodies in the same
  order, received the same answers, and leaves the same world and the same public rows.
\<close>

theorem publishing_leaks_nothing:
  fixes sv :: "'w services"
  assumes "flushes_publicly sv" and "public_state s = public_state t"
    and "publish_review sv upper rid i s = (r, s')" and "publish_review sv upper rid i t = (q, t')"
  shows "r = q \<and> map (\<lambda>(req, answer, d). (req, answer)) (pb_trace s') = map (\<lambda>(req, answer, d). (req, answer)) (pb_trace t')
    \<and> pb_world s' = pb_world t' \<and> public_db (pb_db s') = public_db (pb_db t')"
proof -
  have "(r, public_state s') = (q, public_state t')"
    using acts_publish_review [OF assms(1), of upper rid i] assms(2-) unfolding acts_publicly_def
    by (metis fst_conv snd_conv)
  then have eq: "r = q" "public_state s' = public_state t'" by simp_all
  have parts: "map (\<lambda>(req, answer, d). (req, answer)) (pb_trace (public_state x)) = map (\<lambda>(req, answer, d). (req, answer)) (pb_trace x)"
    "pb_world (public_state x) = pb_world x" "pb_db (public_state x) = public_db (pb_db x)" for x :: "'w publisher"
    by (simp_all add: public_state_def case_prod_beta comp_def)
  show ?thesis using eq(1) parts [of s'] parts [of t'] unfolding eq(2) by simp
qed

text \<open>Two secrets, one trace.\<close>

definition secret_start :: "string \<Rightarrow> (nat \<times> int) list publisher" where
  "secret_start secret = start
     \<lparr>db_repos = [u ''p1'' \<mapsto> sample_repo], db_reviews = [u ''r1'' \<mapsto> sample_review None None],
      db_findings = [sample_row\<lparr>fr_description := u secret\<rparr>]\<rparr> [(200, 0), (200, 11), (201, 12)]"

theorem publishing_leaks_nothing_witness:
  "map (\<lambda>(req, answer, d). (req, answer)) (pb_trace (snd (publish_review script_services id (u ''r1'') (u ''i1'') (secret_start ''a''))))
   = map (\<lambda>(req, answer, d). (req, answer)) (pb_trace (snd (publish_review script_services id (u ''r1'') (u ''i1'') (secret_start ''b''))))"
proof -
  have law: "flushes_publicly script_services" by (simp add: flushes_publicly_def script_services_def)
  have "is_redacted sample_row" by (simp add: is_redacted_def sample_row_def)
  then have same: "public_state (secret_start ''a'') = public_state (secret_start ''b'')"
    by (simp add: secret_start_def start_def public_state_def public_db_def public_part_def is_redacted_def)
  show ?thesis
    using publishing_leaks_nothing [OF law same, of id "u ''r1''" "u ''i1''"] by (metis prod.collapse)
qed

end
