(* ===== verification/Py_Float_Text.thy ===== *)
theory Py_Float_Text
  imports Py_Int Py_Float
begin

text \<open>
  \<open>float(s)\<close> on any string, as Python 3.12 reads it: white space around, one sign, digits of any
  script with single underscores between them, a decimal point, an exponent, or the names of the
  infinities and of NaN; the value is rounded to the nearest double.
\<close>

section \<open>The parser\<close>

definition is_exponent_mark :: "pychar \<Rightarrow> bool" where
  "is_exponent_mark c \<longleftrightarrow> c = of_char CHR ''e'' \<or> c = of_char CHR ''E''"

definition ascii_lower :: "pychar \<Rightarrow> pychar" where
  "ascii_lower c = (if 65 \<le> c \<and> c \<le> 90 then c + 32 else c)"

text \<open>A part of the mantissa may be missing, but not both.\<close>

definition optional_digits :: "pystr \<Rightarrow> pystr option" where
  "optional_digits s = (if s = [] then Some [] else numeral_digits s)"

definition mantissa :: "pystr \<Rightarrow> rat option" where
  "mantissa s =
     (let whole = takeWhile (\<lambda>c. c \<noteq> of_char CHR ''.'') s; rest = dropWhile (\<lambda>c. c \<noteq> of_char CHR ''.'') s
      in if whole = [] \<and> tl rest = [] then None
         else case (optional_digits whole, optional_digits (tl rest)) of
             (Some a, Some b) \<Rightarrow> Some (of_nat (digits_value (a @ b)) / 10 ^ length b)
           | _ \<Rightarrow> None)"

definition signed_digits :: "pystr \<Rightarrow> int option" where
  "signed_digits s =
     (case s of
        [] \<Rightarrow> None
      | c # t \<Rightarrow>
          if c = of_char CHR ''-'' then map_option (\<lambda>ds. - int (digits_value ds)) (numeral_digits t)
          else if c = of_char CHR ''+'' then map_option (\<lambda>ds. int (digits_value ds)) (numeral_digits t)
          else map_option (\<lambda>ds. int (digits_value ds)) (numeral_digits s))"

definition unsigned_float :: "pystr \<Rightarrow> pyfloat result" where
  "unsigned_float s =
     (let name = map ascii_lower s;
          m = takeWhile (\<lambda>c. \<not> is_exponent_mark c) s; rest = dropWhile (\<lambda>c. \<not> is_exponent_mark c) s
      in if name = u ''inf'' \<or> name = u ''infinity'' then Inr PInf
         else if name = u ''nan'' then Inr NaN
         else case (mantissa m, if rest = [] then Some 0 else signed_digits (tl rest)) of
             (Some x, Some e) \<Rightarrow> Inr (to_float (x * 10 powi e))
           | _ \<Rightarrow> Inl ValueError)"

definition py_float :: "pystr \<Rightarrow> pyfloat result" where
  "py_float s =
     (case int_trim s of
        [] \<Rightarrow> Inl ValueError
      | c # t \<Rightarrow>
          if c = of_char CHR ''-'' then and_then (unsigned_float t) (\<lambda>x. Inr (fneg x))
          else if c = of_char CHR ''+'' then unsigned_float t
          else unsigned_float (c # t))"

section \<open>Numerals\<close>

text \<open>A printed integer is read as the nearest double, and exactly up to 53 bits.\<close>

lemma digit_marks: "48 \<le> c \<Longrightarrow> c \<le> 57 \<Longrightarrow> \<not> is_exponent_mark c \<and> c \<noteq> 46 \<and> ascii_lower c = c"
  by (auto simp: is_exponent_mark_def ascii_lower_def)

lemma unsigned_float_nat_str: "unsigned_float (nat_str n) = Inr (to_float (of_nat n))"
proof -
  have marks: "\<not> is_exponent_mark c \<and> c \<noteq> 46 \<and> ascii_lower c = c" if "c \<in> set (nat_str n)" for c
    using that nat_str_ascii [of n] digit_marks by blast
  have parts: "takeWhile (\<lambda>c. \<not> is_exponent_mark c) (nat_str n) = nat_str n" "dropWhile (\<lambda>c. \<not> is_exponent_mark c) (nat_str n) = []"
    "takeWhile (\<lambda>c. c \<noteq> 46) (nat_str n) = nat_str n" "dropWhile (\<lambda>c. c \<noteq> 46) (nat_str n) = []"
    using marks by (auto simp: takeWhile_eq_all_conv dropWhile_eq_Nil_conv)
  have name: "map ascii_lower (nat_str n) = nat_str n" using marks by (intro map_idI) blast
  have "hd (nat_str n) \<in> set (nat_str n)" by simp
  then have "hd (nat_str n) \<le> 57" using nat_str_ascii [of n] by blast
  then have "nat_str n \<noteq> u ''inf''" "nat_str n \<noteq> u ''infinity''" "nat_str n \<noteq> u ''nan''" by auto
  moreover have "mantissa (nat_str n) = Some (of_nat n)"
    using nat_str_digits [of n]
    by (simp add: mantissa_def parts optional_digits_def numeral_digits_run digits_value_nat_str)
  ultimately show ?thesis by (simp add: unsigned_float_def Let_def name parts)
qed

lemma fneg_to_float: "fneg (to_float x) = to_float (- x)"
  by (auto simp: to_float_def fl_neg)

lemma py_float_int_str: "py_float (int_str i) = Inr (to_float (of_int i))"
proof (cases "i < 0")
  case True
  then show ?thesis
    using int_trim_digits [of "45 # nat_str (nat (- i))" "nat (- i)"]
    by (simp add: py_float_def int_str_def unsigned_float_nat_str fneg_to_float)
next
  case False
  obtain c t where ct: "nat_str (nat i) = c # t" by (cases "nat_str (nat i)") auto
  then have "c \<noteq> 43" "c \<noteq> 45" using nat_str_ascii [of "nat i"] by auto
  with False ct show ?thesis
    using int_trim_digits [of "nat_str (nat i)" "nat i"] unsigned_float_nat_str [of "nat i"]
    by (simp add: py_float_def int_str_def)
qed

lemma py_float_samples:
  "py_float (u '' 1_0.5e1 '') = Inr (to_float 105)"
  "py_float (u ''-.5'') = Inr (to_float (- 1 / 2))"
  "py_float (u ''Infinity'') = Inr PInf"
  "py_float (u '''') = Inl ValueError"
  "py_float (u ''30s'') = Inl ValueError"
  "py_float (u ''1__0'') = Inl ValueError"
  "py_float (u ''.'') = Inl ValueError"
  by (simp_all add: py_float_def unsigned_float_def mantissa_def optional_digits_def signed_digits_def int_trim_def
      int_space_def py_isspace_def is_exponent_mark_def ascii_lower_def digits_value_def ascii_eval fneg_to_float)

end
