(* ===== verification/Server.thy ===== *)
theory Server
  imports Webhook Database Py_Float_Text
begin

text \<open>
  What surrounds the webhook endpoint: the database session that the framework provides to it
  (\<open>get_db_session\<close> of \<^verbatim>\<open>kenjutsu/server/webhook.py\<close>), the debounce manager of the module with its quiet period
  from the environment (\<^verbatim>\<open>kenjutsu/server/debounce.py\<close>), and the application (\<^verbatim>\<open>kenjutsu/app.py\<close>).
  The framework runs the endpoint where the dependency yields.
\<close>

section \<open>Sessions\<close>

definition in_module :: "('w, 'a) proc \<Rightarrow> (('e, 'f, 'w) db_module, 'a) proc" where
  "in_module m = (\<lambda>s. case m (dbm_world s) of (r, w) \<Rightarrow> (r, s\<lparr>dbm_world := w\<rparr>))"

text \<open>
  SQLAlchemy's calls: the creation of the engine and of the factory, and the entry and the exit of
  a session.  A dependency that swallows an exception is an error of the framework.
\<close>

record ('w, 'e, 'f, 'd) async_sql =
  sq_create_engine :: "pystr \<Rightarrow> ('w, 'e) proc"
  sq_sessionmaker :: "'e \<Rightarrow> ('w, 'f) proc"
  sq_open :: "'f \<Rightarrow> ('w, 'd) proc"
  sq_close :: "'d \<Rightarrow> py_error option \<Rightarrow> ('w, bool) proc"

definition get_db_session ::
  "pystr option \<Rightarrow> ('w, 'e, 'f, 'd) async_sql \<Rightarrow> ('d \<Rightarrow> ('w, 'a) proc) \<Rightarrow> (('e, 'f, 'w) db_module, 'a) proc" where
  "get_db_session env sq endpoint =
     seq (webhook_get_session_factory env (sq_create_engine sq) (sq_sessionmaker sq)) (\<lambda>factory.
       in_module (with_block (sq_open sq factory) (sq_close sq) (raise RuntimeError) endpoint))"

text \<open>The endpoint works with the session it is given; the calls of SQLAlchemy act on its world.\<close>

definition in_hook_sql :: "('v, 'e, 'f, 'd) async_sql \<Rightarrow> ('v hook_server, 'e, 'f, 'd) async_sql" where
  "in_hook_sql sq =
     \<lparr>sq_create_engine = (\<lambda>url. in_hook_world (sq_create_engine sq url)),
      sq_sessionmaker = (\<lambda>e. in_hook_world (sq_sessionmaker sq e)),
      sq_open = (\<lambda>f. in_hook_world (sq_open sq f)), sq_close = (\<lambda>d x. in_hook_world (sq_close sq d x))\<rparr>"

definition serve_webhook ::
  "pystr option \<Rightarrow> ('v, 'e, 'f, 'd) async_sql \<Rightarrow> ('d \<Rightarrow> 'v hook_services) \<Rightarrow> webhook_request
     \<Rightarrow> (('e, 'f, 'v hook_server) db_module, hook_status) proc" where
  "serve_webhook env sq hk rq = get_db_session env (in_hook_sql sq) (\<lambda>db. receive_webhook (hk db) rq)"

text \<open>
  The ledger of open sessions: opening one opens it unless it raises, closing closes it even if it
  raises and does not suppress, and nothing else changes their number.
\<close>

definition counts_sessions :: "('v \<Rightarrow> nat) \<Rightarrow> ('v, 'e, 'f, 'd) async_sql \<Rightarrow> bool" where
  "counts_sessions l sq \<longleftrightarrow>
     (\<forall>url. conserves l (sq_create_engine sq url)) \<and> (\<forall>e. conserves l (sq_sessionmaker sq e))
     \<and> (\<forall>f n. triple (\<lambda>w. l w = n) (sq_open sq f) (\<lambda>_ w. l w = Suc n) (\<lambda>_ w. l w = n))
     \<and> (\<forall>d x n. triple (\<lambda>w. l w = Suc n) (sq_close sq d x) (\<lambda>suppress w. l w = n \<and> \<not> suppress) (\<lambda>_ w. l w = n))"

definition conserves_sessions :: "('v \<Rightarrow> nat) \<Rightarrow> 'v hook_services \<Rightarrow> bool" where
  "conserves_sessions l hk \<longleftrightarrow>
     (\<forall>i. conserves l (hk_installation hk i)) \<and> (\<forall>d i e p. conserves l (hk_commit hk d i e p)) \<and> conserves l (hk_rollback hk)"

lemma conservesI: "(\<And>s r s'. m s = (r, s') \<Longrightarrow> l s' = l s) \<Longrightarrow> conserves l m"
  unfolding conserves_def by (intro allI tripleI) blast+

lemma conservesD:
  assumes "conserves l m" "m s = (r, s')"
  shows "l s' = l s"
proof -
  have "triple (\<lambda>w. l w = l s) m (\<lambda>_ w. l w = l s) (\<lambda>_ w. l w = l s)"
    using assms(1) unfolding conserves_def by (rule spec)
  from tripleD [OF this refl] assms(2) show ?thesis by (cases r) auto
qed

lemma conserves_basic: "conserves l (return x)" "conserves l (raise e)" "conserves l (from_result r)"
  by (auto intro: conservesI simp: return_def raise_def from_result_def)

lemma conserves_seq: "conserves l m \<Longrightarrow> (\<And>x. conserves l (f x)) \<Longrightarrow> conserves l (seq m f)"
proof (rule conservesI)
  fix s r s' assume m: "conserves l m" and f: "\<And>x. conserves l (f x)" and run: "seq m f s = (r, s')"
  obtain q t where q: "m s = (q, t)" by (metis surj_pair)
  have "l t = l s" by (rule conservesD [OF m q])
  with run q conservesD [OF f] show "l s' = l s" by (cases q) (auto simp: seq_def)
qed

lemma conserves_if: "conserves l m \<Longrightarrow> conserves l n \<Longrightarrow> conserves l (if b then m else n)"
  by simp

lemma conserves_in_hook: "conserves l m \<Longrightarrow> conserves (\<lambda>s. l (hs_world s)) (in_hook_world m)"
  by (rule conservesI) (auto simp: in_hook_world_def split: prod.split_asm dest: conservesD)

lemma conserves_catch:
  assumes "conserves l m" "conserves l h" "conserves l rest"
  shows "conserves l (catch_integrity_error m h rest)"
proof (rule conservesI)
  fix s r s' assume run: "catch_integrity_error m h rest s = (r, s')"
  obtain q t where m: "m s = (q, t)" by (metis surj_pair)
  have "l t = l s" by (rule conservesD [OF assms(1) m])
  moreover have "l s' = l t"
    using run m conservesD [OF assms(2), of t r s'] conservesD [OF assms(3), of t r s']
    by (auto simp: catch_integrity_error_def split: sum.split_asm py_error.split_asm)
  ultimately show "l s' = l s" by simp
qed

lemma commit_event_conserves:
  assumes "conserves l (hk_commit hk d i e p)"
  shows "conserves (\<lambda>s. l (hs_world s)) (commit_event hk d i e p)"
  by (rule conservesI)
    (auto simp: commit_event_def split: if_split_asm prod.split_asm sum.split_asm dest: conservesD [OF assms])

lemma persist_event_conserves:
  assumes "conserves_sessions l hk"
  shows "conserves (\<lambda>s. l (hs_world s)) (persist_event hk e d p)"
  unfolding persist_event_def
proof (rule conserves_seq [OF conserves_basic(3)], rule conserves_if [OF conserves_basic(2)], rule conserves_seq)
  note keep = assms [unfolded conserves_sessions_def]
  show "conserves (\<lambda>s. l (hs_world s)) (in_hook_world (hk_installation hk i))" for i
    using keep by (simp add: conserves_in_hook)
  have commit: "conserves (\<lambda>s. l (hs_world s)) (commit_event hk d i e p)" for i
    using keep by (simp add: commit_event_conserves)
  have rollback: "conserves (\<lambda>s. l (hs_world s)) (seq (in_hook_world (hk_rollback hk)) (\<lambda>_. return Hook_Duplicate))"
    using keep by (simp add: conserves_seq conserves_in_hook conserves_basic)
  have "conserves (\<lambda>s. l (hs_world s)) (add_task e a p)" for a
    by (rule conservesI) (auto simp: add_task_def)
  then have start: "conserves (\<lambda>s. l (hs_world s)) (seq (from_result (dict_get p (u ''action'') J_Null)) (\<lambda>action.
      seq (add_task e action p) (\<lambda>_. return Hook_Accepted)))"
    by (simp add: conserves_seq conserves_basic)
  show "conserves (\<lambda>s. l (hs_world s)) (case installation of None \<Rightarrow> raise (HTTPException 400)
      | Some row \<Rightarrow> catch_integrity_error (commit_event hk d (in_id row) e p)
          (seq (in_hook_world (hk_rollback hk)) (\<lambda>_. return Hook_Duplicate))
          (seq (from_result (dict_get p (u ''action'') J_Null)) (\<lambda>action.
            seq (add_task e action p) (\<lambda>_. return Hook_Accepted))))" for installation
    using commit rollback start by (cases installation) (simp_all add: conserves_basic conserves_catch)
qed

lemma receive_webhook_conserves:
  "conserves_sessions l hk \<Longrightarrow> conserves (\<lambda>s. l (hs_world s)) (receive_webhook hk rq)"
  unfolding receive_webhook_def by (intro conserves_if conserves_seq conserves_basic persist_event_conserves)

text \<open>The getter of the factory, and the whole dependency.\<close>

lemma webhook_factory_conserves:
  assumes "\<And>url. conserves l (create url)" and "\<And>e. conserves l (sessionmaker e)"
  shows "conserves (\<lambda>s. l (dbm_world s)) (webhook_get_session_factory env create sessionmaker)"
proof (rule conservesI)
  fix s r s' assume run: "webhook_get_session_factory env create sessionmaker s = (r, s')"
  have engine: "l (dbm_world t) = l (dbm_world s)" if "webhook_get_engine env create s = (q, t)" for q t
    using that
    by (auto simp: webhook_get_engine_def Let_def dest: conservesD [OF assms(1)]
        split: option.split_asm if_split_asm sum.split_asm prod.split_asm)
  show "l (dbm_world s') = l (dbm_world s)"
    using run
    by (auto simp: webhook_get_session_factory_def seq_def dest!: engine conservesD [OF assms(2)]
        split: option.split_asm sum.split_asm prod.split_asm)
qed

lemma conserves_in_module: "conserves l m \<Longrightarrow> conserves (\<lambda>s. l (dbm_world s)) (in_module m)"
  by (rule conservesI) (auto simp: in_module_def split: prod.split_asm dest: conservesD)

lemma triple_in_hook:
  "triple (\<lambda>w. P w) m (\<lambda>x w. Q x w) (\<lambda>e w. E e w)
     \<Longrightarrow> triple (\<lambda>s. P (hs_world s)) (in_hook_world m) (\<lambda>x s. Q x (hs_world s)) (\<lambda>e s. E e (hs_world s))"
  by (intro tripleI) (auto simp: in_hook_world_def split: prod.split_asm dest: tripleD)

lemma with_session_conserves:
  assumes "\<And>n. triple (\<lambda>w. l w = n) enter (\<lambda>_ w. l w = Suc n) (\<lambda>_ w. l w = n)"
    and "\<And>d x n. triple (\<lambda>w. l w = Suc n) (leave d x) (\<lambda>suppress w. l w = n \<and> \<not> suppress) (\<lambda>_ w. l w = n)"
    and "\<And>d. conserves l (use d)"
  shows "conserves (l :: 'w \<Rightarrow> nat) (with_block enter leave alt use)"
  unfolding conserves_def
proof
  fix n
  show "triple (\<lambda>w. l w = n) (with_block enter leave alt use) (\<lambda>_ w. l w = n) (\<lambda>_ w. l w = n)"
  proof (rule triple_with [where J = "\<lambda>w. l w = Suc n" and K = "\<lambda>w. l w = Suc n" and R = "\<lambda>w. l w = n"])
    show "triple (\<lambda>w. l w = Suc n) (leave d None) (\<lambda>_ w. l w = n) (\<lambda>_ w. l w = n)" for d
      by (rule triple_cons [OF assms(2)]) auto
  qed (use assms in \<open>auto simp: conserves_def\<close>)
qed

text \<open>
  Whatever the request is and whatever fails, every session that was opened for it is closed.
\<close>

theorem webhook_session_closed:
  assumes "counts_sessions l sq" and "\<And>db. conserves_sessions l (hk db)"
    and "serve_webhook env sq hk rq s = (r, s')"
  shows "l (hs_world (dbm_world s')) = l (hs_world (dbm_world s))"
proof -
  let ?l = "\<lambda>w. l (hs_world w)" and ?sq = "in_hook_sql sq"
  note counts = assms(1) [unfolded counts_sessions_def]
  have factory: "conserves (\<lambda>s. ?l (dbm_world s)) (webhook_get_session_factory env (sq_create_engine ?sq) (sq_sessionmaker ?sq))"
    by (rule webhook_factory_conserves) (use counts in \<open>auto simp: in_hook_sql_def intro: conserves_in_hook\<close>)
  have opened: "triple (\<lambda>w. ?l w = n) (sq_open ?sq f) (\<lambda>_ w. ?l w = Suc n) (\<lambda>_ w. ?l w = n)" for f n
    unfolding in_hook_sql_def async_sql.simps by (rule triple_in_hook) (use counts in blast)
  have closed: "triple (\<lambda>w. ?l w = Suc n) (sq_close ?sq d x) (\<lambda>suppress w. ?l w = n \<and> \<not> suppress) (\<lambda>_ w. ?l w = n)" for d x n
    unfolding in_hook_sql_def async_sql.simps by (rule triple_in_hook) (use counts in blast)
  have "conserves ?l (with_block (sq_open ?sq f) (sq_close ?sq) (raise RuntimeError) (\<lambda>db. receive_webhook (hk db) rq))" for f
    by (rule with_session_conserves [OF opened closed]) (rule receive_webhook_conserves [OF assms(2)])
  then have "conserves (\<lambda>s. ?l (dbm_world s)) (serve_webhook env sq hk rq)"
    unfolding serve_webhook_def get_db_session_def by (intro conserves_seq factory conserves_in_module)
  from conservesD [OF this assms(3)] show ?thesis .
qed

text \<open>
  Without an address every request is answered 500, before its headers or its signature are looked
  at, and nothing changes.
\<close>

lemma no_address_no_answer:
  assumes "dbm_session_local s = None" "dbm_engine s = None" "env = None \<or> env = Some []"
  shows "serve_webhook env sq hk rq s = (Inl RuntimeError, s)"
  using assms by (auto simp: serve_webhook_def get_db_session_def webhook_get_session_factory_def webhook_get_engine_def seq_def)

section \<open>The debounce manager of the module\<close>

text \<open>
  The quiet period is read when the module is loaded.  The manager is modelled for finite periods; with
  an infinite one no timer fires, and None stands for these.
\<close>

definition debounce_seconds :: "pystr option \<Rightarrow> pyfloat result" where
  "debounce_seconds env = py_float (case env of Some v \<Rightarrow> v | None \<Rightarrow> u ''30'')"

definition debounce_manager :: "pystr option \<Rightarrow> rat \<Rightarrow> ('k, 'c) debouncer option result" where
  "debounce_manager env now = and_then (debounce_seconds env) (\<lambda>quiet_period.
     case quiet_period of Fin q \<Rightarrow> Inr (Some (new_debouncer q now)) | _ \<Rightarrow> Inr None)"

lemma debounce_default: "debounce_manager None now = Inr (Some (new_debouncer 30 now))"
proof -
  have "u ''30'' = int_str 30" by (simp add: int_str_def nat_str.simps)
  then have "debounce_seconds None = Inr (to_float (of_int 30))"
    by (simp only: debounce_seconds_def option.case py_float_int_str)
  then show ?thesis using to_float_small [of 30] by (simp add: debounce_manager_def)
qed

text \<open>A number of seconds is taken as it is, negative ones included; any other text is an error of the import.\<close>

lemma debounce_whole_seconds:
  "\<bar>i\<bar> \<le> 2 ^ 53 \<Longrightarrow> debounce_manager (Some (int_str i)) now = Inr (Some (new_debouncer (of_int i) now))"
  by (simp add: debounce_manager_def debounce_seconds_def py_float_int_str to_float_small)

lemma debounce_unset_but_empty: "debounce_manager (Some []) now = Inl ValueError"
  by (simp add: debounce_manager_def debounce_seconds_def py_float_def int_trim_def)

section \<open>The application\<close>

datatype route_handler = Receive_Webhook | Health

record fast_api =
  fa_title :: pystr
  fa_description :: pystr
  fa_version :: pystr
  fa_routes :: "(pystr \<times> pystr \<times> route_handler) list"

definition webhook_router :: "(pystr \<times> pystr \<times> route_handler) list" where
  "webhook_router = [(u ''POST'', u ''/webhook'', Receive_Webhook)]"

definition include_router :: "(pystr \<times> pystr \<times> route_handler) list \<Rightarrow> fast_api \<Rightarrow> fast_api" where
  "include_router routes app = app\<lparr>fa_routes := fa_routes app @ routes\<rparr>"

definition app :: fast_api where
  "app = include_router [(u ''GET'', u ''/health'', Health)] (include_router webhook_router
     \<lparr>fa_title = u ''Kenjutsu'', fa_description = u ''AI-powered PR review'', fa_version = u ''0.1.0'', fa_routes = []\<rparr>)"

definition health :: "(pystr \<times> pystr) list" where
  "health = [(u ''status'', u ''ok'')]"

text \<open>No two routes answer the same path, so their order does not matter.\<close>

lemma app_routes: "distinct (map (fst \<circ> snd) (fa_routes app))"
  by (simp add: app_def include_router_def webhook_router_def)

end
