(* ===== verification/Spec2Isabelle.thy ===== *)
theory Spec2Isabelle
  imports Diff_Render Ast_Context Supersession Pipeline_Steps Sha_Guard Rate_Limits Work_Queue Review_Publisher
    Pending_Review Audit_Log Commands Deliveries Eval_Reports Mirror Mirror_Fetch Repo_Config Migrations Publisher_Schema
    Redaction Server
begin

text \<open>
  \<^bold>\<open>Kenjutsu, verified.\<close>  Kenjutsu is a service that reviews GitHub pull requests.  This library
  models the Python package \<^verbatim>\<open>src/kenjutsu\<close> and proves what its parts promise.

  \<^bold>\<open>The program.\<close>  GitHub calls the webhook (\<^verbatim>\<open>server/webhook.py\<close>), which authenticates the request,
  stores the event once and hands it to the debounce manager (\<^verbatim>\<open>server/debounce.py\<close>); after a quiet
  period the manager starts one review.  Comments may hold slash commands (\<^verbatim>\<open>server/commands.py\<close>).
  A review is a durable workflow (\<^verbatim>\<open>pipeline/steps.py\<close>, \<^verbatim>\<open>types.py\<close>, \<^verbatim>\<open>logic.py\<close>) that is guarded at
  both ends by a comparison of the head commit (\<^verbatim>\<open>pipeline/sha_guard.py\<close>), limited by queues, rate
  limits and a cost cap (\<^verbatim>\<open>pipeline/queue.py\<close>), and superseded by later reviews
  (\<^verbatim>\<open>pipeline/supersession.py\<close>).  The code under review comes from a bare mirror (\<^verbatim>\<open>mirror/\<close>); its
  diff is parsed (\<^verbatim>\<open>diff/parser.py\<close>) and extended with syntax scopes (\<^verbatim>\<open>diff/ast_context.py\<close>).
  Findings (\<^verbatim>\<open>models/findings.py\<close>) are published idempotently (\<^verbatim>\<open>pipeline/publisher.py\<close>) or as one
  review (\<^verbatim>\<open>publisher/pending_review.py\<close>), with an audit record (\<^verbatim>\<open>publisher/audit.py\<close>) and database
  rows (\<^verbatim>\<open>db/models.py\<close>).  A runner measures all this on a benchmark (\<^verbatim>\<open>evaluation/runner.py\<close>).

  \<^bold>\<open>Foundations.\<close>
  \<^item> \<open>Kenjutsu_Prelude\<close>: strings as lists of code points (\<open>pystr\<close>) with the methods of \<open>str\<close> the code
    calls; exceptions (\<open>py_error\<close>) and results as sums; the collections \<open>string_defs\<close>, \<open>frame\<close>, \<open>keeps\<close>.
  \<^item> \<open>Py_Effects\<close>: effectful code as \<open>proc\<close>, a function from the world to a result and the world it
    leaves, with triples for returns and exceptions.
  \<^item> \<open>Py_Utf8\<close>, \<open>Py_Int\<close>, \<open>Py_Float\<close>, \<open>Py_Float_Text\<close>, \<open>Py_Number\<close>, \<open>Py_Path\<close>, \<open>Sha256\<close>: encoding, integer
    parsing, IEEE doubles and \<open>float\<close> on strings, number formats and statistics, paths, and SHA-256 with HMAC on 32-bit words.
  \<^item> \<open>Latest_Wins\<close> (locale \<open>latest_wins\<close>): the latest admission for a key is the only live one;
    interpreted on review records, cancel events and debounce timers.
  \<^item> \<open>Codec\<close> (locales \<open>reader\<close> and \<open>codec\<close>): what is printed is read, wholly or what is to be seen of it;
    interpreted on file blocks, diffs and log lines.

  \<^bold>\<open>Which theory models what.\<close>  Definitions carry the names of the code; records have one field per
  attribute, with a prefix; a method takes and returns the record of its object.
  \<^item> \<open>Diff_Models\<close>, \<open>Diff_Parser\<close>, \<open>Diff_Render\<close>: \<^verbatim>\<open>diff/models.py\<close>, \<^verbatim>\<open>diff/parser.py\<close>, and the text of
    \<open>git diff\<close> as git documents it, as a printer of what git knows of two trees.  Shown: the parser reads exactly
    this from the text (and which names and files it reads otherwise), exact line numbers, the header
    grammar, which exceptions there are, and what the deletion filter drops.
  \<^item> \<open>Ast_Context\<close>: \<^verbatim>\<open>diff/ast_context.py\<close>.  Shown: the search finds a smallest enclosing scope, and the
    extension sets nothing but enclosing scopes.
  \<^item> \<open>Findings\<close>, \<open>Supersession\<close>: \<^verbatim>\<open>models/\<close>, \<^verbatim>\<open>pipeline/supersession.py\<close>.  Shown: what a fingerprint
    identifies, pinned to the hashed text, and one canonical review per pull request.
  \<^item> \<open>Pipeline_Steps\<close>: the workflow, over any business functions and any executor of steps.  Shown: all
    outcomes, and publication only behind the exit guard.
  \<^item> \<open>Sha_Guard\<close>, \<open>Rate_Limits\<close>, \<open>Work_Queue\<close>: \<^verbatim>\<open>pipeline/sha_guard.py\<close>, \<^verbatim>\<open>pipeline/queue.py\<close>.  Shown: what
    a guard's answer is backed by, the sliding window and the caps, who is cancelled, and, over asyncio's
    semaphores as objects that know nothing of the tasks inside, the cap of each tenant and that a
    waiting task gets in after boundedly many completions.
  \<^item> \<open>Db_Models\<close>, \<open>Review_Publisher\<close>, \<open>Pending_Review\<close>, \<open>Audit_Log\<close>: the rows and the publishers.  Shown:
    no duplicates over crashes and retries, back-off near the rate
    limit, and the append-only log.
  \<^item> \<open>Redaction\<close>: two whole publishing runs on rows that differ only in what redaction hides are the same
    to GitHub (noninterference).
  \<^item> \<open>Db_Schema\<close>: the tables of \<^verbatim>\<open>db/models.py\<close> with the defaults of their rows, their keys, unique columns, foreign
    keys, widths and precisions as the integrity of the tables, and the updates of the publisher, which keep it.
  \<^item> \<open>Db_Tenants\<close>: the tenant of a row along the foreign keys, and (locale \<open>tenant_store\<close>, interpreted on
    the tables) that updates of other tenants' rows leave a tenant's rows alone.
  \<^item> \<open>Publisher_Schema\<close>: a publishing run, however it ends, refines a sequence of updates of the schema, all
    of the review and the findings it was started on.
  \<^item> \<open>Debounce\<close>, \<open>Commands\<close>, \<open>Webhook\<close>, \<open>Deliveries\<close>: \<^verbatim>\<open>server/\<close>.  Shown: authentication, one event and one task
    per delivery, the quiet period, that the last push is reviewed, the command grammar, and end to end, with
    requests, tasks and the event loop interleaved at any times, that the last event that asks for a review of a
    pull request leads to exactly one.
  \<^item> \<open>Server\<close>: the session dependency of the endpoint, the module's debounce manager with its period from
    the environment, and \<^verbatim>\<open>app.py\<close>.  Shown: a session that was opened is closed on every path.
  \<^item> \<open>Eval_Matching\<close>, \<open>Eval_Metrics\<close>, \<open>Eval_Compare\<close>, \<open>Eval_Reports\<close>: \<^verbatim>\<open>evaluation/runner.py\<close>.  Shown:
    maximal matching, bounds of all metrics, the go/no-go verdict and the totals of the reports.
  \<^item> \<open>Mirror\<close>, \<open>Mirror_Fetch\<close>: \<^verbatim>\<open>mirror/lifecycle.py\<close>, \<^verbatim>\<open>mirror/api.py\<close>.  Shown: deletion is exact, the log is
    read back, fetches are serialized per repository, and no interleaving deadlocks.
  \<^item> \<open>Repo_Config\<close>, \<open>Database\<close>: \<^verbatim>\<open>config/\<close>, \<^verbatim>\<open>database.py\<close>.  Shown: how every setting is resolved, and that
    lazily created values are created once (locale \<open>lazily_created\<close>, interpreted on the two engines
    and the two session factories).
  \<^item> \<open>Migrations\<close>: \<^verbatim>\<open>migrations/env.py\<close>, \<^verbatim>\<open>db/migrations/\<close>.  Shown: in both environments and both modes the
    migrations run once, inside a transaction, and connection and transaction are ended on every path.
  \<^item> This theory relates how the publishers and the SHA guard present the token.

  \<^bold>\<open>Loops, fuel, interleaving.\<close>  Every loop is a terminating recursion: on the list it consumes, or on a
  decreasing measure, as for the hunks of a block or the scopes of a syntax tree; the retries of the
  guard are counted by the code.  No definition has fuel.  Concurrency is a step relation: the event loop of
  \<open>Debounce\<close>, the tasks of \<open>Work_Queue\<close> and the threads of \<open>Mirror_Fetch\<close> take one step between
  any two accesses to shared state; bounded waiting is proved by counting who is ahead.

  \<^bold>\<open>Parameters.\<close>  Third-party code is an argument of the definitions: GitHub's answers, git, the
  database's commit, \<open>json.loads\<close>, \<open>yaml.safe_load\<close> and the conversions of pydantic, tree-sitter and
  its grammars, DBOS's step executor, SQLAlchemy's engines, Alembic, \<open>str.lower\<close>, clocks and fresh ids.  The laws
  asked of them are hypotheses of the theorems that need them, with witnesses.

  \<^bold>\<open>Not modelled.\<close>  Logging and \<open>__repr__\<close>; the text \<open>json.dumps\<close> makes of a value; how FastAPI
  dispatches requests (the routes are data); package initialisers, which only re-export names;
  inserts, updates and deletions of rows that no code under \<^verbatim>\<open>src/kenjutsu\<close> executes; DBOS's recovery of
  a workflow after a crash; symbolic links; exact real time of
  asyncio, of which only the order of deadlines and the resolution of the clock are kept.
\<close>

section \<open>Authorization\<close>

text \<open>
  The two publishers and the SHA guard present the token in the same way; a client that is given to
  the pending-review publisher never sees its token.
\<close>

lemma same_headers: "client_headers token = auth_headers token"
  by (simp add: client_headers_def auth_headers_def del: u_Cons)

lemma guard_authorization:
  "map_of (auth_headers token) (u ''Authorization'') = Some (gq_authorization (github_headers pr token stale))"
  by (simp add: auth_headers_def github_headers_def del: u_Cons)

lemma given_client_without_token:
  "init_publisher make_client token owner repo n (Some c) w = init_publisher make_client other owner repo n (Some c) w"
  by (simp add: init_publisher_def)

end
